(* ===== verification/Prelude.thy ===== *)
theory Prelude
  imports Main "HOL-Library.Word" "HOL-Library.Signed_Division"
begin

text \<open>
  The prelude of the development: the types that name Go's machine integers, byte slices and
  strings, the result type of fallible operations, checked slicing, the big-endian encodings of
  \<open>encoding/binary\<close>, the hexadecimal encoding of \<open>encoding/hex\<close>, and \<open>io.Reader\<close> with
  \<open>io.ReadFull\<close> and \<open>ReadByte\<close>. The components only see these through the lemmas collected in
  \<open>be_simps\<close>, \<open>io_simps\<close> and \<open>res_simps\<close>.
\<close>

unbundle bit_operations_syntax

named_theorems be_simps \<open>big-endian encodings and their lengths\<close>
named_theorems io_simps \<open>readers\<close>
named_theorems res_simps \<open>results and checked slices\<close>

section \<open>Types\<close>

type_synonym byte = "8 word"
type_synonym bytes = "byte list"
type_synonym u16 = "16 word"
type_synonym u32 = "32 word"
type_synonym u64 = "64 word"

text \<open>
  Go's \<open>int\<close> and \<open>int64\<close> are both 64 bits wide on the supported platforms. Values are kept as
  \<^typ>\<open>int\<close>; where an operation can leave the range, \<open>int64\<close> wraps it as two's complement does.
\<close>

definition int64 :: "int \<Rightarrow> int" where
  "int64 x = signed_take_bit 63 x"

lemma int64_id [simp]: "- (2 ^ 63) \<le> x \<Longrightarrow> x < 2 ^ 63 \<Longrightarrow> int64 x = x"
  by (simp add: int64_def signed_take_bit_int_eq_self_iff)

lemma int64_range: "- (2 ^ 63) \<le> int64 x" "int64 x < 2 ^ 63"
  unfolding int64_def by (rule signed_take_bit_int_greater_eq_minus_exp, rule signed_take_bit_int_less_exp)

text \<open>Conversions between \<open>int64\<close> and \<open>uint64\<close>, as Go's conversions do them.\<close>

definition u64_of :: "int \<Rightarrow> u64" where
  "u64_of x = word_of_int x"

definition int64_of :: "u64 \<Rightarrow> int" where
  "int64_of w = sint w"

lemma int64_of_u64_of: "- (2 ^ 63) \<le> x \<Longrightarrow> x < 2 ^ 63 \<Longrightarrow> int64_of (u64_of x) = x"
  by (simp add: int64_of_def u64_of_def signed_take_bit_int_eq_self_iff sint_sbintrunc')

section \<open>Results\<close>

text \<open>
  A Go function that returns \<open>(T, error)\<close>, and may panic, returns a value of type
  \<^typ>\<open>'a\<close> on the right of a sum; the left holds the error, tagged with the format string of
  the source, or the panic.
\<close>

datatype go_error =
    Panic string
  | Err string
  | ErrMsg string string
  | ErrHash string "byte list"

type_synonym 'a res = "go_error + 'a"

definition bind_r :: "'a res \<Rightarrow> ('a \<Rightarrow> 'b res) \<Rightarrow> 'b res" where
  "bind_r m f = (case m of Inl e \<Rightarrow> Inl e | Inr x \<Rightarrow> f x)"

lemma bind_r_simps [simp, res_simps]:
  "bind_r (Inl e) f = Inl e"
  "bind_r (Inr x) f = f x"
  by (simp_all add: bind_r_def)

lemma bind_r_eq_Inr [res_simps]:
  "bind_r m f = Inr y \<longleftrightarrow> (\<exists>x. m = Inr x \<and> f x = Inr y)"
  by (cases m) auto

lemma bind_r_eq_Inl [res_simps]:
  "bind_r m f = Inl e \<longleftrightarrow> m = Inl e \<or> (\<exists>x. m = Inr x \<and> f x = Inl e)"
  by (cases m) auto

text \<open>A loop over a list whose body may fail.\<close>

fun fold_r :: "('s \<Rightarrow> 'a \<Rightarrow> 's res) \<Rightarrow> 's \<Rightarrow> 'a list \<Rightarrow> 's res" where
  "fold_r f s [] = Inr s"
| "fold_r f s (x # xs) = bind_r (f s x) (\<lambda>s'. fold_r f s' xs)"

lemma fold_r_append: "fold_r f s (xs @ ys) = bind_r (fold_r f s xs) (\<lambda>s'. fold_r f s' ys)"
  by (induction xs arbitrary: s) (simp_all add: bind_r_def split: sum.splits)

text \<open>The panic of the Go runtime, as opposed to an error a function returns.\<close>

fun panics :: "'a res \<Rightarrow> bool" where
  "panics (Inl (Panic _)) = True"
| "panics _ = False"

section \<open>Checked indexing and slicing\<close>

text \<open>
  Go panics on an index or a slice expression out of range. An index is a Go \<open>int\<close>, hence an
  \<^typ>\<open>int\<close>, which may be negative.
\<close>

definition go_index :: "'a list \<Rightarrow> int \<Rightarrow> 'a res" where
  "go_index xs i =
     (if 0 \<le> i \<and> i < int (length xs) then Inr (xs ! nat i) else Inl (Panic ''index out of range''))"

definition go_update :: "'a list \<Rightarrow> int \<Rightarrow> 'a \<Rightarrow> 'a list res" where
  "go_update xs i x =
     (if 0 \<le> i \<and> i < int (length xs) then Inr (xs[nat i := x])
      else Inl (Panic ''index out of range''))"

definition subslice :: "nat \<Rightarrow> nat \<Rightarrow> 'a list \<Rightarrow> 'a list" where
  "subslice i j xs = take (j - i) (drop i xs)"

definition go_slice :: "int \<Rightarrow> int \<Rightarrow> 'a list \<Rightarrow> 'a list res" where
  "go_slice i j xs =
     (if 0 \<le> i \<and> i \<le> j \<and> j \<le> int (length xs) then Inr (subslice (nat i) (nat j) xs)
      else Inl (Panic ''slice bounds out of range''))"

text \<open>
  Integer division and remainder truncate towards zero, and panic on a zero divisor.
\<close>

definition go_div :: "int \<Rightarrow> int \<Rightarrow> int res" where
  "go_div x y = (if y = 0 then Inl (Panic ''integer divide by zero'') else Inr (x sdiv y))"

definition go_mod :: "int \<Rightarrow> int \<Rightarrow> int res" where
  "go_mod x y = (if y = 0 then Inl (Panic ''integer divide by zero'') else Inr (x smod y))"

lemma go_mod_nonneg [simp]: "0 \<le> x \<Longrightarrow> 0 < y \<Longrightarrow> go_mod x y = Inr (x mod y)"
  by (simp add: go_mod_def signed_modulo_int_def sgn_if)

lemma go_div_nonneg [simp]: "0 \<le> x \<Longrightarrow> 0 < y \<Longrightarrow> go_div x y = Inr (x div y)"
  by (simp add: go_div_def signed_divide_int_def sgn_if)

text \<open>\<open>make([]T, n)\<close> with a length of type \<open>int\<close>.\<close>

definition go_make :: "int \<Rightarrow> 'a \<Rightarrow> 'a list res" where
  "go_make n z =
     (if n < 0 then Inl (Panic ''makeslice: len out of range'') else Inr (replicate (nat n) z))"

lemma go_make_nat [simp]: "go_make (int n) z = Inr (replicate n z)"
  by (simp add: go_make_def)

lemma go_index_nat [simp]: "i < length xs \<Longrightarrow> go_index xs (int i) = Inr (xs ! i)"
  by (simp add: go_index_def)

lemma go_update_nat [simp]: "i < length xs \<Longrightarrow> go_update xs (int i) x = Inr (xs[i := x])"
  by (simp add: go_update_def)

lemma go_slice_nat [simp]:
  "i \<le> j \<Longrightarrow> j \<le> length xs \<Longrightarrow> go_slice (int i) (int j) xs = Inr (subslice i j xs)"
  by (simp add: go_slice_def)

lemma length_subslice [simp]: "j \<le> length xs \<Longrightarrow> length (subslice i j xs) = j - i"
  by (simp add: subslice_def)

lemma subslice_append:
  "length xs = i \<Longrightarrow> j = i + length ys \<Longrightarrow> subslice i j (xs @ ys @ zs) = ys"
  by (simp add: subslice_def)

lemma subslice_0 [simp]: "subslice 0 j xs = take j xs"
  by (simp add: subslice_def)

lemma subslice_all [simp]: "j = length xs \<Longrightarrow> subslice i j xs = drop i xs"
  by (simp add: subslice_def)

text \<open>\<open>copy(dst, src)\<close> overwrites a prefix of \<open>dst\<close> and never changes its length.\<close>

definition go_copy :: "'a list \<Rightarrow> 'a list \<Rightarrow> 'a list" where
  "go_copy dst src = take (length dst) src @ drop (length src) dst"

lemma length_go_copy [simp]: "length (go_copy dst src) = length dst"
  by (simp add: go_copy_def)

lemma go_copy_same_length [simp]: "length src = length dst \<Longrightarrow> go_copy dst src = src"
  by (simp add: go_copy_def)


section \<open>Big-endian encodings\<close>

text \<open>
  \<open>binary.BigEndian.PutUintN\<close> and \<open>UintN\<close>. The width \<open>n\<close> in bytes is given explicitly.
\<close>

definition put_be :: "nat \<Rightarrow> 'a::len word \<Rightarrow> bytes" where
  "put_be n w = map (\<lambda>i. ucast (drop_bit (8 * (n - Suc i)) w)) [0..<n]"

definition get_be :: "bytes \<Rightarrow> 'a::len word" where
  "get_be bs = foldl (\<lambda>acc b. push_bit 8 acc OR ucast b) 0 bs"

abbreviation PutUint16 :: "u16 \<Rightarrow> bytes" where "PutUint16 \<equiv> put_be 2"
abbreviation PutUint32 :: "u32 \<Rightarrow> bytes" where "PutUint32 \<equiv> put_be 4"
abbreviation PutUint64 :: "u64 \<Rightarrow> bytes" where "PutUint64 \<equiv> put_be 8"
abbreviation Uint16 :: "bytes \<Rightarrow> u16" where "Uint16 \<equiv> get_be"
abbreviation Uint32 :: "bytes \<Rightarrow> u32" where "Uint32 \<equiv> get_be"
abbreviation Uint64 :: "bytes \<Rightarrow> u64" where "Uint64 \<equiv> get_be"

lemma length_put_be [simp, be_simps]: "length (put_be n w) = n"
  by (simp add: put_be_def)

lemma nth_put_be: "i < n \<Longrightarrow> put_be n w ! i = ucast (drop_bit (8 * (n - Suc i)) w)"
  by (simp add: put_be_def)

lemma get_be_snoc: "get_be (bs @ [b]) = push_bit 8 (get_be bs) OR ucast b"
  by (simp add: get_be_def)

lemma bit_get_be:
  "bit (get_be bs :: 'a::len word) k \<longleftrightarrow>
     k < LENGTH('a) \<and> k div 8 < length bs \<and> bit (bs ! (length bs - Suc (k div 8))) (k mod 8)"
proof (induction bs arbitrary: k rule: rev_induct)
  case Nil
  show ?case by (simp add: get_be_def)
next
  case (snoc b bs)
  show ?case
  proof (cases "k < 8")
    case True
    then show ?thesis
      by (auto simp: get_be_snoc bit_or_iff bit_push_bit_iff bit_ucast_iff nth_append dest: bit_imp_le_length)
  next
    case False
    then have d: "k div 8 = Suc ((k - 8) div 8)" and m: "k mod 8 = (k - 8) mod 8"
      by (auto simp: le_div_geq le_mod_geq)
    have nb: "\<not> bit b k" using False by (auto dest: bit_imp_le_length)
    show ?thesis
      using False nb
      by (auto simp: get_be_snoc bit_or_iff bit_push_bit_iff bit_ucast_iff snoc.IH d m nth_append)
  qed
qed

lemma get_put_be [simp, be_simps]:
  assumes "LENGTH('a) \<le> 8 * n"
  shows "get_be (put_be n w) = (w :: 'a::len word)"
proof (rule bit_word_eqI)
  fix k assume k: "k < LENGTH('a)"
  then have "k div 8 < n" using assms by (simp add: less_mult_imp_div_less mult.commute)
  then have "bit (put_be n w ! (n - Suc (k div 8))) (k mod 8) = bit w k"
    by (simp add: nth_put_be bit_ucast_iff bit_drop_bit_eq Suc_diff_Suc)
  with \<open>k div 8 < n\<close> k show "bit (get_be (put_be n w) :: 'a word) k = bit w k"
    by (simp add: bit_get_be)
qed

lemma put_get_be [simp, be_simps]:
  assumes "length bs = n" and "8 * n \<le> LENGTH('a)"
  shows "put_be n (get_be bs :: 'a::len word) = bs"
proof (rule nth_equalityI)
  show "length (put_be n (get_be bs :: 'a word)) = length bs" using assms by simp
next
  fix i assume "i < length (put_be n (get_be bs :: 'a word))"
  then have i: "i < n" by simp
  show "put_be n (get_be bs :: 'a word) ! i = bs ! i"
  proof (rule bit_word_eqI)
    fix k assume k: "k < LENGTH(8)"
    then have k8: "k < 8" by simp
    let ?j = "8 * (n - Suc i) + k"
    have j: "?j < LENGTH('a)" "?j div 8 = n - Suc i" "?j mod 8 = k"
      using assms i k8 by auto
    have "n - Suc (n - Suc i) = i" using i by simp
    with j i k assms show "bit (put_be n (get_be bs :: 'a word) ! i) k = bit (bs ! i) k"
      by (simp add: nth_put_be bit_ucast_iff bit_drop_bit_eq bit_get_be)
  qed
qed

lemma put_be_inject:
  "LENGTH('a) \<le> 8 * n \<Longrightarrow> put_be n v = put_be n w \<longleftrightarrow> v = (w :: 'a::len word)"
  by (metis get_put_be)

text \<open>A length that fits its field survives the conversion to the field's width.\<close>

lemma unat_of_nat_id [simp]: "n < 2 ^ LENGTH('a) \<Longrightarrow> unat (of_nat n :: 'a::len word) = n"
  by (simp add: unat_of_nat take_bit_nat_eq_self)

section \<open>Strings and hexadecimal\<close>

text \<open>
  A Go string is a sequence of bytes, as is a \<^typ>\<open>string\<close>, whose characters are eight bits wide:
  \<open>[]byte(s)\<close> and \<open>string(b)\<close> only change the type.
\<close>

definition bytes_of :: "string \<Rightarrow> bytes" where
  "bytes_of s = map (\<lambda>c. of_nat (of_char c)) s"

definition string_of :: "bytes \<Rightarrow> string" where
  "string_of bs = map (\<lambda>b. char_of (unat b)) bs"

lemma unat_byte_less: "unat (b :: byte) < 256"
  by (rule order_less_le_trans [OF unsigned_less]) simp

lemma char_of_unat_of_char [simp]: "char_of (unat (of_nat (of_char c) :: byte)) = c"
  by (simp add: unat_of_nat take_bit_eq_mod)

lemma of_nat_char_of_byte [simp]: "of_nat (of_char (char_of (unat b)) :: nat) = (b :: byte)"
  using unat_byte_less [of b] by simp

lemma unat_byte_mod [simp]: "unat (b :: byte) mod 256 = unat b"
  using unat_byte_less [of b] by simp

lemma string_of_bytes_of [simp]: "string_of (bytes_of s) = s"
  by (simp add: string_of_def bytes_of_def comp_def)

lemma bytes_of_string_of [simp]: "bytes_of (string_of bs) = bs"
  by (simp add: string_of_def bytes_of_def comp_def)

lemma bytes_of_inject [simp]: "bytes_of s = bytes_of t \<longleftrightarrow> s = t"
  by (metis string_of_bytes_of)

lemma string_of_inject [simp]: "string_of a = string_of b \<longleftrightarrow> a = b"
  by (metis bytes_of_string_of)

lemma length_bytes_of [simp]: "length (bytes_of s) = length s"
  by (simp add: bytes_of_def)

lemma length_string_of [simp]: "length (string_of bs) = length bs"
  by (simp add: string_of_def)

definition hex_digit :: "nat \<Rightarrow> char" where
  "hex_digit n = ''0123456789abcdef'' ! n"

definition hex_byte :: "byte \<Rightarrow> string" where
  "hex_byte b = [hex_digit (unat b div 16), hex_digit (unat b mod 16)]"

text \<open>\<open>hex.EncodeToString\<close>.\<close>

definition EncodeToString :: "bytes \<Rightarrow> string" where
  "EncodeToString bs = concat (map hex_byte bs)"

text \<open>\<open>hex.DecodeString\<close>: an odd length or a character that is no hexadecimal digit is an error.\<close>

definition hex_val :: "char \<Rightarrow> nat option" where
  "hex_val c =
     (let n = of_char c :: nat in
      if 48 \<le> n \<and> n \<le> 57 then Some (n - 48)
      else if 97 \<le> n \<and> n \<le> 102 then Some (n - 87)
      else if 65 \<le> n \<and> n \<le> 70 then Some (n - 55)
      else None)"

fun DecodeString :: "string \<Rightarrow> bytes option" where
  "DecodeString [] = Some []"
| "DecodeString [c] = None"
| "DecodeString (c # d # s) =
     (case (hex_val c, hex_val d) of
        (Some h, Some l) \<Rightarrow> map_option (\<lambda>bs. of_nat (16 * h + l) # bs) (DecodeString s)
      | _ \<Rightarrow> None)"

lemma hex_digits_checked:
  "\<forall>n \<in> set [0..<16]. hex_val (hex_digit n) = Some n \<and> hex_digit n \<in> set ''0123456789abcdef''"
  by (simp add: upt_rec hex_digit_def hex_val_def)

lemma hex_val_digit [simp]: "n < 16 \<Longrightarrow> hex_val (hex_digit n) = Some n"
  using hex_digits_checked by simp

lemma hex_digit_alnum: "n < 16 \<Longrightarrow> hex_digit n \<in> set ''0123456789abcdef''"
  using hex_digits_checked by (simp del: set_simps)

lemma DecodeString_EncodeToString [simp]: "DecodeString (EncodeToString bs) = Some bs"
proof (induction bs)
  case Nil
  show ?case by (simp add: EncodeToString_def)
next
  case (Cons b bs)
  have "unat b < 256" by (rule unat_byte_less)
  then have "unat b div 16 < 16" "unat b mod 16 < 16" by auto
  moreover have "(of_nat (16 * (unat b div 16) + unat b mod 16) :: byte) = b"
    by (simp only: mult_div_mod_eq) simp
  ultimately show ?case
    using Cons.IH by (simp add: EncodeToString_def hex_byte_def)
qed

lemma EncodeToString_inject [simp]: "EncodeToString a = EncodeToString b \<longleftrightarrow> a = b"
  by (metis DecodeString_EncodeToString option.inject)

lemma length_EncodeToString [simp]: "length (EncodeToString bs) = 2 * length bs"
  by (induction bs) (simp_all add: EncodeToString_def hex_byte_def)

lemma set_EncodeToString: "set (EncodeToString bs) \<subseteq> set ''0123456789abcdef''"
proof (induction bs)
  case Nil
  show ?case by (simp add: EncodeToString_def)
next
  case (Cons b bs)
  have "unat b < 256" by (rule unat_byte_less)
  then have "set (hex_byte b) \<subseteq> set ''0123456789abcdef''"
    using hex_digit_alnum [of "unat b div 16"] hex_digit_alnum [of "unat b mod 16"]
    by (simp add: hex_byte_def)
  with Cons.IH show ?case by (simp add: EncodeToString_def)
qed

section \<open>Readers\<close>

text \<open>
  An \<open>io.Reader\<close> is the sequence of bytes it still delivers and what follows them: the end of the
  stream (\<^const>\<open>None\<close>) or a read error.
\<close>

datatype io_err = EOF | ErrUnexpectedEOF | IOErr string

record reader =
  rd_bytes :: bytes
  rd_fail :: "string option"

definition reader_of :: "bytes \<Rightarrow> reader" where
  "reader_of bs = \<lparr>rd_bytes = bs, rd_fail = None\<rparr>"

lemma reader_of_simps [simp]:
  "rd_bytes (reader_of bs) = bs" "rd_fail (reader_of bs) = None"
  by (simp_all add: reader_of_def)

text \<open>
  \<open>io.ReadFull(r, buf)\<close> with \<open>len(buf) = n\<close>: the bytes read, the error and the reader after it. An
  end of stream before the first byte is \<open>io.EOF\<close>, a later one \<open>io.ErrUnexpectedEOF\<close>.
\<close>

definition ReadFull :: "nat \<Rightarrow> reader \<Rightarrow> bytes \<times> io_err option \<times> reader" where
  "ReadFull n r =
     (if n \<le> length (rd_bytes r)
      then (take n (rd_bytes r), None, r\<lparr>rd_bytes := drop n (rd_bytes r)\<rparr>)
      else (rd_bytes r,
            Some (case rd_fail r of
                    Some e \<Rightarrow> IOErr e
                  | None \<Rightarrow> if rd_bytes r = [] then EOF else ErrUnexpectedEOF),
            r\<lparr>rd_bytes := []\<rparr>))"

text \<open>\<open>ReadByte\<close> of a \<open>bufio.Reader\<close>.\<close>

definition ReadByte :: "reader \<Rightarrow> (io_err + byte) \<times> reader" where
  "ReadByte r =
     (case rd_bytes r of
        b # bs \<Rightarrow> (Inr b, r\<lparr>rd_bytes := bs\<rparr>)
      | [] \<Rightarrow> (Inl (case rd_fail r of Some e \<Rightarrow> IOErr e | None \<Rightarrow> EOF), r))"

lemma ReadFull_enough [io_simps]:
  "length bs = n \<Longrightarrow> rd_bytes r = bs @ rest \<Longrightarrow> ReadFull n r = (bs, None, r\<lparr>rd_bytes := rest\<rparr>)"
  by (simp add: ReadFull_def)

lemma ReadFull_short:
  "length (rd_bytes r) < n \<Longrightarrow> \<exists>e. ReadFull n r = (rd_bytes r, Some e, r\<lparr>rd_bytes := []\<rparr>)"
  by (simp add: ReadFull_def)

lemma ReadByte_simps [io_simps]:
  "rd_bytes r = b # bs \<Longrightarrow> ReadByte r = (Inr b, r\<lparr>rd_bytes := bs\<rparr>)"
  "rd_bytes r = [] \<Longrightarrow> rd_fail r = None \<Longrightarrow> ReadByte r = (Inl EOF, r)"
  "rd_bytes r = [] \<Longrightarrow> rd_fail r = Some e \<Longrightarrow> ReadByte r = (Inl (IOErr e), r)"
  by (simp_all add: ReadByte_def)

section \<open>Writers\<close>

text \<open>
  An \<open>io.Writer\<close> is the bytes it received and how many more it accepts before its
  \<open>Write\<close> fails (\<^const>\<open>None\<close>: it never fails). A failing \<open>Write\<close> may have taken a prefix.
\<close>

record writer =
  wr_bytes :: bytes
  wr_room :: "nat option"

definition Write :: "writer \<Rightarrow> bytes \<Rightarrow> bool \<times> writer" where
  "Write w data =
     (case wr_room w of
        None \<Rightarrow> (True, w\<lparr>wr_bytes := wr_bytes w @ data\<rparr>)
      | Some k \<Rightarrow>
          if length data \<le> k
          then (True, w\<lparr>wr_bytes := wr_bytes w @ data, wr_room := Some (k - length data)\<rparr>)
          else (False, w\<lparr>wr_bytes := wr_bytes w @ take k data, wr_room := Some 0\<rparr>))"

lemma Write_None [io_simps]: "wr_room w = None \<Longrightarrow> Write w data = (True, w\<lparr>wr_bytes := wr_bytes w @ data\<rparr>)"
  by (simp add: Write_def)

section \<open>Blocks of a byte sequence\<close>

text \<open>
  The blocks of \<open>n\<close> bytes of a sequence, the last one possibly shorter: the reference for the
  chunker and for the signature of a file.
\<close>

function blocks :: "nat \<Rightarrow> 'a list \<Rightarrow> 'a list list" where
  "blocks n xs = (if n = 0 \<or> xs = [] then [] else take n xs # blocks n (drop n xs))"
  by pat_completeness auto
termination
  by (relation "measure (\<lambda>(n, xs). length xs)") auto

declare blocks.simps [simp del]

lemma blocks_Nil [simp]: "blocks n [] = []"
  by (simp add: blocks.simps)

lemma blocks_step: "0 < n \<Longrightarrow> xs \<noteq> [] \<Longrightarrow> blocks n xs = take n xs # blocks n (drop n xs)"
  by (simp add: blocks.simps [of n xs])

lemma concat_blocks [simp]: "0 < n \<Longrightarrow> concat (blocks n xs) = xs"
proof (induction n xs rule: blocks.induct)
  case (1 n xs)
  then show ?case by (cases "xs = []") (simp_all add: blocks_step)
qed

lemma blocks_bounds: "b \<in> set (blocks n xs) \<Longrightarrow> 0 < length b \<and> length b \<le> n"
proof (induction n xs rule: blocks.induct)
  case (1 n xs)
  then show ?case
    by (cases "n = 0 \<or> xs = []") (auto simp: blocks.simps [of n xs])
qed

lemma length_blocks_le: "length (blocks n xs) \<le> length xs"
proof (induction n xs rule: blocks.induct)
  case (1 n xs)
  then show ?case
    by (cases "n = 0 \<or> xs = []") (auto simp: blocks.simps [of n xs] Suc_le_eq intro: le_less_trans)
qed

lemma length_blocks: "0 < n \<Longrightarrow> length (blocks n xs) = (length xs + n - 1) div n"
proof (induction n xs rule: blocks.induct)
  case (1 n xs)
  show ?case
  proof (cases "xs = []")
    case True
    then show ?thesis using 1(2) by simp
  next
    case False
    show ?thesis
    proof (cases "length xs \<le> n")
      case True
      have "0 < length xs" using False by simp
      then have "(length xs + n - 1) div n = 1"
        using True by (intro div_nat_eqI) (simp_all del: length_greater_0_conv)
      then show ?thesis using True False 1(2) by (simp add: blocks_step)
    next
      case gt: False
      then have "length xs + n - 1 = (length (drop n xs) + n - 1) + n"
        using 1(2) by simp
      then have "(length xs + n - 1) div n = Suc ((length (drop n xs) + n - 1) div n)"
        using 1(2) by (simp only: div_add_self2)
      then show ?thesis using 1 False by (simp add: blocks_step)
    qed
  qed
qed

lemma blocks_full_but_last: "i + 1 < length (blocks n xs) \<Longrightarrow> length (blocks n xs ! i) = n"
proof (induction n xs arbitrary: i rule: blocks.induct)
  case (1 n xs)
  show ?case
  proof (cases "n = 0 \<or> xs = []")
    case True
    then show ?thesis using 1(2) by (auto simp: blocks.simps [of n xs])
  next
    case False
    show ?thesis
    proof (cases i)
      case 0
      then have "drop n xs \<noteq> []" using 1(2) False by (auto simp: blocks_step)
      then show ?thesis using 0 False by (simp add: blocks_step)
    next
      case (Suc j)
      then show ?thesis using 1 False by (simp add: blocks_step)
    qed
  qed
qed

end
