(* ===== verification/Sha256.thy ===== *)
theory Sha256
  imports Prelude
begin

text \<open>
  SHA-256 (FIPS 180-4), the digest that \<open>crypto/sha256\<close> computes, as an executable function on byte
  sequences, and the interface \<open>hash32\<close> through which every other component sees it. The
  components take the digest function as an argument \<open>H\<close>: their lemmas hold for every function with
  32-byte results, and the interpretation at the end of this theory discharges the interface for
  SHA-256 itself.
\<close>

section \<open>The digest\<close>

definition rotr32 :: "nat \<Rightarrow> u32 \<Rightarrow> u32" where
  "rotr32 n w = drop_bit n w OR push_bit (32 - n) w"

text \<open>
  The round constants, as the standard derives them: the first 32 bits of the fractional parts of the
  cube roots of the first 64 primes. \<open>iroot k n b acc\<close> sets the bits below \<open>b\<close> of the integer
  \<open>k\<close>-th root of \<open>n\<close>.
\<close>

fun iroot :: "nat \<Rightarrow> int \<Rightarrow> nat \<Rightarrow> int \<Rightarrow> int" where
  "iroot k n 0 acc = acc"
| "iroot k n (Suc b) acc = (let c = acc + 2 ^ b in iroot k n b (if c ^ k \<le> n then c else acc))"

definition sha_primes :: "nat list" where
  "sha_primes = filter (\<lambda>n. \<forall>d \<in> set [2..<n]. n mod d \<noteq> 0) [2..<312]"

definition sha_K :: "u32 list" where
  "sha_K = map (\<lambda>p. of_int (iroot 3 (int p * 2 ^ 96) 36 0)) sha_primes"

definition sha_IV :: "u32 list" where
  "sha_IV =
     [0x6a09e667, 0xbb67ae85, 0x3c6ef372, 0xa54ff53a,
      0x510e527f, 0x9b05688c, 0x1f83d9ab, 0x5be0cd19]"

text \<open>Padding: a one bit, zeros up to 56 modulo 64, the length in bits on 8 bytes.\<close>

definition sha_pad :: "bytes \<Rightarrow> bytes" where
  "sha_pad m =
     m @ 0x80 # replicate ((119 - length m mod 64) mod 64) 0 @ put_be 8 (of_nat (8 * length m) :: u64)"

text \<open>The message schedule, newest word first.\<close>

fun sha_extend :: "nat \<Rightarrow> u32 list \<Rightarrow> u32 list" where
  "sha_extend 0 ws = ws"
| "sha_extend (Suc n) ws =
     (let w2 = ws ! 1; w7 = ws ! 6; w15 = ws ! 14; w16 = ws ! 15;
          s0 = rotr32 7 w15 XOR rotr32 18 w15 XOR drop_bit 3 w15;
          s1 = rotr32 17 w2 XOR rotr32 19 w2 XOR drop_bit 10 w2
      in sha_extend n ((w16 + s0 + w7 + s1) # ws))"

definition sha_schedule :: "bytes \<Rightarrow> u32 list" where
  "sha_schedule block = rev (sha_extend 48 (rev (map get_be (blocks 4 block))))"

fun sha_round :: "u32 list \<Rightarrow> u32 \<times> u32 \<Rightarrow> u32 list" where
  "sha_round [a, b, c, d, e, f, g, h] (k, w) =
     (let S1 = rotr32 6 e XOR rotr32 11 e XOR rotr32 25 e;
          ch = (e AND f) XOR (NOT e AND g);
          t1 = h + S1 + ch + k + w;
          S0 = rotr32 2 a XOR rotr32 13 a XOR rotr32 22 a;
          maj = (a AND b) XOR (a AND c) XOR (b AND c);
          t2 = S0 + maj
      in [t1 + t2, a, b, c, d + t1, e, f, g])"
| "sha_round st _ = st"

definition sha_compress :: "u32 list \<Rightarrow> bytes \<Rightarrow> u32 list" where
  "sha_compress st block =
     map2 (+) st (foldl sha_round st (zip sha_K (sha_schedule block)))"

definition sha256 :: "bytes \<Rightarrow> bytes" where
  "sha256 m = concat (map (put_be 4) (foldl sha_compress sha_IV (blocks 64 (sha_pad m))))"

section \<open>The interface\<close>

text \<open>
  What the components rely on: a digest is 32 bytes long. Freedom from collisions is false of any
  such function on all inputs; the theorems that need it assume it of the inputs at hand
  (\<open>collision_free\<close>).
\<close>

definition collision_free :: "(bytes \<Rightarrow> bytes) \<Rightarrow> bytes set \<Rightarrow> bool" where
  "collision_free H S \<longleftrightarrow> inj_on H S"

lemma collision_freeD:
  "collision_free H S \<Longrightarrow> x \<in> S \<Longrightarrow> y \<in> S \<Longrightarrow> H x = H y \<Longrightarrow> x = y"
  by (simp add: collision_free_def inj_on_eq_iff)

lemma collision_free_mono: "collision_free H T \<Longrightarrow> S \<subseteq> T \<Longrightarrow> collision_free H S"
  by (simp add: collision_free_def inj_on_subset)

locale hash32 =
  fixes H :: "bytes \<Rightarrow> bytes"
  assumes length_H [simp]: "length (H x) = 32"
begin

lemma concat_digests_length [simp]: "length (concat (map H xs)) = 32 * length xs"
  by (induction xs) simp_all

lemma concat_digests_inject:
  "length hs = length ks \<Longrightarrow> (\<forall>h \<in> set hs \<union> set ks. length h = 32) \<Longrightarrow>
    concat hs = concat ks \<longleftrightarrow> hs = ks"
  by (induction hs ks rule: list_induct2) auto

end

text \<open>
  A concrete function with 32-byte results that has no collisions on inputs shorter than 32 bytes:
  the length of the input, the input, and zeros. It instantiates the digest where a closed
  instance of a theorem is to be evaluated.
\<close>

definition pad_hash :: "bytes \<Rightarrow> bytes" where
  "pad_hash x = take 32 (of_nat (length x) # x @ replicate 32 0)"

lemma length_pad_hash [simp]: "length (pad_hash x) = 32"
  by (simp add: pad_hash_def)

lemma pad_hash_inject:
  assumes "length x < 32" "length y < 32" "pad_hash x = pad_hash y"
  shows "x = y"
proof -
  have hd: "hd (pad_hash z) = of_nat (length z)" "take (length z) (tl (pad_hash z)) = z"
    if "length z < 32" for z
    using that by (simp_all add: pad_hash_def take_Cons' min_def)
  have "(of_nat (length x) :: byte) = of_nat (length y)" using assms hd(1) by metis
  then have "unat (of_nat (length x) :: byte) = unat (of_nat (length y) :: byte)" by simp
  then have l: "length x = length y" using assms(1,2) by simp
  then show ?thesis using assms hd(2) by metis
qed

lemma collision_free_pad_hash: "(\<And>x. x \<in> S \<Longrightarrow> length x < 32) \<Longrightarrow> collision_free pad_hash S"
  by (auto simp: collision_free_def inj_on_def intro: pad_hash_inject)

lemma length_sha_round [simp]: "length (sha_round st kw) = length st"
  by (induction st kw rule: sha_round.induct) (simp_all add: Let_def)

lemma length_foldl_sha_round [simp]: "length (foldl sha_round st kws) = length st"
  by (induction kws arbitrary: st) simp_all

lemma length_sha_compress [simp]: "length (sha_compress st block) = length st"
  by (simp add: sha_compress_def)

lemma length_foldl_sha_compress [simp]: "length (foldl sha_compress st bs) = length st"
  by (induction bs arbitrary: st) simp_all

lemma length_concat_put_be [simp]: "length (concat (map (put_be n) ws)) = n * length ws"
  by (induction ws) simp_all

lemma length_sha256 [simp]: "length (sha256 m) = 32"
  by (simp add: sha256_def sha_IV_def)

interpretation sha: hash32 sha256
  by unfold_locales simp

end
