(* ===== verification/Rolling.thy ===== *)
theory Rolling
  imports Sha256
begin

text \<open>
  \<open>internal/delta/rolling.go\<close>: the rolling hash over a circular buffer, the signature of a file
  (one weak and one strong hash per block, indexed by the weak hash) and the wire format of
  signatures. The circular buffer is related to the byte sequence it holds (\<open>rh_contents\<close>) by the
  invariant \<open>rh_inv\<close>; the hash of a window is Adler-32 of its contents.
\<close>

section \<open>Constants and the rolling hash state\<close>

definition DefaultBlockSize :: int where "DefaultBlockSize = 4 * 1024"
definition RollingHashMod :: u32 where "RollingHashMod = 65521"
definition MaxBlockSize :: int where "MaxBlockSize = 64 * 1024"

record RollingHash =
  rh_a :: u32
  rh_b :: u32
  rh_window :: bytes
  rh_size :: int
  rh_pos :: int
  rh_count :: int
  rh_blockSize :: int

definition rh_Reset :: "RollingHash \<Rightarrow> int \<Rightarrow> RollingHash" where
  "rh_Reset rh blockSize =
     rh\<lparr>rh_a := 1, rh_b := 0, rh_pos := 0, rh_count := 0, rh_blockSize := blockSize,
        rh_size := int (length (rh_window rh)),
        rh_window := replicate (length (rh_window rh)) 0\<rparr>"

text \<open>
  \<open>rollingHashPool.Get()\<close> returns a hash released earlier, in any state: \<open>pooled\<close> is that hash, and
  \<open>backing\<close> the array behind its window, whose length is the capacity of the window.
\<close>

definition NewRollingHash :: "RollingHash \<Rightarrow> bytes \<Rightarrow> int \<Rightarrow> RollingHash" where
  "NewRollingHash pooled backing blockSize =
     (let bs = (if blockSize \<le> 0 then DefaultBlockSize else blockSize);
          bs = (if bs > MaxBlockSize then MaxBlockSize else bs);
          win = (if int (length backing) < bs then replicate (nat bs) 0 else take (nat bs) backing)
      in rh_Reset (pooled\<lparr>rh_window := win\<rparr>) bs)"

section \<open>Operations of the rolling hash\<close>

text \<open>The loop of \<open>recompute\<close>: \<open>n\<close> bytes are left, \<open>i\<close> is the loop counter.\<close>

fun recompute_loop :: "bytes \<Rightarrow> int \<Rightarrow> int \<Rightarrow> nat \<Rightarrow> int \<Rightarrow> u32 \<Rightarrow> u32 \<Rightarrow> (u32 \<times> u32) res" where
  "recompute_loop win sz startPos 0 i a b = Inr (a, b)"
| "recompute_loop win sz startPos (Suc n) i a b =
     bind_r (go_mod (startPos + i) sz) (\<lambda>idx.
     bind_r (go_index win idx) (\<lambda>c.
       let a' = (a + ucast c) mod RollingHashMod; b' = (b + a') mod RollingHashMod
       in recompute_loop win sz startPos n (i + 1) a' b'))"

definition rh_recompute :: "RollingHash \<Rightarrow> RollingHash res" where
  "rh_recompute rh =
     bind_r (go_mod (rh_pos rh - rh_count rh + rh_size rh) (rh_size rh)) (\<lambda>startPos.
     bind_r (recompute_loop (rh_window rh) (rh_size rh) startPos (nat (rh_count rh)) 0 1 0) (\<lambda>(a, b).
       Inr (rh\<lparr>rh_a := a, rh_b := b\<rparr>)))"

definition rh_RollIn :: "RollingHash \<Rightarrow> byte \<Rightarrow> (RollingHash \<times> bool) res" where
  "rh_RollIn rh b =
     (if rh_count rh < rh_blockSize rh
      then bind_r (go_update (rh_window rh) (rh_pos rh) b) (\<lambda>win.
           bind_r (go_mod (rh_pos rh + 1) (rh_size rh)) (\<lambda>pos.
           bind_r (rh_recompute (rh\<lparr>rh_window := win, rh_pos := pos, rh_count := rh_count rh + 1\<rparr>))
             (\<lambda>rh'. Inr (rh', rh_count rh' = rh_blockSize rh'))))
      else Inr (rh, True))"

definition rh_Roll :: "RollingHash \<Rightarrow> byte \<Rightarrow> RollingHash res" where
  "rh_Roll rh newByte =
     bind_r (go_update (rh_window rh) (rh_pos rh) newByte) (\<lambda>win.
     bind_r (go_mod (rh_pos rh + 1) (rh_size rh)) (\<lambda>pos.
       rh_recompute (rh\<lparr>rh_window := win, rh_pos := pos\<rparr>)))"

definition rh_Sum :: "RollingHash \<Rightarrow> u32" where
  "rh_Sum rh = push_bit 16 (rh_b rh) OR rh_a rh"

definition rh_Window :: "RollingHash \<Rightarrow> bytes res" where
  "rh_Window rh =
     bind_r (go_make (rh_blockSize rh) 0) (\<lambda>result.
     bind_r (go_mod (rh_pos rh - rh_count rh + rh_size rh) (rh_size rh)) (\<lambda>startPos.
       if startPos + rh_count rh \<le> rh_size rh
       then bind_r (go_slice startPos (startPos + rh_count rh) (rh_window rh)) (\<lambda>src.
              Inr (go_copy result src))
       else let firstPart = rh_size rh - startPos in
            bind_r (go_slice 0 firstPart result) (\<lambda>dst1.
            bind_r (go_slice startPos (int (length (rh_window rh))) (rh_window rh)) (\<lambda>src1.
            bind_r (go_slice firstPart (int (length result)) result) (\<lambda>dst2.
            bind_r (go_slice 0 (rh_count rh - firstPart) (rh_window rh)) (\<lambda>src2.
              Inr (go_copy dst1 src1 @ go_copy dst2 src2)))))))"

definition rh_IsFull :: "RollingHash \<Rightarrow> bool" where
  "rh_IsFull rh \<longleftrightarrow> rh_count rh \<ge> rh_blockSize rh"

section \<open>Signatures\<close>

record BlockSignature =
  bs_Index :: u32
  bs_WeakHash :: u32
  bs_StrongHash :: bytes

text \<open>\<open>weakIndex\<close> maps a weak hash to the positions in \<open>Blocks\<close> that have it.\<close>

record Signature =
  sg_BlockSize :: int
  sg_FileSize :: int
  sg_Blocks :: "BlockSignature list"
  sg_weakIndex :: "u32 \<rightharpoonup> nat list"

text \<open>
  \<open>make([]BlockSignature, 0, numBlocks)\<close> panics when the capacity is negative or when its 40-byte
  elements exceed the address space of the runtime (48 bits).
\<close>

definition NewSignature :: "int \<Rightarrow> int \<Rightarrow> Signature res" where
  "NewSignature blockSize fileSize =
     bind_r (go_div (int64 (int64 (fileSize + blockSize) - 1)) blockSize) (\<lambda>numBlocks.
       if numBlocks < 0 \<or> 40 * numBlocks > 2 ^ 48 then Inl (Panic ''makeslice: cap out of range'')
       else Inr \<lparr>sg_BlockSize = blockSize, sg_FileSize = fileSize, sg_Blocks = [],
                 sg_weakIndex = Map.empty\<rparr>)"

definition AddBlock :: "Signature \<Rightarrow> u32 \<Rightarrow> u32 \<Rightarrow> bytes \<Rightarrow> Signature" where
  "AddBlock s index weakHash strongHash =
     (let idx = length (sg_Blocks s);
          old = (case sg_weakIndex s weakHash of None \<Rightarrow> [] | Some is \<Rightarrow> is)
      in s\<lparr>sg_Blocks := sg_Blocks s @
              [\<lparr>bs_Index = index, bs_WeakHash = weakHash, bs_StrongHash = strongHash\<rparr>],
           sg_weakIndex := (sg_weakIndex s)(weakHash \<mapsto> old @ [idx])\<rparr>)"

definition FindByWeakHash :: "Signature \<Rightarrow> u32 \<Rightarrow> nat list" where
  "FindByWeakHash s weakHash = (case sg_weakIndex s weakHash of None \<Rightarrow> [] | Some is \<Rightarrow> is)"

definition GetBlock :: "Signature \<Rightarrow> int \<Rightarrow> BlockSignature option" where
  "GetBlock s idx =
     (if idx < 0 \<or> idx \<ge> int (length (sg_Blocks s)) then None else Some (sg_Blocks s ! nat idx))"

text \<open>The weak hash loop of \<open>ComputeBlockSignature\<close>.\<close>

definition adler_step :: "u32 \<times> u32 \<Rightarrow> byte \<Rightarrow> u32 \<times> u32" where
  "adler_step ab c =
     (let a = (fst ab + ucast c) mod RollingHashMod; b = (snd ab + a) mod RollingHashMod in (a, b))"

definition weak_hash :: "bytes \<Rightarrow> u32" where
  "weak_hash data = (let (a, b) = foldl adler_step (1, 0) data in push_bit 16 b OR a)"

definition ComputeBlockSignature :: "(bytes \<Rightarrow> bytes) \<Rightarrow> bytes \<Rightarrow> u32 \<times> bytes" where
  "ComputeBlockSignature H data = (weak_hash data, H data)"

section \<open>The wire format of signatures\<close>

definition encode_block :: "BlockSignature \<Rightarrow> bytes" where
  "encode_block b =
     PutUint32 (bs_Index b) @ PutUint32 (bs_WeakHash b) @ go_copy (replicate 32 0) (bs_StrongHash b)"

definition EncodeSignature :: "Signature \<Rightarrow> bytes" where
  "EncodeSignature s =
     PutUint32 (word_of_int (sg_BlockSize s)) @ PutUint64 (u64_of (sg_FileSize s)) @
     PutUint32 (of_nat (length (sg_Blocks s))) @ concat (map encode_block (sg_Blocks s))"

text \<open>The loop of \<open>DecodeSignature\<close>: \<open>n\<close> blocks are announced and not yet read.\<close>

fun decode_blocks :: "nat \<Rightarrow> bytes \<Rightarrow> nat \<Rightarrow> Signature \<Rightarrow> Signature" where
  "decode_blocks 0 data offset sig = sig"
| "decode_blocks (Suc n) data offset sig =
     (if offset + 40 \<le> length data
      then decode_blocks n data (offset + 40)
             (AddBlock sig (Uint32 (subslice offset (offset + 4) data))
                (Uint32 (subslice (offset + 4) (offset + 8) data))
                (subslice (offset + 8) (offset + 40) data))
      else sig)"

text \<open>A result of \<open>None\<close> is the pair \<open>(nil, nil)\<close> that the code returns for a short input.\<close>

definition DecodeSignature :: "bytes \<Rightarrow> Signature option res" where
  "DecodeSignature data =
     (if length data < 16 then Inr None
      else let blockSize = uint (Uint32 (subslice 0 4 data));
               fileSize = int64_of (Uint64 (subslice 4 12 data));
               numBlocks = unat (Uint32 (subslice 12 16 data))
           in bind_r (NewSignature blockSize fileSize) (\<lambda>sig.
                Inr (Some (decode_blocks numBlocks data 16 sig))))"

section \<open>The circular buffer holds a byte sequence\<close>

definition rh_contents :: "RollingHash \<Rightarrow> bytes" where
  "rh_contents rh =
     (if rh_count rh < rh_size rh then take (nat (rh_count rh)) (rh_window rh)
      else drop (nat (rh_pos rh)) (rh_window rh) @ take (nat (rh_pos rh)) (rh_window rh))"

text \<open>The shape of a buffer for blocks of \<open>n\<close> bytes; the invariant adds the hash components.\<close>

definition rh_shape :: "nat \<Rightarrow> RollingHash \<Rightarrow> bool" where
  "rh_shape n rh \<longleftrightarrow>
     0 < n \<and> rh_size rh = int n \<and> rh_blockSize rh = int n \<and> length (rh_window rh) = n \<and>
     0 \<le> rh_pos rh \<and> rh_pos rh < int n \<and> 0 \<le> rh_count rh \<and> rh_count rh \<le> int n \<and>
     (rh_count rh < int n \<longrightarrow> rh_pos rh = rh_count rh)"

definition rh_inv :: "nat \<Rightarrow> RollingHash \<Rightarrow> bool" where
  "rh_inv n rh \<longleftrightarrow>
     rh_shape n rh \<and> (rh_a rh, rh_b rh) = foldl adler_step (1, 0) (rh_contents rh)"

lemma length_rh_contents: "rh_shape n rh \<Longrightarrow> length (rh_contents rh) = nat (rh_count rh)"
  by (auto simp: rh_shape_def rh_contents_def)

lemma recompute_loop_eq:
  assumes "0 < length win"
  shows "recompute_loop win (int (length win)) (int sp) n (int i) a b =
    Inr (foldl adler_step (a, b) (map (\<lambda>k. win ! ((sp + k) mod length win)) [i..<i + n]))"
proof (induction n arbitrary: i a b)
  case 0
  show ?case by simp
next
  case (Suc n)
  have idx: "go_mod (int sp + int i) (int (length win)) = Inr (int ((sp + i) mod length win))"
    using assms by (simp add: zmod_int)
  have "(sp + i) mod length win < length win" using assms by simp
  moreover have "[i..<i + Suc n] = i # [Suc i..<Suc i + n]" by (simp add: upt_rec)
  moreover have "recompute_loop win (int (length win)) (int sp) n (int i + 1) a b =
      Inr (foldl adler_step (a, b) (map (\<lambda>k. win ! ((sp + k) mod length win)) [Suc i..<Suc i + n]))"
    for a b using Suc.IH [of "Suc i"] by (simp add: add.commute)
  ultimately show ?case
    by (simp add: idx Let_def adler_step_def [of "(a, b)"] del: upt_Suc)
qed

lemma rotate_as_map:
  "xs \<noteq> [] \<Longrightarrow> map (\<lambda>k. xs ! ((p + k) mod length xs)) [0..<length xs] = rotate p xs"
  by (rule nth_equalityI) (simp_all add: nth_rotate)

lemma rh_recompute_inv:
  assumes "rh_shape n rh"
  shows "\<exists>rh'. rh_recompute rh = Inr rh' \<and> rh_inv n rh' \<and> rh_contents rh' = rh_contents rh \<and>
    rh_count rh' = rh_count rh"
proof -
  from assms have n: "0 < n" "length (rh_window rh) = n" "rh_size rh = int n" and
    bnd: "0 \<le> rh_pos rh" "rh_pos rh < int n" "0 \<le> rh_count rh" "rh_count rh \<le> int n"
    by (auto simp: rh_shape_def)
  define sp where "sp = (if rh_count rh < int n then 0 else nat (rh_pos rh))"
  have start: "go_mod (rh_pos rh - rh_count rh + rh_size rh) (rh_size rh) = Inr (int sp)"
    using assms n bnd by (auto simp: rh_shape_def sp_def)
  have cont: "map (\<lambda>k. rh_window rh ! ((sp + k) mod length (rh_window rh))) [0..<nat (rh_count rh)]
      = rh_contents rh"
  proof (cases "rh_count rh < int n")
    case True
    then have "nat (rh_count rh) < n" using bnd by simp
    with True show ?thesis
      using n by (auto simp: sp_def rh_contents_def intro!: nth_equalityI)
  next
    case False
    then have "nat (rh_count rh) = length (rh_window rh)" using bnd n by simp
    moreover have "rh_window rh \<noteq> []" using n by auto
    ultimately show ?thesis
      using False n bnd rotate_as_map [of "rh_window rh" sp]
      by (auto simp: sp_def rh_contents_def rotate_drop_take)
  qed
  obtain a b where ab: "foldl adler_step (1, 0) (rh_contents rh) = (a, b)"
    by (cases "foldl adler_step (1, 0) (rh_contents rh)")
  have "recompute_loop (rh_window rh) (rh_size rh) (int sp) (nat (rh_count rh)) 0 1 0 = Inr (a, b)"
    using recompute_loop_eq [of "rh_window rh" sp "nat (rh_count rh)" 0 1 0] n cont ab by simp
  then have "rh_recompute rh = Inr (rh\<lparr>rh_a := a, rh_b := b\<rparr>)"
    by (simp add: rh_recompute_def start)
  then show ?thesis
    using assms ab by (auto simp: rh_inv_def rh_shape_def rh_contents_def)
qed

lemma take_update_snoc:
  "i < length xs \<Longrightarrow> take (Suc i) (xs[i := x]) = take i xs @ [x]"
  by (simp add: take_Suc_conv_app_nth)

lemma rh_RollIn_inv:
  assumes "rh_inv n rh" and "rh_count rh < int n"
  shows "\<exists>rh'. rh_RollIn rh b = Inr (rh', rh_count rh' = int n) \<and> rh_inv n rh' \<and>
    rh_contents rh' = rh_contents rh @ [b] \<and> rh_count rh' = rh_count rh + 1"
proof -
  let ?c = "nat (rh_count rh)"
  let ?rh = "rh\<lparr>rh_window := (rh_window rh)[?c := b], rh_pos := (rh_pos rh + 1) mod int n,
                rh_count := rh_count rh + 1\<rparr>"
  from assms have s: "rh_shape n rh" by (simp add: rh_inv_def)
  then have c: "rh_pos rh = rh_count rh" "0 \<le> rh_count rh" "?c < n" "length (rh_window rh) = n"
      "0 < n" "rh_size rh = int n" "rh_blockSize rh = int n"
    using assms(2) by (auto simp: rh_shape_def)
  have shape: "rh_shape n ?rh"
    using s c assms(2) by (auto simp: rh_shape_def)
  have cont: "rh_contents ?rh = rh_contents rh @ [b]"
  proof (cases "rh_count rh + 1 < int n")
    case True
    then show ?thesis
      using c assms(2) by (simp add: rh_contents_def nat_add_distrib take_Suc_conv_app_nth)
  next
    case False
    then have e: "rh_count rh + 1 = int n" using assms(2) by simp
    then have "n = Suc ?c" using c by simp
    then have "(rh_window rh)[?c := b] = take ?c (rh_window rh) @ [b]"
      using c take_update_snoc [of ?c "rh_window rh" b] by simp
    with e show ?thesis
      using c assms(2) by (simp add: rh_contents_def)
  qed
  have upd: "go_update (rh_window rh) (rh_pos rh) b = Inr ((rh_window rh)[?c := b])"
    using c by (simp add: go_update_def)
  have md: "go_mod (rh_pos rh + 1) (rh_size rh) = Inr ((rh_pos rh + 1) mod int n)"
    using c by simp
  from rh_recompute_inv [OF shape] obtain rh' where
    "rh_recompute ?rh = Inr rh'" "rh_inv n rh'" "rh_contents rh' = rh_contents ?rh"
    "rh_count rh' = rh_count rh + 1" by auto
  moreover from \<open>rh_inv n rh'\<close> have "rh_blockSize rh' = int n"
    by (simp add: rh_inv_def rh_shape_def)
  ultimately show ?thesis
    using cont upd md c assms(2) by (simp add: rh_RollIn_def)
qed

lemma rh_Roll_inv:
  assumes "rh_inv n rh" and "rh_count rh = int n"
  shows "\<exists>rh'. rh_Roll rh b = Inr rh' \<and> rh_inv n rh' \<and>
    rh_contents rh' = tl (rh_contents rh) @ [b] \<and> rh_count rh' = int n"
proof -
  let ?p = "nat (rh_pos rh)"
  let ?rh = "rh\<lparr>rh_window := (rh_window rh)[?p := b], rh_pos := (rh_pos rh + 1) mod int n\<rparr>"
  from assms have s: "rh_shape n rh" by (simp add: rh_inv_def)
  then have c: "0 \<le> rh_pos rh" "rh_pos rh < int n" "?p < n" "length (rh_window rh) = n" "0 < n"
      "rh_size rh = int n"
    using assms(2) by (auto simp: rh_shape_def)
  have shape: "rh_shape n ?rh"
    using s c assms(2) by (auto simp: rh_shape_def)
  have tl_old: "tl (rh_contents rh) = drop (Suc ?p) (rh_window rh) @ take ?p (rh_window rh)"
    using c assms(2) by (simp add: rh_contents_def drop_Suc tl_drop)
  have cont: "rh_contents ?rh = tl (rh_contents rh) @ [b]"
  proof (cases "rh_pos rh + 1 < int n")
    case True
    then have "nat ((rh_pos rh + 1) mod int n) = Suc ?p" using c by simp
    then show ?thesis
      using c assms(2) tl_old by (simp add: rh_contents_def take_Suc_conv_app_nth)
  next
    case False
    then have e: "rh_pos rh + 1 = int n" using c by simp
    then have "n = Suc ?p" using c by simp
    then have "(rh_window rh)[?p := b] = take ?p (rh_window rh) @ [b]"
      using c take_update_snoc [of ?p "rh_window rh" b] by simp
    moreover have "(rh_pos rh + 1) mod int n = 0" using e by simp
    ultimately show ?thesis
      using \<open>n = Suc ?p\<close> c assms(2) tl_old by (simp add: rh_contents_def)
  qed
  have upd: "go_update (rh_window rh) (rh_pos rh) b = Inr ((rh_window rh)[?p := b])"
    using c by (simp add: go_update_def)
  have md: "go_mod (rh_pos rh + 1) (rh_size rh) = Inr ((rh_pos rh + 1) mod int n)"
    using c by simp
  from rh_recompute_inv [OF shape] cont upd md assms(2) show ?thesis
    by (auto simp: rh_Roll_def)
qed

lemma rh_Window_inv:
  assumes "rh_inv n rh"
  shows "rh_Window rh = Inr (rh_contents rh @ replicate (n - length (rh_contents rh)) 0)"
proof -
  from assms have s: "rh_shape n rh" by (simp add: rh_inv_def)
  then have c: "0 \<le> rh_pos rh" "rh_pos rh < int n" "length (rh_window rh) = n" "0 < n"
      "rh_size rh = int n" "rh_blockSize rh = int n" "0 \<le> rh_count rh" "rh_count rh \<le> int n"
    by (auto simp: rh_shape_def)
  show ?thesis
  proof (cases "rh_count rh < int n")
    case True
    then have "rh_pos rh = rh_count rh" using s by (simp add: rh_shape_def)
    with True c show ?thesis
      by (simp add: rh_Window_def go_slice_def rh_contents_def go_copy_def)
  next
    case False
    then have full: "rh_count rh = int n" using c by simp
    show ?thesis
    proof (cases "rh_pos rh = 0")
      case True
      then show ?thesis
        using c full by (simp add: rh_Window_def go_slice_def rh_contents_def go_copy_def)
    next
      case pos: False
      have "length (rh_contents rh) = n" using length_rh_contents [OF s] full by simp
      then show ?thesis
        using pos c full
        by (simp add: rh_Window_def go_slice_def rh_contents_def go_copy_def Let_def subslice_def
            nat_diff_distrib)
    qed
  qed
qed

lemma rh_Sum_inv: "rh_inv n rh \<Longrightarrow> rh_Sum rh = weak_hash (rh_contents rh)"
  by (auto simp: rh_inv_def rh_Sum_def weak_hash_def split: prod.splits)

lemma rh_Reset_inv:
  "0 < n \<Longrightarrow> length (rh_window rh) = n \<Longrightarrow>
    rh_inv n (rh_Reset rh (int n)) \<and> rh_contents (rh_Reset rh (int n)) = []"
  by (simp add: rh_inv_def rh_shape_def rh_Reset_def rh_contents_def)

lemma NewRollingHash_inv:
  assumes "0 < n" and "n \<le> 65536"
  shows "rh_inv n (NewRollingHash pooled backing (int n)) \<and>
    rh_contents (NewRollingHash pooled backing (int n)) = []"
proof -
  let ?win = "if int (length backing) < int n then replicate n 0 else take n backing"
  have "NewRollingHash pooled backing (int n) = rh_Reset (pooled\<lparr>rh_window := ?win\<rparr>) (int n)"
    using assms by (simp add: NewRollingHash_def MaxBlockSize_def)
  moreover have "length ?win = n" by simp
  ultimately show ?thesis
    using rh_Reset_inv [of n "pooled\<lparr>rh_window := ?win\<rparr>"] assms(1) by simp
qed

section \<open>The window interface\<close>

text \<open>
  What a user of the rolling hash relies on: a window of at most \<open>cap\<close> bytes that can be filled byte
  by byte, slid by one byte, reset, read out, and whose digest is a function of its contents.
\<close>

locale byte_window =
  fixes cap :: nat
    and reset :: "'r \<Rightarrow> 'r"
    and push :: "'r \<Rightarrow> byte \<Rightarrow> ('r \<times> bool) res"
    and slide :: "'r \<Rightarrow> byte \<Rightarrow> 'r res"
    and full :: "'r \<Rightarrow> bool"
    and digest :: "'r \<Rightarrow> u32"
    and window :: "'r \<Rightarrow> bytes res"
    and hash :: "bytes \<Rightarrow> u32"
    and contents :: "'r \<Rightarrow> bytes"
    and inv :: "'r \<Rightarrow> bool"
  assumes cap_pos: "inv r \<Longrightarrow> 0 < cap"
    and contents_bound: "inv r \<Longrightarrow> length (contents r) \<le> cap"
    and reset_law: "inv r \<Longrightarrow> inv (reset r) \<and> contents (reset r) = []"
    and push_law: "inv r \<Longrightarrow> length (contents r) < cap \<Longrightarrow>
      \<exists>r'. push r b = Inr (r', length (contents r') = cap) \<and> inv r' \<and> contents r' = contents r @ [b]"
    and slide_law: "inv r \<Longrightarrow> length (contents r) = cap \<Longrightarrow>
      \<exists>r'. slide r b = Inr r' \<and> inv r' \<and> contents r' = tl (contents r) @ [b]"
    and full_law: "inv r \<Longrightarrow> full r \<longleftrightarrow> length (contents r) = cap"
    and digest_law: "inv r \<Longrightarrow> digest r = hash (contents r)"
    and window_law: "inv r \<Longrightarrow>
      window r = Inr (contents r @ replicate (cap - length (contents r)) 0)"
begin

lemma push_all:
  "inv r \<Longrightarrow> length (contents r) + length bs \<le> cap \<Longrightarrow>
    \<exists>r'. fold_r (\<lambda>r b. map_sum id fst (push r b)) r bs = Inr r' \<and> inv r' \<and>
      contents r' = contents r @ bs"
proof (induction bs arbitrary: r)
  case Nil
  then show ?case by simp
next
  case (Cons b bs)
  then obtain r1 where r1: "push r b = Inr (r1, length (contents r1) = cap)" "inv r1"
      "contents r1 = contents r @ [b]"
    using push_law [of r b] by auto
  moreover have "length (contents r1) + length bs \<le> cap" using Cons.prems r1 by simp
  ultimately show ?case using Cons.IH [of r1] by auto
qed

lemma slide_all:
  "inv r \<Longrightarrow> length (contents r) = cap \<Longrightarrow>
    \<exists>r'. fold_r slide r bs = Inr r' \<and> inv r' \<and> contents r' = drop (length bs) (contents r @ bs)"
proof (induction bs arbitrary: r)
  case Nil
  then show ?case by simp
next
  case (Cons b bs)
  then obtain r1 where r1: "slide r b = Inr r1" "inv r1" "contents r1 = tl (contents r) @ [b]"
    using slide_law [of r b] by auto
  have "contents r \<noteq> []" using Cons.prems cap_pos [of r] by auto
  then have "drop (length bs) (contents r1 @ bs) = drop (length (b # bs)) (contents r @ b # bs)"
    using r1 by (cases "contents r") auto
  moreover have "length (contents r1) = cap"
    using r1 Cons.prems cap_pos [of r] by simp
  ultimately show ?case using Cons.IH [of r1] r1 by auto
qed

text \<open>Filling the window and sliding it over the rest leaves the digest of the last \<open>cap\<close> bytes.\<close>

lemma push_slide_digest:
  assumes "inv r" and "length xs = cap"
  shows "\<exists>r1 r2. fold_r (\<lambda>r b. map_sum id fst (push r b)) (reset r) xs = Inr r1 \<and>
    fold_r slide r1 ys = Inr r2 \<and> digest r2 = hash (drop (length ys) (xs @ ys)) \<and>
    window r2 = Inr (drop (length ys) (xs @ ys))"
proof -
  from reset_law [OF assms(1)] push_all [of "reset r" xs] assms(2) obtain r1 where
    r1: "fold_r (\<lambda>r b. map_sum id fst (push r b)) (reset r) xs = Inr r1" "inv r1" "contents r1 = xs"
    by auto
  with slide_all [of r1 ys] assms(2) obtain r2 where
    r2: "fold_r slide r1 ys = Inr r2" "inv r2" "contents r2 = drop (length ys) (xs @ ys)" by auto
  moreover have "length (contents r2) = cap" using r2 assms(2) by simp
  ultimately show ?thesis
    using r1 digest_law window_law by simp
qed

end

interpretation rw: byte_window n "\<lambda>rh. rh_Reset rh (int n)" rh_RollIn rh_Roll rh_IsFull rh_Sum
  rh_Window weak_hash rh_contents "rh_inv n" for n
proof unfold_locales
  fix rh b
  assume i: "rh_inv n rh"
  then have s: "rh_shape n rh" by (simp add: rh_inv_def)
  then show "0 < n" by (simp add: rh_shape_def)
  note len = length_rh_contents [OF s]
  have bnd: "0 \<le> rh_count rh" "rh_count rh \<le> int n" using s by (auto simp: rh_shape_def)
  show "length (rh_contents rh) \<le> n" using len bnd by simp
  show "rh_inv n (rh_Reset rh (int n)) \<and> rh_contents (rh_Reset rh (int n)) = []"
    using s rh_Reset_inv [of n rh] by (simp add: rh_shape_def)
  show "rh_IsFull rh \<longleftrightarrow> length (rh_contents rh) = n"
    using s len by (auto simp: rh_IsFull_def rh_shape_def)
  show "rh_Sum rh = weak_hash (rh_contents rh)" using i by (rule rh_Sum_inv)
  show "rh_Window rh = Inr (rh_contents rh @ replicate (n - length (rh_contents rh)) 0)"
    using i by (rule rh_Window_inv)
  {
    assume "length (rh_contents rh) < n"
    then have "rh_count rh < int n" using len bnd by simp
    from rh_RollIn_inv [OF i this, of b] obtain rh' where
      rh': "rh_RollIn rh b = Inr (rh', rh_count rh' = int n)" "rh_inv n rh'"
        "rh_contents rh' = rh_contents rh @ [b]" by auto
    from rh'(2) have s': "rh_shape n rh'" by (simp add: rh_inv_def)
    then have "0 \<le> rh_count rh'" by (simp add: rh_shape_def)
    with length_rh_contents [OF s'] have "rh_count rh' = int n \<longleftrightarrow> length (rh_contents rh') = n" by auto
    with rh' show "\<exists>r'. rh_RollIn rh b = Inr (r', length (rh_contents r') = n) \<and> rh_inv n r' \<and>
        rh_contents r' = rh_contents rh @ [b]" by auto
  }
  {
    assume "length (rh_contents rh) = n"
    then have "rh_count rh = int n" using len bnd by simp
    from rh_Roll_inv [OF i this, of b]
    show "\<exists>r'. rh_Roll rh b = Inr r' \<and> rh_inv n r' \<and> rh_contents r' = tl (rh_contents rh) @ [b]"
      by auto
  }
qed

section \<open>The weak hash is Adler-32\<close>

text \<open>
  The definition of Adler-32 over the natural numbers: \<open>A\<close> is one plus the sum of the bytes, \<open>B\<close> the
  sum of the successive values of \<open>A\<close>, both modulo 65521. The code computes them on 32-bit words
  and reduces at every byte.
\<close>

definition adler_A :: "bytes \<Rightarrow> nat" where
  "adler_A bs = 1 + sum_list (map unat bs)"

definition adler_B :: "bytes \<Rightarrow> nat" where
  "adler_B bs = (\<Sum>k = 1..length bs. adler_A (take k bs))"

lemma unat_mod_RollingHashMod: "unat (w mod RollingHashMod) = unat w mod 65521"
  by (simp add: RollingHashMod_def unat_mod)

lemma unat_add_small:
  "unat v < 2 ^ 31 \<Longrightarrow> unat w < 2 ^ 31 \<Longrightarrow> unat (v + w :: u32) = unat v + unat w"
  by (simp add: unat_word_ariths)

lemma adler_step_unat:
  assumes "unat a < 65521" and "unat b < 65521"
  shows "unat (fst (adler_step (a, b) c)) = (unat a + unat c) mod 65521"
    and "unat (snd (adler_step (a, b) c)) = (unat b + (unat a + unat c)) mod 65521"
proof -
  have c: "unat (ucast c :: u32) = unat c" and cl: "unat c < 256"
    by (simp_all add: unat_byte_less unsigned_ucast_eq take_bit_nat_eq_self
        order_less_trans [OF unat_byte_less])
  then have "unat (a + ucast c) = unat a + unat c"
    using assms by (subst unat_add_small) auto
  then have A: "unat ((a + ucast c) mod RollingHashMod) = (unat a + unat c) mod 65521"
    by (simp add: unat_mod_RollingHashMod)
  then show "unat (fst (adler_step (a, b) c)) = (unat a + unat c) mod 65521"
    by (simp add: adler_step_def Let_def)
  have "(unat a + unat c) mod 65521 < 65521" by simp
  then have "unat (b + (a + ucast c) mod RollingHashMod) = unat b + (unat a + unat c) mod 65521"
    using assms A by (subst unat_add_small) auto
  then show "unat (snd (adler_step (a, b) c)) = (unat b + (unat a + unat c)) mod 65521"
    by (simp add: adler_step_def Let_def unat_mod_RollingHashMod mod_add_right_eq)
qed

lemma mod_add3: "(x mod m + (y mod m + z)) mod m = (x + (y + z)) mod (m :: nat)"
  by (metis mod_add_left_eq mod_add_right_eq)

lemma foldl_adler_unat:
  "unat (fst (foldl adler_step (1, 0) bs)) = adler_A bs mod 65521 \<and>
   unat (snd (foldl adler_step (1, 0) bs)) = adler_B bs mod 65521"
proof (induction bs rule: rev_induct)
  case Nil
  show ?case by (simp add: adler_A_def adler_B_def)
next
  case (snoc c bs)
  obtain a b where ab: "foldl adler_step (1, 0) bs = (a, b)"
    by (cases "foldl adler_step (1, 0) bs")
  with snoc have v: "unat a = adler_A bs mod 65521" "unat b = adler_B bs mod 65521" by auto
  then have "unat a < 65521" "unat b < 65521" by simp_all
  from adler_step_unat [OF this, of c] v
  have s: "unat (fst (adler_step (a, b) c)) = (adler_A bs mod 65521 + unat c) mod 65521"
      "unat (snd (adler_step (a, b) c)) =
        (adler_B bs mod 65521 + (adler_A bs mod 65521 + unat c)) mod 65521" by simp_all
  have A: "adler_A (bs @ [c]) = adler_A bs + unat c" by (simp add: adler_A_def)
  have "adler_B (bs @ [c]) = adler_B bs + adler_A (bs @ [c])"
    by (simp add: adler_B_def)
  then have "adler_B (bs @ [c]) mod 65521 =
      (adler_B bs mod 65521 + (adler_A bs mod 65521 + unat c)) mod 65521"
    by (simp only: A mod_add3)
  then show ?case by (simp add: ab s A mod_simps)
qed

lemma or_push_bit_16:
  assumes "unat a < 2 ^ 16" and "unat b < 2 ^ 16"
  shows "unat (push_bit 16 b OR a :: u32) = unat b * 65536 + unat a"
proof -
  have "push_bit 16 b AND a = 0"
  proof (rule bit_word_eqI)
    fix k assume "k < LENGTH(32)"
    have "\<not> bit a k" if "16 \<le> k"
    proof -
      have "take_bit 16 a = a" using assms(1)
        by (simp add: word_unat_eq_iff unsigned_take_bit_eq take_bit_nat_eq_self)
      then show ?thesis using that by (metis bit_take_bit_iff linorder_not_less)
    qed
    then show "bit (push_bit 16 b AND a) k = bit (0 :: u32) k"
      by (auto simp: bit_and_iff bit_push_bit_iff)
  qed
  then have "push_bit 16 b OR a = push_bit 16 b + a" by (simp add: disjunctive_add_eq_or)
  moreover have "unat (push_bit 16 b) = unat b * 65536"
    using assms(2) by (simp add: push_bit_eq_mult unat_word_ariths mult.commute)
  ultimately show ?thesis
    using assms by (simp add: unat_word_ariths)
qed

lemma weak_hash_adler: "unat (weak_hash bs) = adler_B bs mod 65521 * 65536 + adler_A bs mod 65521"
proof -
  obtain a b where ab: "foldl adler_step (1, 0) bs = (a, b)"
    by (cases "foldl adler_step (1, 0) bs")
  with foldl_adler_unat [of bs] have v: "unat a = adler_A bs mod 65521" "unat b = adler_B bs mod 65521"
    by auto
  have "adler_A bs mod 65521 < 65521" "adler_B bs mod 65521 < 65521" by simp_all
  then have "unat a < 2 ^ 16" "unat b < 2 ^ 16" using v by simp_all
  then show ?thesis by (simp add: weak_hash_def ab or_push_bit_16 v)
qed

section \<open>The weak-hash index of a signature\<close>

definition weak_positions :: "BlockSignature list \<Rightarrow> u32 \<Rightarrow> nat list" where
  "weak_positions bl w = filter (\<lambda>i. bs_WeakHash (bl ! i) = w) [0..<length bl]"

definition sig_inv :: "Signature \<Rightarrow> bool" where
  "sig_inv s \<longleftrightarrow>
     (\<forall>w. sg_weakIndex s w =
        (if weak_positions (sg_Blocks s) w = [] then None
         else Some (weak_positions (sg_Blocks s) w)))"

lemma sig_inv_empty: "sg_Blocks s = [] \<Longrightarrow> sg_weakIndex s = Map.empty \<Longrightarrow> sig_inv s"
  by (simp add: sig_inv_def weak_positions_def)

lemma FindByWeakHash_inv: "sig_inv s \<Longrightarrow> FindByWeakHash s w = weak_positions (sg_Blocks s) w"
  by (simp add: sig_inv_def FindByWeakHash_def)

lemma weak_positions_snoc:
  "weak_positions (bl @ [b]) w =
     weak_positions bl w @ (if bs_WeakHash b = w then [length bl] else [])"
proof -
  have "filter (\<lambda>i. bs_WeakHash ((bl @ [b]) ! i) = w) [0..<length bl] = weak_positions bl w"
    unfolding weak_positions_def by (rule filter_cong) (auto simp: nth_append)
  then show ?thesis by (simp add: weak_positions_def)
qed

lemma AddBlock_Blocks [simp]:
  "sg_Blocks (AddBlock s i w h) =
     sg_Blocks s @ [\<lparr>bs_Index = i, bs_WeakHash = w, bs_StrongHash = h\<rparr>]"
  by (simp add: AddBlock_def Let_def)

lemma AddBlock_sizes [simp]:
  "sg_BlockSize (AddBlock s i w h) = sg_BlockSize s"
  "sg_FileSize (AddBlock s i w h) = sg_FileSize s"
  by (simp_all add: AddBlock_def Let_def)

lemma AddBlock_inv: "sig_inv s \<Longrightarrow> sig_inv (AddBlock s i w h)"
  by (auto simp: sig_inv_def AddBlock_def Let_def weak_positions_snoc)

lemma set_weak_positions: "i \<in> set (weak_positions bl w) \<longleftrightarrow> i < length bl \<and> bs_WeakHash (bl ! i) = w"
  by (auto simp: weak_positions_def)

lemma GetBlock_nat [simp]: "i < length (sg_Blocks s) \<Longrightarrow> GetBlock s (int i) = Some (sg_Blocks s ! i)"
  by (simp add: GetBlock_def)

text \<open>Two signatures with the invariant that agree on sizes and blocks are equal.\<close>

lemma sig_inv_unique:
  fixes s t :: Signature
  assumes "sig_inv s" "sig_inv t" "sg_Blocks s = sg_Blocks t"
    "sg_BlockSize s = sg_BlockSize t" "sg_FileSize s = sg_FileSize t"
  shows "s = t"
proof -
  have "sg_weakIndex s = sg_weakIndex t"
    using assms by (auto simp: sig_inv_def)
  then show ?thesis using assms by simp
qed

section \<open>Decoding an encoded signature\<close>

definition add_blocks :: "Signature \<Rightarrow> BlockSignature list \<Rightarrow> Signature" where
  "add_blocks s bl = foldl (\<lambda>s b. AddBlock s (bs_Index b) (bs_WeakHash b) (bs_StrongHash b)) s bl"

lemma add_blocks_inv:
  "sig_inv s \<Longrightarrow> sig_inv (add_blocks s bl) \<and> sg_Blocks (add_blocks s bl) = sg_Blocks s @ bl \<and>
    sg_BlockSize (add_blocks s bl) = sg_BlockSize s \<and> sg_FileSize (add_blocks s bl) = sg_FileSize s"
  by (induction bl arbitrary: s) (simp_all add: add_blocks_def AddBlock_inv)

lemma length_encode_block [simp]: "length (encode_block b) = 40"
  by (simp add: encode_block_def)

lemma encode_block_fields:
  assumes "length (bs_StrongHash b) = 32"
  shows "subslice (length pre) (length pre + 4) (pre @ encode_block b @ post) = PutUint32 (bs_Index b)"
    and "subslice (length pre + 4) (length pre + 8) (pre @ encode_block b @ post) =
      PutUint32 (bs_WeakHash b)"
    and "subslice (length pre + 8) (length pre + 40) (pre @ encode_block b @ post) = bs_StrongHash b"
  using assms by (simp_all add: encode_block_def subslice_def)

lemma decode_blocks_encode:
  assumes "\<forall>b \<in> set bl. length (bs_StrongHash b) = 32"
  shows "decode_blocks (length bl) (pre @ concat (map encode_block bl)) (length pre) s = add_blocks s bl"
  using assms
proof (induction bl arbitrary: pre s)
  case Nil
  show ?case by (simp add: add_blocks_def)
next
  case (Cons b bl)
  let ?data = "pre @ encode_block b @ concat (map encode_block bl)"
  from Cons.prems have "length (bs_StrongHash b) = 32" by simp
  note f = encode_block_fields [OF this, of pre "concat (map encode_block bl)"]
  have "decode_blocks (length bl) ((pre @ encode_block b) @ concat (map encode_block bl))
      (length (pre @ encode_block b)) (AddBlock s (bs_Index b) (bs_WeakHash b) (bs_StrongHash b)) =
      add_blocks (AddBlock s (bs_Index b) (bs_WeakHash b) (bs_StrongHash b)) bl"
    using Cons.prems by (intro Cons.IH) simp
  then show ?case by (simp add: f add_blocks_def)
qed

text \<open>What the wire format can carry.\<close>

definition sig_encodable :: "Signature \<Rightarrow> bool" where
  "sig_encodable s \<longleftrightarrow>
     sig_inv s \<and> 0 < sg_BlockSize s \<and> sg_BlockSize s < 2 ^ 32 \<and>
     0 \<le> sg_FileSize s \<and> sg_FileSize s < 2 ^ 62 \<and>
     40 * ((sg_FileSize s + sg_BlockSize s - 1) div sg_BlockSize s) \<le> 2 ^ 48 \<and>
     length (sg_Blocks s) < 2 ^ 32 \<and> (\<forall>b \<in> set (sg_Blocks s). length (bs_StrongHash b) = 32)"

lemma NewSignature_ok:
  assumes "0 < bs" "bs < 2 ^ 32" "0 \<le> fs" "fs < 2 ^ 62" "40 * ((fs + bs - 1) div bs) \<le> 2 ^ 48"
  shows "NewSignature bs fs =
    Inr \<lparr>sg_BlockSize = bs, sg_FileSize = fs, sg_Blocks = [], sg_weakIndex = Map.empty\<rparr>"
proof -
  have "int64 (int64 (fs + bs) - 1) = fs + bs - 1"
    using assms by simp
  moreover have "0 \<le> (fs + bs - 1) div bs" using assms by (simp add: pos_imp_zdiv_nonneg_iff)
  ultimately show ?thesis using assms by (simp add: NewSignature_def)
qed

lemma DecodeSignature_Encode:
  assumes "sig_encodable s"
  shows "DecodeSignature (EncodeSignature s) = Inr (Some s)"
proof -
  let ?h = "PutUint32 (word_of_int (sg_BlockSize s)) @ PutUint64 (u64_of (sg_FileSize s)) @
     PutUint32 (of_nat (length (sg_Blocks s)))"
  let ?s0 = "\<lparr>sg_BlockSize = sg_BlockSize s, sg_FileSize = sg_FileSize s, sg_Blocks = [],
     sg_weakIndex = Map.empty\<rparr>"
  note e = assms [unfolded sig_encodable_def]
  have data: "EncodeSignature s = ?h @ concat (map encode_block (sg_Blocks s))"
    by (simp add: EncodeSignature_def)
  have bs: "uint (Uint32 (subslice 0 4 (EncodeSignature s))) = sg_BlockSize s"
    using e by (simp add: EncodeSignature_def uint_word_of_int take_bit_int_eq_self)
  have fs: "int64_of (Uint64 (subslice 4 12 (EncodeSignature s))) = sg_FileSize s"
    using e by (simp add: EncodeSignature_def subslice_def int64_of_u64_of)
  have nb: "unat (Uint32 (subslice 12 16 (EncodeSignature s))) = length (sg_Blocks s)"
    using e by (simp add: EncodeSignature_def subslice_def)
  have new: "NewSignature (sg_BlockSize s) (sg_FileSize s) = Inr ?s0"
    using e by (intro NewSignature_ok) auto
  have "decode_blocks (length (sg_Blocks s)) (EncodeSignature s) 16 ?s0 = add_blocks ?s0 (sg_Blocks s)"
    using e decode_blocks_encode [of "sg_Blocks s" ?h ?s0] by (simp add: data)
  moreover have "add_blocks ?s0 (sg_Blocks s) = s"
    using e add_blocks_inv [OF sig_inv_empty [of ?s0], of "sg_Blocks s"]
    by (intro sig_inv_unique) auto
  moreover have "16 \<le> length (EncodeSignature s)" by (simp add: data)
  ultimately show ?thesis
    by (simp add: DecodeSignature_def bs fs nb new Let_def del: subslice_0)
qed

lemma DecodeSignature_zero_block:
  assumes "16 \<le> length data" and "take 4 data = [0, 0, 0, 0]"
  shows "DecodeSignature data = Inl (Panic ''integer divide by zero'')"
proof -
  have "(get_be [0, 0, 0, 0] :: u32) = 0" by (simp add: get_be_def)
  then show ?thesis
    using assms by (simp add: DecodeSignature_def NewSignature_def go_div_def Let_def)
qed


section \<open>Properties\<close>

text \<open>
  C31. The rolling checksum is right at every offset: a hash that is created for a block size the
  constructor does not clamp, filled with one block and rolled over any further bytes, reports the
  weak checksum of exactly the last block of bytes it saw, and returns these bytes as its window.
  The pooled hash and the backing array it recycles do not matter.
\<close>

theorem rolling_hash_window:
  assumes "0 < n" "n \<le> 65536" "length xs = n"
  shows "\<exists>r1 r2. fold_r (\<lambda>r b. map_sum id fst (rh_RollIn r b)) (NewRollingHash pooled backing (int n)) xs = Inr r1 \<and>
    fold_r rh_Roll r1 ys = Inr r2 \<and> rh_Sum r2 = weak_hash (drop (length ys) (xs @ ys)) \<and>
    rh_Window r2 = Inr (drop (length ys) (xs @ ys))"
proof -
  note new = NewRollingHash_inv [OF assms(1,2), of pooled backing]
  from rw.push_all [of n _ xs] new assms(3) obtain r1 where
    r1: "fold_r (\<lambda>r b. map_sum id fst (rh_RollIn r b)) (NewRollingHash pooled backing (int n)) xs = Inr r1"
      "rh_inv n r1" "rh_contents r1 = xs" by fastforce
  with rw.slide_all [of n r1 ys] assms(3) obtain r2 where
    r2: "fold_r rh_Roll r1 ys = Inr r2" "rh_inv n r2" "rh_contents r2 = drop (length ys) (xs @ ys)"
    by auto
  then show ?thesis
    using r1 rw.digest_law [OF r2(2)] rw.window_law [OF r2(2)] assms(3) by simp
qed

lemma rolling_hash_window_witness:
  "\<exists>r1 r2. fold_r (\<lambda>r b. map_sum id fst (rh_RollIn r b))
      (NewRollingHash
        \<lparr>rh_a = 7, rh_b = 9, rh_window = [8], rh_size = 1, rh_pos = 0, rh_count = 1, rh_blockSize = 1\<rparr>
        [5] (int 2)) [1, 2] = Inr r1 \<and>
    fold_r rh_Roll r1 [3, 4, 5] = Inr r2 \<and> rh_Sum r2 = weak_hash [4, 5] \<and> rh_Window r2 = Inr [4, 5]"
  using rolling_hash_window [of 2 "[1, 2]"
      "\<lparr>rh_a = 7, rh_b = 9, rh_window = [8], rh_size = 1, rh_pos = 0, rh_count = 1, rh_blockSize = 1\<rparr>" "[5]" "[3, 4, 5]"]
  by simp

text \<open>
  The weak checksum, computed with a reduction at every byte and packed into 32 bits, is Adler-32:
  the two unbounded sums, each reduced once, in the low and the high half.
\<close>

theorem weak_hash_is_adler32:
  "unat (weak_hash bs) = adler_B bs mod 65521 * 65536 + adler_A bs mod 65521"
  by (rule weak_hash_adler)

text \<open>
  A signature survives its wire format, weak-hash index included.
\<close>

theorem signature_encode_decode:
  assumes "sig_encodable s"
  shows "DecodeSignature (EncodeSignature s) = Inr (Some s)"
  using assms by (rule DecodeSignature_Encode)

lemma signature_encode_decode_witness:
  "DecodeSignature (EncodeSignature
      (AddBlock \<lparr>sg_BlockSize = 4, sg_FileSize = 3, sg_Blocks = [], sg_weakIndex = Map.empty\<rparr> 0 7 (replicate 32 1))) =
    Inr (Some (AddBlock \<lparr>sg_BlockSize = 4, sg_FileSize = 3, sg_Blocks = [], sg_weakIndex = Map.empty\<rparr> 0 7 (replicate 32 1)))"
proof (rule signature_encode_decode)
  let ?e = "\<lparr>sg_BlockSize = 4, sg_FileSize = 3, sg_Blocks = [], sg_weakIndex = Map.empty\<rparr>"
  have "sig_inv (AddBlock ?e 0 7 (replicate 32 1))" by (simp add: AddBlock_inv sig_inv_empty)
  then show "sig_encodable (AddBlock ?e 0 7 (replicate 32 1))"
    unfolding sig_encodable_def by (simp add: AddBlock_def)
qed

text \<open>
  A signature from the wire whose block size is zero makes \<open>DecodeSignature\<close> panic: \<open>NewSignature\<close>
  divides by the block size without checking it.
\<close>

theorem decode_signature_zero_block_panics:
  assumes "16 \<le> length data" and "take 4 data = [0, 0, 0, 0]"
  shows "DecodeSignature data = Inl (Panic ''integer divide by zero'')"
  using assms by (rule DecodeSignature_zero_block)

lemma decode_signature_zero_block_panics_witness:
  "DecodeSignature (replicate 16 0) = Inl (Panic ''integer divide by zero'')"
  by (rule decode_signature_zero_block_panics) (simp_all add: numeral_eq_Suc)

end
