(* ===== verification/Delta.thy ===== *)
theory Delta
  imports Rolling "HOL-Library.Sublist"
begin

text \<open>
  \<open>internal/delta/delta.go\<close>: delta operations and their wire format, the generation of a delta from
  a byte stream and the signature of the old file, the generation of signatures, and the application
  of a delta. The loop of \<open>GenerateDelta\<close> is \<open>gd_loop\<close>, one iteration is \<open>gd_step\<close>; the loop need
  not end for a signature with a block size of zero, so it is a partial function whose value
  \<^const>\<open>None\<close> means that it runs forever.
\<close>

section \<open>Operations and deltas\<close>

datatype DeltaOp = OpCopy u32 | OpData bytes

fun EncodeOp :: "DeltaOp \<Rightarrow> bytes" where
  "EncodeOp (OpCopy i) = 0x01 # PutUint32 i"
| "EncodeOp (OpData d) = 0x02 # PutUint32 (of_nat (length d)) @ d"

record Delta =
  dl_Ops :: "DeltaOp list"
  dl_NewFileSize :: int
  dl_NewFileHash :: bytes
  dl_BlocksCopied :: int
  dl_BytesCopied :: int
  dl_BytesLiteral :: int

definition EncodeDelta :: "Delta \<Rightarrow> bytes" where
  "EncodeDelta d =
     PutUint64 (u64_of (dl_NewFileSize d)) @ go_copy (replicate 32 0) (dl_NewFileHash d) @
     PutUint32 (of_nat (length (dl_Ops d))) @ concat (map EncodeOp (dl_Ops d))"

text \<open>The loop of \<open>DecodeDelta\<close>: \<open>n\<close> operations are announced and not yet read.\<close>

fun decode_ops :: "nat \<Rightarrow> bytes \<Rightarrow> nat \<Rightarrow> DeltaOp list \<Rightarrow> DeltaOp list res" where
  "decode_ops 0 data offset acc = Inr acc"
| "decode_ops (Suc n) data offset acc =
     (if offset < length data then
        let opcode = data ! offset; off = offset + 1 in
        if opcode = 0x01 then
          if off + 4 > length data then Inl (Err ''truncated copy op'')
          else decode_ops n data (off + 4) (acc @ [OpCopy (Uint32 (subslice off (off + 4) data))])
        else if opcode = 0x02 then
          if off + 4 > length data then Inl (Err ''truncated data op length'')
          else let dataLen = unat (Uint32 (subslice off (off + 4) data)); off' = off + 4 in
               if off' + dataLen > length data then Inl (Err ''truncated data op'')
               else decode_ops n data (off' + dataLen)
                      (acc @ [OpData (subslice off' (off' + dataLen) data)])
        else decode_ops n data off acc
      else Inr acc)"

definition DecodeDelta :: "bytes \<Rightarrow> Delta res" where
  "DecodeDelta data =
     (if length data < 44 then Inl (Err ''delta too short'')
      else bind_r (decode_ops (unat (Uint32 (subslice 40 44 data))) data 44 []) (\<lambda>ops.
        Inr \<lparr>dl_Ops = ops, dl_NewFileSize = int64_of (Uint64 (subslice 0 8 data)),
             dl_NewFileHash = subslice 8 40 data,
             dl_BlocksCopied = 0, dl_BytesCopied = 0, dl_BytesLiteral = 0\<rparr>))"

section \<open>The buffer pool of a generator\<close>

text \<open>A buffered channel of \<open>bp_cap\<close> buffers; \<open>get\<close> and \<open>put\<close> never block.\<close>

record bufferPool =
  bp_pool :: "bytes list"
  bp_cap :: nat
  bp_size :: nat

definition newBufferPool :: "nat \<Rightarrow> nat \<Rightarrow> bufferPool" where
  "newBufferPool sz count =
     \<lparr>bp_pool = replicate count (replicate sz 0), bp_cap = count, bp_size = sz\<rparr>"

definition bp_get :: "bufferPool \<Rightarrow> bytes \<times> bufferPool" where
  "bp_get bp =
     (case bp_pool bp of
        buf # rest \<Rightarrow> (buf, bp\<lparr>bp_pool := rest\<rparr>)
      | [] \<Rightarrow> (replicate (bp_size bp) 0, bp))"

definition bp_put :: "bufferPool \<Rightarrow> bytes \<Rightarrow> bufferPool" where
  "bp_put bp buf =
     (if length (bp_pool bp) < bp_cap bp then bp\<lparr>bp_pool := bp_pool bp @ [buf]\<rparr> else bp)"

record DeltaGenerator =
  dg_blockSize :: int
  dg_bufPool :: bufferPool

definition NewDeltaGenerator :: "int \<Rightarrow> DeltaGenerator" where
  "NewDeltaGenerator blockSize =
     (let bs = (if blockSize \<le> 0 then DefaultBlockSize else blockSize)
      in \<lparr>dg_blockSize = bs, dg_bufPool = newBufferPool (nat bs) 4\<rparr>)"

section \<open>Generating a delta\<close>

text \<open>
  The local variables of \<open>GenerateDelta\<close>. \<open>g_hashed\<close> holds the bytes written to \<open>fileHasher\<close>, whose
  sum is the digest of them.
\<close>

record gen_state =
  g_ops :: "DeltaOp list"
  g_blocksCopied :: int
  g_bytesCopied :: int
  g_bytesLiteral :: int
  g_literal :: bytes
  g_rh :: RollingHash
  g_reader :: reader
  g_hashed :: bytes
  g_total :: int
  g_eof :: bool

fun io_msg :: "io_err \<Rightarrow> string" where
  "io_msg EOF = ''EOF''"
| "io_msg ErrUnexpectedEOF = ''unexpected EOF''"
| "io_msg (IOErr e) = e"

definition emit :: "bytes \<Rightarrow> gen_state \<Rightarrow> gen_state" where
  "emit bs st = st\<lparr>g_literal := g_literal st @ bs, g_hashed := g_hashed st @ bs,
     g_total := g_total st + int (length bs)\<rparr>"

text \<open>Filling the initial window; \<open>n\<close> iterations are left.\<close>

fun fill_initial :: "nat \<Rightarrow> int \<Rightarrow> gen_state \<Rightarrow> gen_state res" where
  "fill_initial 0 i st = Inr st"
| "fill_initial (Suc n) i st =
     (case ReadByte (g_reader st) of
        (Inl e, r) \<Rightarrow>
          if e = EOF then
            if i > 0 then
              bind_r (rh_Window (g_rh st)) (\<lambda>w. bind_r (go_slice 0 i w) (\<lambda>window.
                Inr ((emit window st)\<lparr>g_reader := r, g_eof := True\<rparr>)))
            else Inr (st\<lparr>g_reader := r, g_eof := True\<rparr>)
          else Inl (ErrMsg ''reading initial window'' (io_msg e))
      | (Inr b, r) \<Rightarrow>
          bind_r (rh_RollIn (g_rh st) b) (\<lambda>(rh, _).
            fill_initial n (i + 1) (st\<lparr>g_rh := rh, g_reader := r\<rparr>)))"

text \<open>Filling the next window after a match; the second component is \<open>partialCount\<close>.\<close>

fun fill_next :: "nat \<Rightarrow> int \<Rightarrow> gen_state \<Rightarrow> (gen_state \<times> int) res" where
  "fill_next 0 pc st = Inr (st, pc)"
| "fill_next (Suc n) pc st =
     (case ReadByte (g_reader st) of
        (Inl e, r) \<Rightarrow>
          if e = EOF then Inr (st\<lparr>g_reader := r, g_eof := True\<rparr>, pc)
          else Inl (ErrMsg ''reading after match'' (io_msg e))
      | (Inr b, r) \<Rightarrow>
          bind_r (rh_RollIn (g_rh st) b) (\<lambda>(rh, _).
            fill_next n (pc + 1) (st\<lparr>g_rh := rh, g_reader := r\<rparr>)))"

text \<open>The first candidate whose strong hash is \<open>strongHash\<close>.\<close>

fun find_match :: "Signature \<Rightarrow> bytes \<Rightarrow> nat list \<Rightarrow> BlockSignature option" where
  "find_match sig strongHash [] = None"
| "find_match sig strongHash (idx # is) =
     (case GetBlock sig (int idx) of
        None \<Rightarrow> find_match sig strongHash is
      | Some block \<Rightarrow>
          if strongHash = bs_StrongHash block then Some block else find_match sig strongHash is)"

definition flush_literal :: "gen_state \<Rightarrow> gen_state" where
  "flush_literal st =
     (if g_literal st \<noteq> [] then
        st\<lparr>g_ops := g_ops st @ [OpData (g_literal st)],
           g_bytesLiteral := g_bytesLiteral st + int (length (g_literal st)), g_literal := []\<rparr>
      else st)"

definition emit_copy :: "BlockSignature \<Rightarrow> int \<Rightarrow> bytes \<Rightarrow> gen_state \<Rightarrow> gen_state" where
  "emit_copy block copied window st =
     st\<lparr>g_ops := g_ops st @ [OpCopy (bs_Index block)],
        g_blocksCopied := g_blocksCopied st + 1,
        g_bytesCopied := g_bytesCopied st + copied,
        g_hashed := g_hashed st @ window,
        g_total := g_total st + int (length window)\<rparr>"

definition handle_match ::
  "(bytes \<Rightarrow> bytes) \<Rightarrow> Signature \<Rightarrow> gen_state \<Rightarrow> bytes \<Rightarrow> BlockSignature \<Rightarrow> gen_state res" where
  "handle_match H sig st window block =
     (let st1 = emit_copy block (sg_BlockSize sig) window (flush_literal st);
          st2 = st1\<lparr>g_rh := rh_Reset (g_rh st1) (sg_BlockSize sig)\<rparr>
      in bind_r (fill_next (nat (sg_BlockSize sig)) 0 st2) (\<lambda>(st3, partialCount).
           if g_eof st3 \<and> partialCount > 0 then
             bind_r (rh_Window (g_rh st3)) (\<lambda>w. bind_r (go_slice 0 partialCount w) (\<lambda>partialData.
               let (partialWeak, partialStrong) = ComputeBlockSignature H partialData in
               case find_match sig partialStrong (FindByWeakHash sig partialWeak) of
                 Some pBlock \<Rightarrow> Inr (emit_copy pBlock partialCount partialData st3)
               | None \<Rightarrow> Inr (emit partialData st3)))
           else Inr st3))"

text \<open>No match: emit the oldest byte as a literal, read the next byte and roll.\<close>

definition roll_step :: "gen_state \<Rightarrow> gen_state res" where
  "roll_step st =
     bind_r
       (if rh_IsFull (g_rh st) then
          bind_r (go_mod (rh_pos (g_rh st) - rh_count (g_rh st) + rh_size (g_rh st))
                    (rh_size (g_rh st))) (\<lambda>oldestPos.
          bind_r (go_index (rh_window (g_rh st)) oldestPos) (\<lambda>oldestByte.
            Inr (emit [oldestByte] st)))
        else Inr st)
       (\<lambda>st1.
          case ReadByte (g_reader st1) of
            (Inl e, r) \<Rightarrow>
              if e = EOF then
                bind_r
                  (if rh_IsFull (g_rh st1) then
                     bind_r (rh_Window (g_rh st1)) (\<lambda>window.
                     bind_r (go_slice 1 (int (length window)) window) (\<lambda>rest.
                       Inr (emit rest st1)))
                   else Inr st1)
                  (\<lambda>st2. Inr (st2\<lparr>g_reader := r, g_eof := True\<rparr>))
              else Inl (ErrMsg ''reading file'' (io_msg e))
          | (Inr b, r) \<Rightarrow>
              if rh_IsFull (g_rh st1)
              then bind_r (rh_Roll (g_rh st1) b) (\<lambda>rh. Inr (st1\<lparr>g_rh := rh, g_reader := r\<rparr>))
              else bind_r (rh_RollIn (g_rh st1) b) (\<lambda>(rh, _).
                     Inr (st1\<lparr>g_rh := rh, g_reader := r\<rparr>)))"

definition gd_step :: "(bytes \<Rightarrow> bytes) \<Rightarrow> Signature \<Rightarrow> gen_state \<Rightarrow> gen_state res" where
  "gd_step H sig st =
     (if rh_IsFull (g_rh st) then
        let candidates = FindByWeakHash sig (rh_Sum (g_rh st)) in
        if candidates \<noteq> [] then
          bind_r (rh_Window (g_rh st)) (\<lambda>window.
            case find_match sig (snd (ComputeBlockSignature H window)) candidates of
              Some block \<Rightarrow> handle_match H sig st window block
            | None \<Rightarrow> roll_step st)
        else roll_step st
      else roll_step st)"

partial_function (option) gd_loop ::
  "(bytes \<Rightarrow> bytes) \<Rightarrow> Signature \<Rightarrow> gen_state \<Rightarrow> gen_state res option" where
  "gd_loop H sig st =
     (if g_eof st then Some (Inr st)
      else (case gd_step H sig st of
              Inl e \<Rightarrow> Some (Inl e)
            | Inr st' \<Rightarrow> gd_loop H sig st'))"

definition gd_finish :: "(bytes \<Rightarrow> bytes) \<Rightarrow> gen_state \<Rightarrow> Delta" where
  "gd_finish H st =
     (let st' = flush_literal st
      in \<lparr>dl_Ops = g_ops st', dl_NewFileSize = g_total st', dl_NewFileHash = H (g_hashed st'),
          dl_BlocksCopied = g_blocksCopied st', dl_BytesCopied = g_bytesCopied st',
          dl_BytesLiteral = g_bytesLiteral st'\<rparr>)"

definition gd_init :: "RollingHash \<Rightarrow> bytes \<Rightarrow> reader \<Rightarrow> Signature \<Rightarrow> gen_state" where
  "gd_init pooled backing newFile sig =
     \<lparr>g_ops = [], g_blocksCopied = 0, g_bytesCopied = 0, g_bytesLiteral = 0, g_literal = [],
      g_rh = NewRollingHash pooled backing (sg_BlockSize sig), g_reader = newFile,
      g_hashed = [], g_total = 0, g_eof = False\<rparr>"

definition GenerateDelta ::
  "(bytes \<Rightarrow> bytes) \<Rightarrow> RollingHash \<Rightarrow> bytes \<Rightarrow> reader \<Rightarrow> Signature \<Rightarrow> Delta res option" where
  "GenerateDelta H pooled backing newFile sig =
     (case fill_initial (nat (sg_BlockSize sig)) 0 (gd_init pooled backing newFile sig) of
        Inl e \<Rightarrow> Some (Inl e)
      | Inr st \<Rightarrow> map_option (map_sum id (gd_finish H)) (gd_loop H sig st))"

section \<open>Generating a signature\<close>

text \<open>
  A block size of zero, for which the loop would not make progress, never reaches it:
  \<open>GenerateSignature\<close> replaces it by the default. One iteration reads a block with \<open>io.ReadFull\<close>; a block that ends early, or an empty one, ends the
  loop. The block index is a \<open>uint32\<close>.
\<close>

function gs_loop :: "(bytes \<Rightarrow> bytes) \<Rightarrow> nat \<Rightarrow> reader \<Rightarrow> u32 \<Rightarrow> Signature \<Rightarrow> int \<Rightarrow> (Signature \<times> int) res"
where
  "gs_loop H bs r blockIndex sig fileSize =
     (case ReadFull bs r of
        (buf, err, r') \<Rightarrow>
          let upd = (if buf \<noteq> [] then
                       let (weak, strong) = ComputeBlockSignature H buf
                       in (AddBlock sig blockIndex weak strong, fileSize + int (length buf), blockIndex + 1)
                     else (sig, fileSize, blockIndex))
          in (case err of
                Some e \<Rightarrow>
                  if e = EOF \<or> e = ErrUnexpectedEOF then Inr (fst upd, fst (snd upd))
                  else Inl (ErrMsg ''reading block'' (io_msg e))
              | None \<Rightarrow>
                  if bs = 0 then Inr (fst upd, fst (snd upd))
                  else gs_loop H bs r' (snd (snd upd)) (fst upd) (fst (snd upd))))"
  by pat_completeness auto
termination
  by (relation "measure (\<lambda>(H, bs, r, i, s, f). length (rd_bytes r))")
     (auto simp: ReadFull_def split: if_splits)

declare gs_loop.simps [simp del]

definition GenerateSignature :: "(bytes \<Rightarrow> bytes) \<Rightarrow> reader \<Rightarrow> int \<Rightarrow> Signature res" where
  "GenerateSignature H r blockSize =
     (let bs = (if blockSize \<le> 0 then DefaultBlockSize else blockSize);
          sig = \<lparr>sg_BlockSize = bs, sg_FileSize = 0, sg_Blocks = [], sg_weakIndex = Map.empty\<rparr>
      in bind_r (gs_loop H (nat bs) r 0 sig 0) (\<lambda>(sig', fileSize).
           Inr (sig'\<lparr>sg_FileSize := fileSize\<rparr>)))"

section \<open>Applying a delta\<close>

text \<open>
  The loop over the operations: the error or the bytes that reached the hasher, which
  \<open>io.MultiWriter\<close> feeds after the destination accepted them, with the destination.
\<close>

fun apply_ops :: "DeltaOp list \<Rightarrow> (u32 \<Rightarrow> bytes res) \<Rightarrow> writer \<Rightarrow> bytes \<Rightarrow> bytes res \<times> writer" where
  "apply_ops [] oldBlocks w hashed = (Inr hashed, w)"
| "apply_ops (OpCopy i # ops) oldBlocks w hashed =
     (case oldBlocks i of
        Inl e \<Rightarrow> (Inl (Err ''getting block''), w)
      | Inr data \<Rightarrow>
          (case Write w data of
             (False, w') \<Rightarrow> (Inl (Err ''writing block''), w')
           | (True, w') \<Rightarrow> apply_ops ops oldBlocks w' (hashed @ data)))"
| "apply_ops (OpData d # ops) oldBlocks w hashed =
     (case Write w d of
        (False, w') \<Rightarrow> (Inl (Err ''writing literal''), w')
      | (True, w') \<Rightarrow> apply_ops ops oldBlocks w' (hashed @ d))"

definition ApplyDelta ::
  "(bytes \<Rightarrow> bytes) \<Rightarrow> Delta \<Rightarrow> (u32 \<Rightarrow> bytes res) \<Rightarrow> writer \<Rightarrow> unit res \<times> writer" where
  "ApplyDelta H d oldBlocks w =
     (case apply_ops (dl_Ops d) oldBlocks w [] of
        (Inl e, w') \<Rightarrow> (Inl e, w')
      | (Inr hashed, w') \<Rightarrow>
          if H hashed \<noteq> dl_NewFileHash d then (Inl (Err ''hash mismatch: file corrupted''), w')
          else if int (length hashed) \<noteq> dl_NewFileSize d then (Inl (Err ''size mismatch''), w')
          else (Inr (), w'))"

definition TransferSize :: "Delta \<Rightarrow> int" where
  "TransferSize d = int (length (dl_Ops d)) * 5 + dl_BytesLiteral d"

section \<open>One iteration of the generator\<close>

lemma emit_simps [simp]:
  "g_ops (emit bs st) = g_ops st" "g_rh (emit bs st) = g_rh st" "g_reader (emit bs st) = g_reader st"
  "g_eof (emit bs st) = g_eof st" "g_literal (emit bs st) = g_literal st @ bs"
  "g_hashed (emit bs st) = g_hashed st @ bs" "g_total (emit bs st) = g_total st + int (length bs)"
  "g_bytesCopied (emit bs st) = g_bytesCopied st" "g_bytesLiteral (emit bs st) = g_bytesLiteral st"
  by (simp_all add: emit_def)

lemma emit_Nil [simp]: "emit [] st = st"
  by (simp add: emit_def)

lemma emit_emit: "emit ys (emit xs st) = emit (xs @ ys) st"
  by (simp add: emit_def)

lemma rw_push:
  assumes "rh_inv n rh" and "length (rh_contents rh) < n"
  obtains rh' f where "rh_RollIn rh b = Inr (rh', f)" "rh_inv n rh'"
    "rh_contents rh' = rh_contents rh @ [b]"
  using rw.push_law [OF assms, of b] by blast

text \<open>
  Filling a window reads as many bytes as there are, up to \<open>n\<close>, and notes the end of the stream when
  there are fewer.
\<close>

lemma fill_next_spec:
  assumes "rh_inv bs (g_rh st)" and "length (rh_contents (g_rh st)) + n \<le> bs"
    and "rd_fail (g_reader st) = None"
  shows "\<exists>rh'. rh_inv bs rh' \<and>
    rh_contents rh' = rh_contents (g_rh st) @ take n (rd_bytes (g_reader st)) \<and>
    fill_next n pc st =
      Inr (st\<lparr>g_rh := rh', g_reader := (g_reader st)\<lparr>rd_bytes := drop n (rd_bytes (g_reader st))\<rparr>,
              g_eof := g_eof st \<or> length (rd_bytes (g_reader st)) < n\<rparr>,
           pc + int (min n (length (rd_bytes (g_reader st)))))"
  using assms
proof (induction n arbitrary: st pc)
  case 0
  then show ?case by auto
next
  case (Suc n)
  show ?case
  proof (cases "rd_bytes (g_reader st)")
    case Nil
    then have "ReadByte (g_reader st) = (Inl EOF, g_reader st)"
      using Suc.prems by (simp add: io_simps)
    then show ?thesis using Suc.prems Nil by (intro exI [of _ "g_rh st"]) simp
  next
    case (Cons b bytes)
    let ?r = "(g_reader st)\<lparr>rd_bytes := bytes\<rparr>"
    have rb: "ReadByte (g_reader st) = (Inr b, ?r)" using Cons by (simp add: io_simps)
    from Suc.prems have "length (rh_contents (g_rh st)) < bs" by simp
    with Suc.prems obtain rh1 f where rh1: "rh_RollIn (g_rh st) b = Inr (rh1, f)" "rh_inv bs rh1"
      "rh_contents rh1 = rh_contents (g_rh st) @ [b]" by (auto elim: rw_push [of bs "g_rh st" b])
    let ?st = "st\<lparr>g_rh := rh1, g_reader := ?r\<rparr>"
    from Suc.IH [of ?st "pc + 1"] Suc.prems rh1
    obtain rh' where "rh_inv bs rh'" "rh_contents rh' = rh_contents rh1 @ take n bytes"
      "fill_next n (pc + 1) ?st =
        Inr (?st\<lparr>g_rh := rh', g_reader := ?r\<lparr>rd_bytes := drop n bytes\<rparr>,
              g_eof := g_eof st \<or> length bytes < n\<rparr>, pc + 1 + int (min n (length bytes)))"
      by auto
    then show ?thesis
      using rh1 rb Cons by (intro exI [of _ rh']) (simp add: min_def)
  qed
qed

lemma fill_initial_spec:
  assumes "rh_inv bs (g_rh st)" and "length (rh_contents (g_rh st)) + n \<le> bs"
    and "rd_fail (g_reader st) = None"
  shows "\<exists>rh'. rh_inv bs rh' \<and>
    rh_contents rh' = rh_contents (g_rh st) @ take n (rd_bytes (g_reader st)) \<and>
    fill_initial n (int (length (rh_contents (g_rh st)))) st =
      Inr ((emit (if length (rd_bytes (g_reader st)) < n then rh_contents rh' else []) st)
        \<lparr>g_rh := rh', g_reader := (g_reader st)\<lparr>rd_bytes := drop n (rd_bytes (g_reader st))\<rparr>,
         g_eof := g_eof st \<or> length (rd_bytes (g_reader st)) < n\<rparr>)"
  using assms
proof (induction n arbitrary: st)
  case 0
  then show ?case by auto
next
  case (Suc n)
  let ?c = "rh_contents (g_rh st)"
  show ?case
  proof (cases "rd_bytes (g_reader st)")
    case Nil
    then have rb: "ReadByte (g_reader st) = (Inl EOF, g_reader st)"
      using Suc.prems by (simp add: io_simps)
    have "?c \<noteq> [] \<Longrightarrow> go_slice 0 (int (length ?c)) (?c @ z) = Inr ?c" for z
      by (simp add: go_slice_def)
    then show ?thesis
      using Suc.prems Nil rb rw.window_law [OF Suc.prems(1)]
      by (intro exI [of _ "g_rh st"]) auto
  next
    case (Cons b bytes)
    let ?r = "(g_reader st)\<lparr>rd_bytes := bytes\<rparr>"
    have rb: "ReadByte (g_reader st) = (Inr b, ?r)" using Cons by (simp add: io_simps)
    from Suc.prems have "length ?c < bs" by simp
    with Suc.prems obtain rh1 f where rh1: "rh_RollIn (g_rh st) b = Inr (rh1, f)" "rh_inv bs rh1"
      "rh_contents rh1 = ?c @ [b]" by (auto elim: rw_push [of bs "g_rh st" b])
    let ?st = "st\<lparr>g_rh := rh1, g_reader := ?r\<rparr>"
    from Suc.IH [of ?st] Suc.prems rh1
    obtain rh' where "rh_inv bs rh'" "rh_contents rh' = rh_contents rh1 @ take n bytes"
      "fill_initial n (int (length (rh_contents rh1))) ?st =
        Inr ((emit (if length bytes < n then rh_contents rh' else []) ?st)
          \<lparr>g_rh := rh', g_reader := ?r\<lparr>rd_bytes := drop n bytes\<rparr>,
           g_eof := g_eof st \<or> length bytes < n\<rparr>)"
      by auto
    moreover have "int (length (rh_contents rh1)) = int (length ?c) + 1" using rh1 by simp
    ultimately show ?thesis
      using rh1 rb Cons by (intro exI [of _ rh']) (simp add: emit_def add.commute)
  qed
qed

lemma rh_oldest:
  assumes "rh_inv n rh" and "length (rh_contents rh) = n"
  shows "bind_r (go_mod (rh_pos rh - rh_count rh + rh_size rh) (rh_size rh))
    (\<lambda>p. bind_r (go_index (rh_window rh) p) f) = f (hd (rh_contents rh))"
proof -
  from assms(1) have s: "rh_shape n rh" by (simp add: rh_inv_def)
  then have c: "0 \<le> rh_pos rh" "rh_pos rh < int n" "length (rh_window rh) = n"
      "rh_size rh = int n" "rh_count rh = int n" "nat (rh_pos rh) < length (rh_window rh)"
    using length_rh_contents [OF s] assms(2) by (auto simp: rh_shape_def)
  then have "hd (rh_contents rh) = rh_window rh ! nat (rh_pos rh)"
    by (simp add: rh_contents_def hd_drop_conv_nth)
  then show ?thesis using c by (simp add: go_index_def)
qed

lemma roll_step_spec:
  assumes inv: "rh_inv bs (g_rh st)" and full: "length (rh_contents (g_rh st)) = bs"
    and fl: "rd_fail (g_reader st) = None"
  shows "rd_bytes (g_reader st) = [] \<Longrightarrow>
      roll_step st = Inr ((emit (rh_contents (g_rh st)) st)\<lparr>g_eof := True\<rparr>)"
    and "rd_bytes (g_reader st) = b # bytes \<Longrightarrow>
      \<exists>rh'. roll_step st = Inr ((emit [hd (rh_contents (g_rh st))] st)
          \<lparr>g_rh := rh', g_reader := (g_reader st)\<lparr>rd_bytes := bytes\<rparr>\<rparr>) \<and>
        rh_inv bs rh' \<and> rh_contents rh' = tl (rh_contents (g_rh st)) @ [b]"
proof -
  let ?c = "rh_contents (g_rh st)"
  have ne: "?c \<noteq> []" using full rw.cap_pos [OF inv] by auto
  have isfull: "rh_IsFull (g_rh st)" using rw.full_law [OF inv] full by simp
  have emit: "bind_r (go_mod (rh_pos (g_rh st) - rh_count (g_rh st) + rh_size (g_rh st))
      (rh_size (g_rh st))) (\<lambda>p. bind_r (go_index (rh_window (g_rh st)) p)
        (\<lambda>oldestByte. Inr (emit [oldestByte] st))) = Inr (emit [hd ?c] st)"
    by (rule rh_oldest [OF inv full])
  have win: "rh_Window (g_rh st) = Inr ?c" using rw.window_law [OF inv] full by simp
  show "roll_step st = Inr ((emit ?c st)\<lparr>g_eof := True\<rparr>)" if "rd_bytes (g_reader st) = []"
  proof -
    have "go_slice 1 (int (length ?c)) ?c = Inr (tl ?c)"
      using ne by (cases ?c) (simp_all add: go_slice_def subslice_def)
    moreover have "emit (tl ?c) (emit [hd ?c] st) = emit ?c st"
      using ne by (simp add: emit_emit)
    ultimately show ?thesis
      using that fl isfull emit win by (simp add: roll_step_def ReadByte_def)
  qed
  show "\<exists>rh'. roll_step st = Inr ((emit [hd ?c] st)
        \<lparr>g_rh := rh', g_reader := (g_reader st)\<lparr>rd_bytes := bytes\<rparr>\<rparr>) \<and>
      rh_inv bs rh' \<and> rh_contents rh' = tl ?c @ [b]" if "rd_bytes (g_reader st) = b # bytes"
    using that rw.slide_law [OF inv full, of b] isfull emit
    by (auto simp: roll_step_def ReadByte_def)
qed

section \<open>The invariant of the generator\<close>

text \<open>The bytes a list of operations stands for, when \<open>blk\<close> gives the old blocks.\<close>

definition expand :: "(u32 \<Rightarrow> bytes) \<Rightarrow> DeltaOp list \<Rightarrow> bytes" where
  "expand blk ops = concat (map (\<lambda>op. case op of OpCopy i \<Rightarrow> blk i | OpData d \<Rightarrow> d) ops)"

lemma expand_append [simp]: "expand blk (xs @ ys) = expand blk xs @ expand blk ys"
  by (simp add: expand_def)

lemma expand_simps [simp]:
  "expand blk [] = []"
  "expand blk (OpCopy i # ops) = blk i @ expand blk ops"
  "expand blk (OpData d # ops) = d @ expand blk ops"
  by (simp_all add: expand_def)

text \<open>
  A strong hash identifies the block: a piece of the new file whose digest is the strong hash of a
  block of the signature is that block of the old file.
\<close>

definition match_sound :: "(bytes \<Rightarrow> bytes) \<Rightarrow> Signature \<Rightarrow> (u32 \<Rightarrow> bytes) \<Rightarrow> bytes \<Rightarrow> nat \<Rightarrow> bool" where
  "match_sound H sig blk new bs \<longleftrightarrow>
     (\<forall>b \<in> set (sg_Blocks sig). \<forall>w. sublist w new \<longrightarrow> length w \<le> bs \<longrightarrow>
        H w = bs_StrongHash b \<longrightarrow> blk (bs_Index b) = w)"

definition copied :: "DeltaOp list \<Rightarrow> u32 set" where
  "copied ops = {i. OpCopy i \<in> set ops}"

lemma copied_simps [simp]:
  "copied [] = {}" "copied (xs @ ys) = copied xs \<union> copied ys"
  "copied (OpCopy i # ops) = insert i (copied ops)" "copied (OpData d # ops) = copied ops"
  by (auto simp: copied_def)

definition gen_inv :: "nat \<Rightarrow> Signature \<Rightarrow> (u32 \<Rightarrow> bytes) \<Rightarrow> bytes \<Rightarrow> gen_state \<Rightarrow> bool" where
  "gen_inv bs sig blk new st \<longleftrightarrow>
     expand blk (g_ops st) @ g_literal st = g_hashed st \<and>
     copied (g_ops st) \<subseteq> bs_Index ` set (sg_Blocks sig) \<and> OpData [] \<notin> set (g_ops st) \<and>
     g_total st = int (length (g_hashed st)) \<and>
     g_bytesCopied st + g_bytesLiteral st + int (length (g_literal st)) = g_total st \<and>
     rd_fail (g_reader st) = None \<and>
     (if g_eof st then g_hashed st = new
      else rh_inv bs (g_rh st) \<and> length (rh_contents (g_rh st)) = bs \<and>
           g_hashed st @ rh_contents (g_rh st) @ rd_bytes (g_reader st) = new)"

lemma find_match_sound:
  "find_match sig h is = Some b \<Longrightarrow> b \<in> set (sg_Blocks sig) \<and> bs_StrongHash b = h"
  by (induction "is") (auto simp: GetBlock_def split: option.splits if_splits)

lemma match_soundD:
  assumes "match_sound H sig blk new bs" and "find_match sig (H w) is = Some b"
    and "length w \<le> bs" and "new = xs @ w @ ys"
  shows "blk (bs_Index b) = w"
  using assms find_match_sound [OF assms(2)] unfolding match_sound_def by auto

lemma flush_literal_simps [simp]:
  "g_literal (flush_literal st) = []" "g_hashed (flush_literal st) = g_hashed st"
  "g_total (flush_literal st) = g_total st" "g_rh (flush_literal st) = g_rh st"
  "g_reader (flush_literal st) = g_reader st" "g_eof (flush_literal st) = g_eof st"
  "g_bytesCopied (flush_literal st) = g_bytesCopied st"
  "g_bytesLiteral (flush_literal st) = g_bytesLiteral st + int (length (g_literal st))"
  "expand blk (g_ops (flush_literal st)) = expand blk (g_ops st) @ g_literal st"
  "copied (g_ops (flush_literal st)) = copied (g_ops st)"
  "OpData [] \<in> set (g_ops (flush_literal st)) \<longleftrightarrow> OpData [] \<in> set (g_ops st)"
  by (auto simp: flush_literal_def)

lemma emit_copy_simps [simp]:
  "g_literal (emit_copy b n w st) = g_literal st" "g_hashed (emit_copy b n w st) = g_hashed st @ w"
  "g_total (emit_copy b n w st) = g_total st + int (length w)"
  "g_rh (emit_copy b n w st) = g_rh st" "g_reader (emit_copy b n w st) = g_reader st"
  "g_eof (emit_copy b n w st) = g_eof st"
  "g_bytesCopied (emit_copy b n w st) = g_bytesCopied st + n"
  "g_bytesLiteral (emit_copy b n w st) = g_bytesLiteral st"
  "g_ops (emit_copy b n w st) = g_ops st @ [OpCopy (bs_Index b)]"
  by (simp_all add: emit_copy_def)

lemma handle_match_inv:
  assumes inv: "gen_inv bs sig blk new st" and ne: "\<not> g_eof st" and sz: "sg_BlockSize sig = int bs"
    and snd: "match_sound H sig blk new bs"
    and copy: "blk (bs_Index block) = rh_contents (g_rh st)" and mem: "block \<in> set (sg_Blocks sig)"
  shows "\<exists>st'. handle_match H sig st (rh_contents (g_rh st)) block = Inr st' \<and> gen_inv bs sig blk new st' \<and>
    (g_eof st' \<or> length (rd_bytes (g_reader st')) < length (rd_bytes (g_reader st)))"
proof -
  let ?w = "rh_contents (g_rh st)" and ?xs = "rd_bytes (g_reader st)"
  define st1 where "st1 = emit_copy block (int bs) ?w (flush_literal st)"
  define st2 where "st2 = st1\<lparr>g_rh := rh_Reset (g_rh st1) (int bs)\<rparr>"
  from inv ne have i: "rh_inv bs (g_rh st)" "length ?w = bs" "g_hashed st @ ?w @ ?xs = new"
    "rd_fail (g_reader st) = None" "expand blk (g_ops st) @ g_literal st = g_hashed st"
    "g_total st = int (length (g_hashed st))"
    "g_bytesCopied st + g_bytesLiteral st + int (length (g_literal st)) = g_total st"
    "copied (g_ops st) \<subseteq> bs_Index ` set (sg_Blocks sig)" "OpData [] \<notin> set (g_ops st)"
    by (auto simp: gen_inv_def)
  have bs0: "0 < bs" using i(1) by (rule rw.cap_pos)
  have s2: "rh_inv bs (g_rh st2)" "rh_contents (g_rh st2) = []" "g_reader st2 = g_reader st"
      "\<not> g_eof st2" "g_hashed st2 = g_hashed st @ ?w" "g_literal st2 = []"
      "expand blk (g_ops st2) = g_hashed st @ ?w" "g_total st2 = g_total st + int bs"
      "g_bytesCopied st2 + g_bytesLiteral st2 = g_total st2"
      "copied (g_ops st2) \<subseteq> bs_Index ` set (sg_Blocks sig)" "OpData [] \<notin> set (g_ops st2)"
    using rw.reset_law [OF i(1)] ne i copy mem by (simp_all add: st2_def st1_def)
  from fill_next_spec [of bs st2 bs 0] s2 i obtain rh' where
    rh': "rh_inv bs rh'" "rh_contents rh' = take bs ?xs" and
    fn: "fill_next bs 0 st2 = Inr (st2\<lparr>g_rh := rh', g_reader := (g_reader st)\<lparr>rd_bytes := drop bs ?xs\<rparr>,
      g_eof := length ?xs < bs\<rparr>, int (min bs (length ?xs)))"
    by auto
  define st3 where "st3 = st2\<lparr>g_rh := rh', g_reader := (g_reader st)\<lparr>rd_bytes := drop bs ?xs\<rparr>,
      g_eof := length ?xs < bs\<rparr>"
  have hm: "handle_match H sig st ?w block =
      (if length ?xs < bs \<and> ?xs \<noteq> [] then
         (case find_match sig (H ?xs) (FindByWeakHash sig (weak_hash ?xs)) of
            Some pBlock \<Rightarrow> Inr (emit_copy pBlock (int (length ?xs)) ?xs st3)
          | None \<Rightarrow> Inr (emit ?xs st3))
       else Inr st3)"
  proof (cases "length ?xs < bs \<and> ?xs \<noteq> []")
    case True
    then have "rh_Window rh' = Inr (?xs @ replicate (bs - length ?xs) 0)"
      using rw.window_law [OF rh'(1)] rh'(2) by simp
    moreover have "go_slice 0 (int (length ?xs)) (?xs @ replicate (bs - length ?xs) 0) = Inr ?xs"
      by (simp add: go_slice_def)
    ultimately show ?thesis
      using True fn sz by (simp add: handle_match_def st2_def st1_def st3_def Let_def
          ComputeBlockSignature_def min_def split: option.split)
  next
    case False
    then show ?thesis
      using fn sz bs0 by (auto simp: handle_match_def st2_def st1_def st3_def Let_def min_def)
  qed
  show ?thesis
  proof (cases "length ?xs < bs \<and> ?xs \<noteq> []")
    case True
    have new: "new = (g_hashed st @ ?w) @ ?xs @ []" using i by simp
    show ?thesis
    proof (cases "find_match sig (H ?xs) (FindByWeakHash sig (weak_hash ?xs))")
      case None
      then show ?thesis
        using True hm s2 i new by (simp add: gen_inv_def st3_def)
    next
      case (Some pb)
      then have "blk (bs_Index pb) = ?xs"
        using match_soundD [OF snd Some _ new] True by simp
      moreover have "bs_Index pb \<in> bs_Index ` set (sg_Blocks sig)"
        using find_match_sound [OF Some] by simp
      ultimately show ?thesis
        using True hm Some s2 i new by (simp add: gen_inv_def st3_def)
    qed
  next
    case no_partial: False
    show ?thesis
    proof (cases "length ?xs < bs")
      case True
      then have "?xs = []" using no_partial by simp
      moreover have "length new = length (g_hashed st) + bs"
        using i(2) \<open>?xs = []\<close> by (simp flip: i(3))
      ultimately show ?thesis using True hm s2 i by (simp add: gen_inv_def st3_def)
    next
      case False
      then have "length (drop bs ?xs) < length ?xs" using bs0 by (simp del: length_greater_0_conv)
      with False show ?thesis using hm s2 i rh' by (simp add: gen_inv_def st3_def)
    qed
  qed
qed

lemma roll_step_inv:
  assumes inv: "gen_inv bs sig blk new st" and ne: "\<not> g_eof st"
  shows "\<exists>st'. roll_step st = Inr st' \<and> gen_inv bs sig blk new st' \<and>
    (g_eof st' \<or> length (rd_bytes (g_reader st')) < length (rd_bytes (g_reader st)))"
proof -
  from inv ne have i: "rh_inv bs (g_rh st)" "length (rh_contents (g_rh st)) = bs"
      "rd_fail (g_reader st) = None" by (auto simp: gen_inv_def)
  then have c: "rh_contents (g_rh st) = hd (rh_contents (g_rh st)) # tl (rh_contents (g_rh st))"
    using rw.cap_pos [OF i(1)] by (cases "rh_contents (g_rh st)") auto
  show ?thesis
  proof (cases "rd_bytes (g_reader st)")
    case Nil
    then show ?thesis
      using roll_step_spec(1) [OF i Nil] inv ne
      by (simp add: gen_inv_def) (metis append.assoc length_append of_nat_add)
  next
    case (Cons b bytes)
    from roll_step_spec(2) [OF i Cons] obtain rh' where
      r: "roll_step st = Inr ((emit [hd (rh_contents (g_rh st))] st)
          \<lparr>g_rh := rh', g_reader := (g_reader st)\<lparr>rd_bytes := bytes\<rparr>\<rparr>)"
        "rh_inv bs rh'" "rh_contents rh' = tl (rh_contents (g_rh st)) @ [b]" by auto
    have "g_hashed st @ (hd (rh_contents (g_rh st)) # tl (rh_contents (g_rh st))) @ b # bytes = new"
      using inv ne Cons c by (simp add: gen_inv_def)
    moreover have "length (tl (rh_contents (g_rh st))) + 1 = bs" using c i by (metis length_Cons add.commute plus_1_eq_Suc)
    ultimately show ?thesis
      using r inv ne Cons by (simp add: gen_inv_def)
  qed
qed

lemma gd_step_inv:
  assumes inv: "gen_inv bs sig blk new st" and ne: "\<not> g_eof st" and sz: "sg_BlockSize sig = int bs"
    and snd: "match_sound H sig blk new bs"
  shows "\<exists>st'. gd_step H sig st = Inr st' \<and> gen_inv bs sig blk new st' \<and>
    (g_eof st' \<or> length (rd_bytes (g_reader st')) < length (rd_bytes (g_reader st)))"
proof -
  let ?w = "rh_contents (g_rh st)"
  from inv ne have i: "rh_inv bs (g_rh st)" "length ?w = bs"
      "new = g_hashed st @ ?w @ rd_bytes (g_reader st)" by (auto simp: gen_inv_def)
  have win: "rh_Window (g_rh st) = Inr ?w" using rw.window_law [OF i(1)] i(2) by simp
  show ?thesis
  proof (cases "find_match sig (H ?w) (FindByWeakHash sig (rh_Sum (g_rh st)))")
    case None
    then show ?thesis
      using roll_step_inv [OF inv ne] win by (simp add: gd_step_def ComputeBlockSignature_def Let_def)
  next
    case (Some block)
    then have "FindByWeakHash sig (rh_Sum (g_rh st)) \<noteq> []" by auto
    moreover have "rh_IsFull (g_rh st)" using rw.full_law [OF i(1)] i(2) by simp
    ultimately have "gd_step H sig st = handle_match H sig st ?w block"
      using Some win by (simp add: gd_step_def ComputeBlockSignature_def Let_def)
    moreover have "blk (bs_Index block) = ?w"
      using match_soundD [OF snd Some _ i(3)] i(2) by simp
    moreover have "block \<in> set (sg_Blocks sig)" using find_match_sound [OF Some] by simp
    ultimately show ?thesis using handle_match_inv [OF inv ne sz snd] by simp
  qed
qed

text \<open>The loop ends, and it ends with the whole input accounted for.\<close>

lemma gd_loop_measure:
  assumes step: "\<And>st. P st \<Longrightarrow> \<not> g_eof st \<Longrightarrow> \<exists>st'. gd_step H sig st = Inr st' \<and> P st' \<and>
      (g_eof st' \<or> length (rd_bytes (g_reader st')) < length (rd_bytes (g_reader st)))"
    and "P st"
  shows "\<exists>st'. gd_loop H sig st = Some (Inr st') \<and> P st' \<and> g_eof st'"
  using assms(2)
proof (induction "length (rd_bytes (g_reader st))" arbitrary: st rule: less_induct)
  case less
  show ?case
  proof (cases "g_eof st")
    case True
    then show ?thesis using less.prems by (simp add: gd_loop.simps [of H sig st])
  next
    case False
    from step [OF less.prems False] obtain st1 where
      s: "gd_step H sig st = Inr st1" "P st1"
        "g_eof st1 \<or> length (rd_bytes (g_reader st1)) < length (rd_bytes (g_reader st))" by auto
    have "\<exists>st'. gd_loop H sig st1 = Some (Inr st') \<and> P st' \<and> g_eof st'"
    proof (cases "g_eof st1")
      case True
      then show ?thesis using s by (simp add: gd_loop.simps [of H sig st1])
    next
      case False
      then show ?thesis using s less.hyps [of st1] by simp
    qed
    then show ?thesis using False s by (simp add: gd_loop.simps [of H sig st])
  qed
qed

lemma gd_loop_total:
  assumes "gen_inv bs sig blk new st" and "sg_BlockSize sig = int bs" and "match_sound H sig blk new bs"
  shows "\<exists>st'. gd_loop H sig st = Some (Inr st') \<and> gen_inv bs sig blk new st' \<and> g_eof st'"
  using gd_step_inv [OF _ _ assms(2,3)] assms(1) by (rule gd_loop_measure)

lemma gd_finish_inv:
  assumes "gen_inv bs sig blk new st" and "g_eof st"
  shows "expand blk (dl_Ops (gd_finish H st)) = new" and "dl_NewFileHash (gd_finish H st) = H new"
    and "dl_NewFileSize (gd_finish H st) = int (length new)"
    and "dl_BytesCopied (gd_finish H st) + dl_BytesLiteral (gd_finish H st) = int (length new)"
    and "copied (dl_Ops (gd_finish H st)) \<subseteq> bs_Index ` set (sg_Blocks sig)"
    and "OpData [] \<notin> set (dl_Ops (gd_finish H st))"
  using assms by (auto simp: gd_finish_def gen_inv_def Let_def)

lemma GenerateDelta_correct:
  assumes bs: "0 < bs" "bs \<le> 65536" and sz: "sg_BlockSize sig = int bs"
    and snd: "match_sound H sig blk new bs"
  shows "\<exists>d. GenerateDelta H pooled backing (reader_of new) sig = Some (Inr d) \<and>
    expand blk (dl_Ops d) = new \<and> dl_NewFileHash d = H new \<and> dl_NewFileSize d = int (length new) \<and>
    dl_BytesCopied d + dl_BytesLiteral d = int (length new) \<and>
    copied (dl_Ops d) \<subseteq> bs_Index ` set (sg_Blocks sig) \<and> OpData [] \<notin> set (dl_Ops d)"
proof -
  let ?st0 = "gd_init pooled backing (reader_of new) sig"
  have rh: "rh_inv bs (g_rh ?st0)" "rh_contents (g_rh ?st0) = []"
    using NewRollingHash_inv [OF bs, of pooled backing] sz by (simp_all add: gd_init_def)
  from fill_initial_spec [of bs ?st0 bs] rh obtain st1 where
    f: "fill_initial bs 0 ?st0 = Inr st1" and "gen_inv bs sig blk new st1"
    by (auto simp: gd_init_def gen_inv_def)
  from gd_loop_total [OF this(2) sz snd] obtain st2 where
    l: "gd_loop H sig st1 = Some (Inr st2)" "gen_inv bs sig blk new st2" "g_eof st2" by auto
  have "GenerateDelta H pooled backing (reader_of new) sig = Some (Inr (gd_finish H st2))"
    using f l by (simp add: GenerateDelta_def sz)
  then show ?thesis using gd_finish_inv [OF l(2,3)] by auto
qed

section \<open>Signatures of files\<close>

fun add_data :: "(bytes \<Rightarrow> bytes) \<Rightarrow> u32 \<Rightarrow> Signature \<Rightarrow> bytes list \<Rightarrow> Signature" where
  "add_data H i s [] = s"
| "add_data H i s (d # ds) = add_data H (i + 1) (AddBlock s i (weak_hash d) (H d)) ds"

lemma add_data_simps [simp]:
  "sg_BlockSize (add_data H i s ds) = sg_BlockSize s"
  "sg_FileSize (add_data H i s ds) = sg_FileSize s"
  by (induction H i s ds rule: add_data.induct) simp_all

lemma add_data_inv: "sig_inv s \<Longrightarrow> sig_inv (add_data H i s ds)"
  by (induction H i s ds rule: add_data.induct) (simp_all add: AddBlock_inv)

definition block_sig :: "(bytes \<Rightarrow> bytes) \<Rightarrow> u32 \<Rightarrow> bytes \<Rightarrow> BlockSignature" where
  "block_sig H i d = \<lparr>bs_Index = i, bs_WeakHash = weak_hash d, bs_StrongHash = H d\<rparr>"

lemma add_data_Blocks:
  "sg_Blocks (add_data H i s ds) =
    sg_Blocks s @ map (\<lambda>k. block_sig H (i + of_nat k) (ds ! k)) [0..<length ds]"
proof (induction H i s ds rule: add_data.induct)
  case (1 H i s)
  show ?case by simp
next
  case (2 H i s d ds)
  have "[0..<length (d # ds)] = 0 # map Suc [0..<length ds]"
    by (simp add: map_Suc_upt upt_conv_Cons del: upt_Suc)
  then show ?case using 2 by (simp add: block_sig_def comp_def add.assoc del: upt_Suc)
qed

lemma gs_loop_spec:
  assumes "0 < bs" and "rd_fail r = None"
  shows "gs_loop H bs r i s f =
    Inr (add_data H i s (blocks bs (rd_bytes r)), f + int (length (rd_bytes r)))"
  using assms
proof (induction H bs r i s f rule: gs_loop.induct)
  case (1 H bs r i s f)
  show ?case
  proof (cases "bs \<le> length (rd_bytes r)")
    case True
    then have ne: "rd_bytes r \<noteq> []" using 1(2) by auto
    let ?r = "r\<lparr>rd_bytes := drop bs (rd_bytes r)\<rparr>"
    have rf: "ReadFull bs r = (take bs (rd_bytes r), None, ?r)"
      using True by (simp add: ReadFull_def)
    have "gs_loop H bs r i s f = gs_loop H bs ?r (i + 1)
        (AddBlock s i (weak_hash (take bs (rd_bytes r))) (H (take bs (rd_bytes r)))) (f + int bs)"
      using rf ne True 1(2)
      by (subst gs_loop.simps) (simp add: ComputeBlockSignature_def Let_def)
    also have "\<dots> = Inr (add_data H i s (blocks bs (rd_bytes r)), f + int (length (rd_bytes r)))"
      using 1 rf ne True by (simp add: ComputeBlockSignature_def Let_def blocks_step)
    finally show ?thesis .
  next
    case False
    then show ?thesis
      using 1(2,3)
      by (subst gs_loop.simps)
         (auto simp: ReadFull_def ComputeBlockSignature_def Let_def blocks_step)
  qed
qed

lemma GenerateSignature_spec:
  assumes "0 < bs"
  shows "\<exists>sig. GenerateSignature H (reader_of old) (int bs) = Inr sig \<and> sig_inv sig \<and>
    sg_BlockSize sig = int bs \<and> sg_FileSize sig = int (length old) \<and>
    sg_Blocks sig = map (\<lambda>k. block_sig H (of_nat k) (blocks bs old ! k)) [0..<length (blocks bs old)]"
proof -
  let ?s0 = "\<lparr>sg_BlockSize = int bs, sg_FileSize = 0, sg_Blocks = [], sg_weakIndex = Map.empty\<rparr>"
  let ?s = "add_data H 0 ?s0 (blocks bs old)"
  have "GenerateSignature H (reader_of old) (int bs) = Inr (?s\<lparr>sg_FileSize := int (length old)\<rparr>)"
    using assms by (simp add: GenerateSignature_def gs_loop_spec Let_def)
  moreover have "sig_inv ?s" by (intro add_data_inv sig_inv_empty) simp_all
  then have "sig_inv (?s\<lparr>sg_FileSize := int (length old)\<rparr>)" by (simp add: sig_inv_def)
  ultimately show ?thesis by (simp add: add_data_Blocks)
qed

section \<open>Applying a generated delta\<close>

lemma apply_ops_expand:
  assumes "\<forall>i \<in> copied ops. ob i = Inr (blk i)" and "wr_room w = None"
  shows "apply_ops ops ob w h =
    (Inr (h @ expand blk ops), w\<lparr>wr_bytes := wr_bytes w @ expand blk ops\<rparr>)"
  using assms
proof (induction ops arbitrary: w h)
  case Nil
  then show ?case by simp
next
  case (Cons op ops)
  then show ?case by (cases op) (simp_all add: Write_def)
qed

lemma ApplyDelta_expand:
  assumes "\<forall>i \<in> copied (dl_Ops d). ob i = Inr (blk i)" and "wr_room w = None"
    and "dl_NewFileHash d = H (expand blk (dl_Ops d))"
    and "dl_NewFileSize d = int (length (expand blk (dl_Ops d)))"
  shows "ApplyDelta H d ob w = (Inr (), w\<lparr>wr_bytes := wr_bytes w @ expand blk (dl_Ops d)\<rparr>)"
  using apply_ops_expand [OF assms(1,2), of "[]"] assms(3,4) by (simp add: ApplyDelta_def)

lemma nth_block_copy:
  assumes "length bl \<le> 2 ^ 32" and "\<forall>k < length bl. ob (of_nat k) = Inr (bl ! k)"
    and "i \<in> bs_Index ` set (map (\<lambda>k. block_sig H (of_nat k) (bl ! k)) [0..<length bl])"
  shows "ob i = Inr (bl ! unat i)" and "unat i < length bl"
proof -
  from assms(3) obtain k where k: "k < length bl" "i = of_nat k" by (auto simp: block_sig_def)
  then have "unat i = k" using assms(1) by simp
  then show "ob i = Inr (bl ! unat i)" "unat i < length bl" using k assms(2) by auto
qed

lemma match_sound_blocks:
  assumes "length (blocks bs old) \<le> 2 ^ 32"
    and "sg_Blocks sig = map (\<lambda>k. block_sig H (of_nat k) (blocks bs old ! k)) [0..<length (blocks bs old)]"
    and "collision_free H (set (blocks bs old) \<union> {w. sublist w new \<and> length w \<le> bs})"
  shows "match_sound H sig (\<lambda>i. blocks bs old ! unat i) new bs"
  unfolding match_sound_def
proof (intro ballI allI impI)
  fix b w
  assume b: "b \<in> set (sg_Blocks sig)" and w: "sublist w new" "length w \<le> bs" "H w = bs_StrongHash b"
  then obtain k where k: "k < length (blocks bs old)" "b = block_sig H (of_nat k) (blocks bs old ! k)"
    using assms(2) by auto
  then have "H w = H (blocks bs old ! k)" using w by (simp add: block_sig_def)
  then have "w = blocks bs old ! k"
    using collision_freeD [OF assms(3), of w "blocks bs old ! k"] w k by auto
  moreover have "unat (of_nat k :: u32) = k" using k assms(1) by simp
  ultimately show "blocks bs old ! unat (bs_Index b) = w"
    using k by (simp add: block_sig_def)
qed

section \<open>Unchanged files\<close>

lemma find_match_exists:
  "k \<in> set is \<Longrightarrow> GetBlock sig (int k) = Some b \<Longrightarrow> bs_StrongHash b = h \<Longrightarrow>
    find_match sig h is \<noteq> None"
  by (induction "is") (auto split: option.splits)

lemma find_match_block:
  assumes "sig_inv sig" and "d \<in> set ds"
    and "sg_Blocks sig = map (\<lambda>k. block_sig H (of_nat k) (ds ! k)) [0..<length ds]"
  obtains b where "find_match sig (H d) (FindByWeakHash sig (weak_hash d)) = Some b"
proof -
  from assms(2) obtain k where k: "k < length ds" "ds ! k = d" by (auto simp: in_set_conv_nth)
  then have "k \<in> set (FindByWeakHash sig (weak_hash d))"
    using assms by (simp add: FindByWeakHash_inv set_weak_positions block_sig_def)
  moreover have "GetBlock sig (int k) = Some (block_sig H (of_nat k) d)"
    using k assms(3) by simp
  ultimately show thesis
    using find_match_exists [of k _ sig] that by (fastforce simp: block_sig_def)
qed

text \<open>While the input is the old file, what is left to read is a suffix of its blocks.\<close>

definition same_inv :: "nat \<Rightarrow> bytes \<Rightarrow> gen_state \<Rightarrow> bool" where
  "same_inv bs old st \<longleftrightarrow>
     g_literal st = [] \<and> g_bytesLiteral st = 0 \<and> (\<forall>x. OpData x \<notin> set (g_ops st)) \<and>
     rd_fail (g_reader st) = None \<and>
     (g_eof st \<or>
      (rh_inv bs (g_rh st) \<and> length (rh_contents (g_rh st)) = bs \<and>
       suffix (blocks bs (rh_contents (g_rh st) @ rd_bytes (g_reader st))) (blocks bs old)))"

lemma blocks_append: "0 < bs \<Longrightarrow> length w = bs \<Longrightarrow> blocks bs (w @ xs) = w # blocks bs xs"
  by (cases "w = []") (simp_all add: blocks_step)

lemma suffix_blocks_drop:
  assumes "0 < bs" and "suffix (blocks bs xs) ds" and "bs \<le> length xs"
  shows "suffix (blocks bs (drop bs xs)) ds" and "take bs xs \<in> set ds"
proof -
  have "blocks bs xs = take bs xs # blocks bs (drop bs xs)"
    using assms by (intro blocks_step) auto
  with assms(2) show "suffix (blocks bs (drop bs xs)) ds" "take bs xs \<in> set ds"
    by (auto simp: suffix_def)
qed

lemma gd_step_same:
  assumes inv: "same_inv bs old st" and ne: "\<not> g_eof st" and sz: "sg_BlockSize sig = int bs"
    and sg: "sig_inv sig"
      "sg_Blocks sig = map (\<lambda>k. block_sig H (of_nat k) (blocks bs old ! k)) [0..<length (blocks bs old)]"
  shows "\<exists>st'. gd_step H sig st = Inr st' \<and> same_inv bs old st' \<and>
    (g_eof st' \<or> length (rd_bytes (g_reader st')) < length (rd_bytes (g_reader st)))"
proof -
  let ?w = "rh_contents (g_rh st)" and ?xs = "rd_bytes (g_reader st)"
  from inv ne have i: "rh_inv bs (g_rh st)" "length ?w = bs" "suffix (blocks bs (?w @ ?xs)) (blocks bs old)"
      "rd_fail (g_reader st) = None" "g_literal st = []" "g_bytesLiteral st = 0"
      "\<forall>x. OpData x \<notin> set (g_ops st)"
    by (auto simp: same_inv_def)
  have bs0: "0 < bs" using i(1) by (rule rw.cap_pos)
  from suffix_blocks_drop [OF bs0 i(3)] i(2)
  have suf: "suffix (blocks bs ?xs) (blocks bs old)" and mem: "?w \<in> set (blocks bs old)" by auto
  obtain b where b: "find_match sig (H ?w) (FindByWeakHash sig (weak_hash ?w)) = Some b"
    using find_match_block [OF sg(1) mem sg(2)] .
  have win: "rh_Window (g_rh st) = Inr ?w" using rw.window_law [OF i(1)] i(2) by simp
  have "FindByWeakHash sig (weak_hash ?w) \<noteq> []" using b by auto
  then have step: "gd_step H sig st = handle_match H sig st ?w b"
    using b win i rw.full_law [OF i(1)] rw.digest_law [OF i(1)]
    by (simp add: gd_step_def ComputeBlockSignature_def Let_def)
  define st2 where "st2 = (emit_copy b (int bs) ?w (flush_literal st))
      \<lparr>g_rh := rh_Reset (g_rh st) (int bs)\<rparr>"
  have s2: "rh_inv bs (g_rh st2)" "rh_contents (g_rh st2) = []" "g_reader st2 = g_reader st"
      "\<not> g_eof st2" "g_literal st2 = []" "g_bytesLiteral st2 = 0" "\<forall>x. OpData x \<notin> set (g_ops st2)"
    using rw.reset_law [OF i(1)] ne i by (simp_all add: st2_def emit_copy_def flush_literal_def)
  from fill_next_spec [of bs st2 bs 0] s2 i obtain rh' where
    rh': "rh_inv bs rh'" "rh_contents rh' = take bs ?xs" and
    fn: "fill_next bs 0 st2 = Inr (st2\<lparr>g_rh := rh', g_reader := (g_reader st)\<lparr>rd_bytes := drop bs ?xs\<rparr>,
      g_eof := length ?xs < bs\<rparr>, int (min bs (length ?xs)))"
    by auto
  show ?thesis
  proof (cases "length ?xs < bs \<and> ?xs \<noteq> []")
    case True
    then have "?xs \<in> set (blocks bs old)"
      using suf bs0 by (auto simp: suffix_def blocks_step)
    then obtain pb where pb: "find_match sig (H ?xs) (FindByWeakHash sig (weak_hash ?xs)) = Some pb"
      using find_match_block [OF sg(1) _ sg(2)] by blast
    have "rh_Window rh' = Inr (?xs @ replicate (bs - length ?xs) 0)"
      using True rw.window_law [OF rh'(1)] rh'(2) by simp
    moreover have "go_slice 0 (int (length ?xs)) (?xs @ replicate (bs - length ?xs) 0) = Inr ?xs"
      by (simp add: go_slice_def)
    ultimately show ?thesis
      using True fn sz pb s2 i step
      by (simp add: handle_match_def st2_def Let_def ComputeBlockSignature_def min_def same_inv_def)
  next
    case False
    then show ?thesis
      using fn sz step s2 i rh' bs0 suf
      by (auto simp del: length_greater_0_conv simp: handle_match_def st2_def Let_def same_inv_def min_def)
  qed
qed

lemma GenerateDelta_same:
  assumes bs: "0 < bs" "bs \<le> 65536" and sz: "sg_BlockSize sig = int bs" and long: "bs \<le> length old"
    and sg: "sig_inv sig"
      "sg_Blocks sig = map (\<lambda>k. block_sig H (of_nat k) (blocks bs old ! k)) [0..<length (blocks bs old)]"
  shows "\<exists>d. GenerateDelta H pooled backing (reader_of old) sig = Some (Inr d) \<and>
    dl_BytesLiteral d = 0 \<and> (\<forall>x. OpData x \<notin> set (dl_Ops d))"
proof -
  let ?st0 = "gd_init pooled backing (reader_of old) sig"
  have rh: "rh_inv bs (g_rh ?st0)" "rh_contents (g_rh ?st0) = []"
    using NewRollingHash_inv [OF bs, of pooled backing] sz by (simp_all add: gd_init_def)
  from fill_initial_spec [of bs ?st0 bs] rh long obtain st1 where
    f: "fill_initial bs 0 ?st0 = Inr st1" and "same_inv bs old st1"
    by (auto simp: gd_init_def same_inv_def emit_def)
  from gd_loop_measure [OF gd_step_same [OF _ _ sz sg] this(2)] obtain st2 where
    l: "gd_loop H sig st1 = Some (Inr st2)" "same_inv bs old st2" by auto
  have "GenerateDelta H pooled backing (reader_of old) sig = Some (Inr (gd_finish H st2))"
    using f l by (simp add: GenerateDelta_def sz)
  then show ?thesis using l(2) by (auto simp: gd_finish_def same_inv_def flush_literal_def)
qed


section \<open>Deltas on the wire\<close>

definition delta_encodable :: "Delta \<Rightarrow> bool" where
  "delta_encodable d \<longleftrightarrow>
     length (dl_NewFileHash d) = 32 \<and> - (2 ^ 63) \<le> dl_NewFileSize d \<and> dl_NewFileSize d < 2 ^ 63 \<and>
     length (dl_Ops d) < 2 ^ 32 \<and> (\<forall>x. OpData x \<in> set (dl_Ops d) \<longrightarrow> length x < 2 ^ 32)"

lemma decode_ops_encode:
  assumes "\<forall>x. OpData x \<in> set ops \<longrightarrow> length x < 2 ^ 32"
  shows "decode_ops (length ops) (pre @ concat (map EncodeOp ops)) (length pre) acc = Inr (acc @ ops)"
  using assms
proof (induction ops arbitrary: pre acc)
  case Nil
  then show ?case by simp
next
  case (Cons op ops)
  note IH = Cons.IH [of "pre @ EncodeOp op" "acc @ [op]"]
  show ?case
  proof (cases op)
    case (OpCopy i)
    then show ?thesis using IH Cons.prems by (simp add: subslice_def add.commute)
  next
    case (OpData x)
    then have "length x < 2 ^ 32" using Cons.prems by simp
    then have "unat (of_nat (length x) :: u32) = length x" by simp
    moreover have off: "5 + length pre + length x = length pre + (5 + length x)" by simp
    ultimately show ?thesis using IH Cons.prems OpData by (simp add: subslice_def Let_def off)
  qed
qed

lemma DecodeDelta_Encode:
  assumes "delta_encodable d"
  shows "DecodeDelta (EncodeDelta d) = Inr (d\<lparr>dl_BlocksCopied := 0, dl_BytesCopied := 0, dl_BytesLiteral := 0\<rparr>)"
proof -
  let ?h = "PutUint64 (u64_of (dl_NewFileSize d)) @ dl_NewFileHash d @ PutUint32 (of_nat (length (dl_Ops d)))"
  have e: "EncodeDelta d = ?h @ concat (map EncodeOp (dl_Ops d))"
    using assms by (simp add: EncodeDelta_def delta_encodable_def)
  have "length ?h = 44" using assms by (simp add: delta_encodable_def)
  then have "decode_ops (length (dl_Ops d)) (EncodeDelta d) 44 [] = Inr (dl_Ops d)"
    using decode_ops_encode [of "dl_Ops d" ?h "[]"] assms by (simp add: e delta_encodable_def)
  moreover have "Uint64 (subslice 0 8 (EncodeDelta d)) = u64_of (dl_NewFileSize d)"
      "subslice 8 40 (EncodeDelta d) = dl_NewFileHash d"
      "unat (Uint32 (subslice 40 44 (EncodeDelta d))) = length (dl_Ops d)"
    using assms by (simp_all add: e subslice_def delta_encodable_def)
  ultimately show ?thesis
    using assms \<open>length ?h = 44\<close> by (simp add: DecodeDelta_def e delta_encodable_def int64_of_u64_of)
qed

lemma ops_le_expand:
  assumes "\<forall>i \<in> copied ops. blk i \<noteq> []" and "OpData [] \<notin> set ops"
  shows "length ops \<le> length (expand blk ops)"
  using assms
proof (induction ops)
  case (Cons op ops)
  have "0 < length (expand blk [op])"
    using Cons.prems by (cases op) (auto simp: copied_def expand_def)
  moreover have "expand blk (op # ops) = expand blk [op] @ expand blk ops" by (simp add: expand_def)
  moreover have "length ops \<le> length (expand blk ops)"
    using Cons by (auto simp: copied_def)
  ultimately show ?case by (simp del: length_greater_0_conv)
qed simp

lemma literal_le_expand: "OpData x \<in> set ops \<Longrightarrow> length x \<le> length (expand blk ops)"
  by (induction ops) (auto simp: expand_def)

lemma apply_ops_written:
  assumes "apply_ops ops ob w hashed = (Inr hashed', w')"
  shows "\<exists>out. hashed' = hashed @ out \<and> wr_bytes w' = wr_bytes w @ out"
  using assms
proof (induction ops ob w hashed rule: apply_ops.induct)
  case (1 ob w hashed)
  then show ?case by simp
next
  case (2 i ops ob w hashed)
  then show ?case
    by (fastforce simp: Write_def split: sum.splits prod.splits bool.splits option.splits if_splits)
next
  case (3 d ops ob w hashed)
  then show ?case
    by (fastforce simp: Write_def split: prod.splits bool.splits option.splits if_splits)
qed

lemma block_sig_encodable:
  assumes "0 < bs" "bs \<le> 65536" "length old < 2 ^ 32" "\<forall>x. length (H x) = 32"
    and "sig_inv sig" "sg_BlockSize sig = int bs" "sg_FileSize sig = int (length old)"
    and "sg_Blocks sig = map (\<lambda>k. block_sig H (of_nat k) (blocks bs old ! k)) [0..<length (blocks bs old)]"
  shows "sig_encodable sig"
proof -
  have "int ((length old + bs - 1) div bs) = (int (length old) + int bs - 1) div int bs"
    using assms(1) by (simp add: zdiv_int of_nat_diff)
  then have "(int (length old) + int bs - 1) div int bs = int (length (blocks bs old))"
    using assms(1) by (simp add: length_blocks)
  moreover have "length (blocks bs old) \<le> length old" by (rule length_blocks_le)
  ultimately show ?thesis
    using assms by (auto simp: sig_encodable_def block_sig_def)
qed


section \<open>Properties\<close>

text \<open>
  C1. A file is synchronised by a delta over the wire. The receiver's signature of \<open>old\<close> survives its
  encoding, the generator returns (its loop ends) on it and on \<open>new\<close>, the delta survives its encoding
  up to its statistics, and applying it to the blocks of \<open>old\<close> writes exactly \<open>new\<close> and passes the
  receiver's hash and size checks. The block size is one \<open>NewRollingHash\<close> does not clamp, and the
  digest has no collision among the blocks of \<open>old\<close> and the windows of \<open>new\<close>.
\<close>

theorem delta_sync_roundtrip:
  assumes "0 < bs" "bs \<le> 65536" "length old < 2 ^ 32" "length new < 2 ^ 32"
    and "\<forall>x. length (H x) = 32"
    and "collision_free H (set (blocks bs old) \<union> {w. sublist w new \<and> length w \<le> bs})"
    and "\<forall>k < length (blocks bs old). oldBlocks (of_nat k) = Inr (blocks bs old ! k)"
    and "wr_room w = None"
  shows "\<exists>sig d d'. GenerateSignature H (reader_of old) (int bs) = Inr sig \<and>
    DecodeSignature (EncodeSignature sig) = Inr (Some sig) \<and>
    GenerateDelta H pooled backing (reader_of new) sig = Some (Inr d) \<and>
    DecodeDelta (EncodeDelta d) = Inr d' \<and>
    ApplyDelta H d' oldBlocks w = (Inr (), w\<lparr>wr_bytes := wr_bytes w @ new\<rparr>)"
proof -
  let ?bl = "blocks bs old" and ?blk = "\<lambda>i. blocks bs old ! unat (i :: u32)"
  obtain sig where sig: "GenerateSignature H (reader_of old) (int bs) = Inr sig" "sig_inv sig"
      "sg_BlockSize sig = int bs" "sg_FileSize sig = int (length old)"
      "sg_Blocks sig = map (\<lambda>k. block_sig H (of_nat k) (?bl ! k)) [0..<length ?bl]"
    using GenerateSignature_spec [OF assms(1), of H old] by auto
  have few: "length ?bl \<le> 2 ^ 32" using length_blocks_le [of bs old] assms(3) by simp
  obtain d where d: "GenerateDelta H pooled backing (reader_of new) sig = Some (Inr d)"
      "expand ?blk (dl_Ops d) = new" "dl_NewFileHash d = H new" "dl_NewFileSize d = int (length new)"
      "copied (dl_Ops d) \<subseteq> bs_Index ` set (sg_Blocks sig)" "OpData [] \<notin> set (dl_Ops d)"
    using GenerateDelta_correct [OF assms(1,2) sig(3) match_sound_blocks [OF few sig(5) assms(6)],
        of pooled backing] by blast
  have cp: "oldBlocks i = Inr (?blk i)" "?blk i \<noteq> []" if "i \<in> copied (dl_Ops d)" for i
    using that d(5) nth_block_copy [OF few assms(7), of i H] blocks_bounds [of _ bs old] sig(5)
    by (auto dest: nth_mem)
  have enc: "delta_encodable d"
    using ops_le_expand [of "dl_Ops d" ?blk] literal_le_expand [of _ "dl_Ops d" ?blk] cp d assms(4,5)
    by (fastforce simp: delta_encodable_def)
  let ?d = "d\<lparr>dl_BlocksCopied := 0, dl_BytesCopied := 0, dl_BytesLiteral := 0\<rparr>"
  have "ApplyDelta H ?d oldBlocks w = (Inr (), w\<lparr>wr_bytes := wr_bytes w @ new\<rparr>)"
    using ApplyDelta_expand [of ?d oldBlocks ?blk w H] cp d assms(8) by simp
  then show ?thesis
    using sig(1) d(1) DecodeDelta_Encode [OF enc]
      DecodeSignature_Encode [OF block_sig_encodable [OF assms(1-3,5) sig(2-5)]] by blast
qed

lemma delta_sync_roundtrip_witness:
  "\<exists>sig d d'. GenerateSignature pad_hash (reader_of [1, 2, 3]) (int 2) = Inr sig \<and>
    DecodeSignature (EncodeSignature sig) = Inr (Some sig) \<and>
    GenerateDelta pad_hash \<lparr>rh_a = 7, rh_b = 9, rh_window = [8], rh_size = 1, rh_pos = 0, rh_count = 1,
      rh_blockSize = 1\<rparr> [] (reader_of [9, 1, 2, 3]) sig = Some (Inr d) \<and>
    DecodeDelta (EncodeDelta d) = Inr d' \<and>
    ApplyDelta pad_hash d' (\<lambda>i. Inr ([[1, 2], [3]] ! unat i)) \<lparr>wr_bytes = [], wr_room = None\<rparr> =
      (Inr (), \<lparr>wr_bytes = [9, 1, 2, 3], wr_room = None\<rparr>)"
proof -
  have bl: "blocks 2 [1, 2, 3 :: byte] = [[1, 2], [3]]" by (simp add: blocks_step)
  have "collision_free pad_hash (set (blocks 2 [1, 2, 3]) \<union> {w. sublist w [9, 1, 2, 3] \<and> length w \<le> 2})"
    by (rule collision_free_pad_hash) (auto simp: bl)
  then show ?thesis
    using delta_sync_roundtrip [of 2 "[1, 2, 3]" "[9, 1, 2, 3]" pad_hash "\<lambda>i. Inr ([[1, 2], [3]] ! unat i)"
        "\<lparr>wr_bytes = [], wr_room = None\<rparr>"
        "\<lparr>rh_a = 7, rh_b = 9, rh_window = [8], rh_size = 1, rh_pos = 0, rh_count = 1, rh_blockSize = 1\<rparr>" "[]"]
    by (simp add: bl)
qed

text \<open>
  C2. Integrity of \<open>ApplyDelta\<close>, whatever the delta, the source of old blocks and the writer: when it
  returns no error, what it appended to the writer has the digest and the size the delta announces.
\<close>

theorem apply_delta_integrity:
  assumes "ApplyDelta H d oldBlocks w = (Inr (), w')"
  shows "\<exists>out. wr_bytes w' = wr_bytes w @ out \<and> H out = dl_NewFileHash d \<and>
    int (length out) = dl_NewFileSize d"
proof -
  from assms obtain out where "apply_ops (dl_Ops d) oldBlocks w [] = (Inr out, w')"
      "H out = dl_NewFileHash d" "int (length out) = dl_NewFileSize d"
    by (auto simp: ApplyDelta_def split: prod.splits sum.splits if_splits)
  then show ?thesis using apply_ops_written by fastforce
qed

lemma apply_delta_integrity_witness:
  "\<exists>out. [5, 1, 2, 9] = [5] @ out \<and> pad_hash out = pad_hash [1, 2, 9] \<and> int (length out) = 3"
  using apply_delta_integrity [of pad_hash
      "\<lparr>dl_Ops = [OpCopy 0, OpData [9]], dl_NewFileSize = 3, dl_NewFileHash = pad_hash [1, 2, 9],
        dl_BlocksCopied = 0, dl_BytesCopied = 0, dl_BytesLiteral = 0\<rparr>"
      "\<lambda>i. Inr [1, 2]" "\<lparr>wr_bytes = [5], wr_room = Some 4\<rparr>" "\<lparr>wr_bytes = [5, 1, 2, 9], wr_room = Some 1\<rparr>"]
  by (simp add: ApplyDelta_def Write_def)

text \<open>
  C34. A file that did not change, and that fills at least one block, costs no literal data: every
  operation of its delta is a copy.
\<close>

theorem unchanged_file_no_literals:
  assumes "0 < bs" "bs \<le> 65536" "bs \<le> length old"
  shows "\<exists>sig d. GenerateSignature H (reader_of old) (int bs) = Inr sig \<and>
    GenerateDelta H pooled backing (reader_of old) sig = Some (Inr d) \<and>
    dl_BytesLiteral d = 0 \<and> (\<forall>x. OpData x \<notin> set (dl_Ops d))"
  using GenerateSignature_spec [OF assms(1), of H old]
    GenerateDelta_same [OF assms(1,2) _ assms(3)] by blast

lemma unchanged_file_no_literals_witness:
  "\<exists>sig d. GenerateSignature pad_hash (reader_of [1, 2, 3]) (int 2) = Inr sig \<and>
    GenerateDelta pad_hash \<lparr>rh_a = 7, rh_b = 9, rh_window = [8], rh_size = 1, rh_pos = 0, rh_count = 1,
      rh_blockSize = 1\<rparr> [] (reader_of [1, 2, 3]) sig = Some (Inr d) \<and>
    dl_BytesLiteral d = 0 \<and> (\<forall>x. OpData x \<notin> set (dl_Ops d))"
  by (rule unchanged_file_no_literals) simp_all

text \<open>
  The wire format of a delta loses nothing but the statistics, which \<open>Encode\<close> does not write.
\<close>

theorem delta_encode_decode:
  assumes "delta_encodable d"
  shows "DecodeDelta (EncodeDelta d) =
    Inr (d\<lparr>dl_BlocksCopied := 0, dl_BytesCopied := 0, dl_BytesLiteral := 0\<rparr>)"
  using assms by (rule DecodeDelta_Encode)

lemma delta_encode_decode_witness:
  "DecodeDelta (EncodeDelta \<lparr>dl_Ops = [OpCopy 3, OpData [9]], dl_NewFileSize = 5, dl_NewFileHash = replicate 32 1,
      dl_BlocksCopied = 1, dl_BytesCopied = 4, dl_BytesLiteral = 1\<rparr>) =
    Inr \<lparr>dl_Ops = [OpCopy 3, OpData [9]], dl_NewFileSize = 5, dl_NewFileHash = replicate 32 1,
      dl_BlocksCopied = 0, dl_BytesCopied = 0, dl_BytesLiteral = 0\<rparr>"
  by (subst delta_encode_decode) (simp_all add: delta_encodable_def)

text \<open>Every iteration of the generator's loop ends it or reads a byte, whatever the signature holds.\<close>

lemma bind_r_InrD: "bind_r x f = Inr y \<Longrightarrow> \<exists>z. x = Inr z \<and> f z = Inr y"
  by (cases x) auto

lemma emit_reader [simp]: "g_reader (emit xs st) = g_reader st"
  by simp

lemma ReadByte_Inr: "ReadByte r = (Inr b, r') \<Longrightarrow> length (rd_bytes r') < length (rd_bytes r)"
  by (auto simp: ReadByte_def split: list.splits)

lemma fill_next_progress:
  "fill_next n pc st = Inr (st', pc') \<Longrightarrow> g_eof st' \<or> length (rd_bytes (g_reader st')) + n \<le> length (rd_bytes (g_reader st))"
proof (induction n arbitrary: pc st)
  case (Suc n)
  show ?case
  proof (cases "ReadByte (g_reader st)")
    case (Pair x r)
    show ?thesis
    proof (cases x)
      case (Inl e)
      then show ?thesis using Suc.prems Pair by (auto split: if_splits)
    next
      case (Inr b)
      then obtain rh c where "fill_next n (pc + 1) (st\<lparr>g_rh := rh, g_reader := r\<rparr>) = Inr (st', pc')"
        using Suc.prems Pair by (auto dest!: bind_r_InrD)
      from Suc.IH [OF this] ReadByte_Inr [of "g_reader st" b r] show ?thesis using Pair Inr by auto
    qed
  qed
qed simp

lemma handle_match_progress:
  assumes "handle_match H sig st w block = Inr st'" "0 < sg_BlockSize sig"
  shows "g_eof st' \<or> length (rd_bytes (g_reader st')) < length (rd_bytes (g_reader st))"
proof -
  let ?st1 = "emit_copy block (sg_BlockSize sig) w (flush_literal st)"
  let ?st2 = "?st1\<lparr>g_rh := rh_Reset (g_rh ?st1) (sg_BlockSize sig)\<rparr>"
  obtain st3 pc where st3: "fill_next (nat (sg_BlockSize sig)) 0 ?st2 = Inr (st3, pc)"
      "g_eof st' = g_eof st3" "g_reader st' = g_reader st3"
    using assms(1)
    by (auto simp: handle_match_def Let_def ComputeBlockSignature_def dest!: bind_r_InrD split: if_splits option.splits)
  from fill_next_progress [OF st3(1)] assms(2) show ?thesis by (simp add: st3(2,3)) linarith
qed

lemma roll_step_progress:
  assumes "roll_step st = Inr st'"
  shows "g_eof st' \<or> length (rd_bytes (g_reader st')) < length (rd_bytes (g_reader st))"
proof (cases "ReadByte (g_reader st)")
  case (Pair x r)
  show ?thesis
  proof (cases x)
    case (Inl e)
    then show ?thesis
      using assms Pair by (auto simp: roll_step_def dest!: bind_r_InrD split: if_splits)
  next
    case (Inr b)
    then have "g_reader st' = r"
      using assms Pair by (auto simp: roll_step_def dest!: bind_r_InrD split: if_splits)
    then show ?thesis using ReadByte_Inr [of "g_reader st" b r] Pair Inr by simp
  qed
qed

lemma gd_step_progress:
  assumes "gd_step H sig st = Inr st'" "0 < sg_BlockSize sig"
  shows "g_eof st' \<or> length (rd_bytes (g_reader st')) < length (rd_bytes (g_reader st))"
proof -
  consider "roll_step st = Inr st'" | w block where "handle_match H sig st w block = Inr st'"
    using assms(1) by (auto simp: gd_step_def Let_def dest!: bind_r_InrD split: if_splits option.splits)
  then show ?thesis using handle_match_progress [OF _ assms(2)] roll_step_progress by cases blast+
qed

lemma gd_loop_returns:
  assumes "0 < sg_BlockSize sig"
  shows "\<exists>res. gd_loop H sig st = Some res"
proof (induction "length (rd_bytes (g_reader st))" arbitrary: st rule: less_induct)
  case less
  show ?case
  proof (cases "g_eof st")
    case True
    then show ?thesis by (simp add: gd_loop.simps [of H sig st])
  next
    case False
    show ?thesis
    proof (cases "gd_step H sig st")
      case (Inl e)
      then show ?thesis using False by (simp add: gd_loop.simps [of H sig st])
    next
      case (Inr st1)
      have "\<exists>res. gd_loop H sig st1 = Some res"
      proof (cases "g_eof st1")
        case True
        then show ?thesis by (simp add: gd_loop.simps [of H sig st1])
      next
        case False
        then show ?thesis using gd_step_progress [OF Inr assms] less by blast
      qed
      then show ?thesis using False Inr by (simp add: gd_loop.simps [of H sig st])
    qed
  qed
qed



end
