(* ===== verification/Proto.thy ===== *)
theory Proto
  imports Prelude
begin

text \<open>
  Model of \<open>internal/proto/messages.go\<close>: the length-prefixed envelopes the peers exchange and the
  constructors of the messages. The messages themselves are the structures the protocol-buffer
  compiler generates; their fields are kept. Encoding and decoding a message is code of the
  protocol-buffer runtime: a \<open>codec\<close> is an argument of the operations, and what they rely on is that
  decoding inverts encoding (\<open>codec_ok\<close>); \<open>unmarshal_rest\<close> is what a failing decoding leaves in a
  manifest request, because one caller ignores that error. Enumerations of the protocol are open, so a message type is
  an integer. Absent and empty byte fields are the same on the wire; both are the empty list.
\<close>

section \<open>Messages\<close>

definition ProtocolVersion :: u32 where "ProtocolVersion = 1"

definition MESSAGE_TYPE_HANDSHAKE :: int where "MESSAGE_TYPE_HANDSHAKE = 1"
definition MESSAGE_TYPE_HANDSHAKE_ACK :: int where "MESSAGE_TYPE_HANDSHAKE_ACK = 2"
definition MESSAGE_TYPE_MANIFEST_REQUEST :: int where "MESSAGE_TYPE_MANIFEST_REQUEST = 3"
definition MESSAGE_TYPE_MANIFEST_RESPONSE :: int where "MESSAGE_TYPE_MANIFEST_RESPONSE = 4"
definition MESSAGE_TYPE_CHUNK_REQUEST :: int where "MESSAGE_TYPE_CHUNK_REQUEST = 5"
definition MESSAGE_TYPE_CHUNK_RESPONSE :: int where "MESSAGE_TYPE_CHUNK_RESPONSE = 6"
definition MESSAGE_TYPE_ERROR :: int where "MESSAGE_TYPE_ERROR = 7"

lemmas message_types = MESSAGE_TYPE_HANDSHAKE_def MESSAGE_TYPE_HANDSHAKE_ACK_def
  MESSAGE_TYPE_MANIFEST_REQUEST_def MESSAGE_TYPE_MANIFEST_RESPONSE_def MESSAGE_TYPE_CHUNK_REQUEST_def
  MESSAGE_TYPE_CHUNK_RESPONSE_def MESSAGE_TYPE_ERROR_def

record Envelope =
  ev_Type :: int
  ev_RequestId :: u64
  ev_Payload :: bytes

record Handshake =
  hk_ProtocolVersion :: u32
  hk_CertFingerprint :: bytes
  hk_PeerName :: string
  hk_Capabilities :: u64
  hk_MerkleRoot :: bytes
  hk_FileCount :: u64
  hk_TotalSize :: u64

record HandshakeAck =
  ha_Accepted :: bool
  ha_RejectionReason :: string
  ha_CertFingerprint :: bytes
  ha_PeerName :: string
  ha_MerkleRoot :: bytes
  ha_ProtocolVersion :: u32

record ManifestRequest =
  mr_SubtreePath :: string
  mr_MaxDepth :: int
  mr_IncludeChunks :: bool

datatype PManifestNode = PManifestNode (pn_Name: string) (pn_IsDir: bool) (pn_Hash: bytes) (pn_Mode: u32)
  (pn_Size: u64) (pn_Children: "PManifestNode list") (pn_Chunks: "bytes list")

record ManifestResponse =
  ms_Root :: "PManifestNode option"
  ms_NodeCount :: u64

record ChunkRequest =
  cr_ChunkHashes :: "bytes list"
  cr_Priority :: u32

record PChunk =
  pc_Hash :: bytes
  pc_Data :: bytes
  pc_Size :: u32

record ChunkResponse =
  cs_Chunks :: "PChunk list"
  cs_NotFound :: "bytes list"

record ErrorMessage =
  em_Code :: u32
  em_Message :: string
  em_RequestId :: u64

datatype msg =
    MsgHandshake Handshake | MsgHandshakeAck HandshakeAck | MsgManifestRequest ManifestRequest
  | MsgManifestResponse ManifestResponse | MsgChunkRequest ChunkRequest | MsgChunkResponse ChunkResponse
  | MsgError ErrorMessage

text \<open>The message structure an \<open>Unmarshal\<close> call is given to fill.\<close>

datatype msg_kind =
    KHandshake | KHandshakeAck | KManifestRequest | KManifestResponse | KChunkRequest | KChunkResponse | KError

fun kind_of :: "msg \<Rightarrow> msg_kind" where
  "kind_of (MsgHandshake m) = KHandshake"
| "kind_of (MsgHandshakeAck m) = KHandshakeAck"
| "kind_of (MsgManifestRequest m) = KManifestRequest"
| "kind_of (MsgManifestResponse m) = KManifestResponse"
| "kind_of (MsgChunkRequest m) = KChunkRequest"
| "kind_of (MsgChunkResponse m) = KChunkResponse"
| "kind_of (MsgError m) = KError"

record codec =
  marshal_env :: "Envelope \<Rightarrow> bytes option"
  unmarshal_env :: "bytes \<Rightarrow> Envelope option"
  marshal_msg :: "msg \<Rightarrow> bytes option"
  unmarshal_msg :: "msg_kind \<Rightarrow> bytes \<Rightarrow> msg option"
  unmarshal_rest :: "bytes \<Rightarrow> ManifestRequest"

definition codec_ok :: "codec \<Rightarrow> bool" where
  "codec_ok cd \<longleftrightarrow>
     (\<forall>e b. marshal_env cd e = Some b \<longrightarrow> unmarshal_env cd b = Some e) \<and>
     (\<forall>m b. marshal_msg cd m = Some b \<longrightarrow> unmarshal_msg cd (kind_of m) b = Some m)"


section \<open>Envelopes\<close>

definition WriteEnvelope :: "codec \<Rightarrow> writer \<Rightarrow> int \<Rightarrow> u64 \<Rightarrow> msg \<Rightarrow> unit res \<times> writer" where
  "WriteEnvelope cd w msgType requestID m =
     (case marshal_msg cd m of
        None \<Rightarrow> (Inl (Err ''marshaling payload''), w)
      | Some payload \<Rightarrow>
          (case marshal_env cd \<lparr>ev_Type = msgType, ev_RequestId = requestID, ev_Payload = payload\<rparr> of
             None \<Rightarrow> (Inl (Err ''marshaling envelope''), w)
           | Some data \<Rightarrow>
               (case Write w (PutUint32 (of_nat (length data))) of
                  (False, w1) \<Rightarrow> (Inl (Err ''writing length''), w1)
                | (True, w1) \<Rightarrow>
                    (case Write w1 data of
                       (False, w2) \<Rightarrow> (Inl (Err ''writing data''), w2)
                     | (True, w2) \<Rightarrow> (Inr (), w2)))))"

definition MaxMessage :: nat where "MaxMessage = 16 * 1024 * 1024"

definition ReadEnvelope :: "codec \<Rightarrow> reader \<Rightarrow> Envelope res \<times> reader" where
  "ReadEnvelope cd r =
     (case ReadFull 4 r of
        (lenBuf, Some e, r1) \<Rightarrow> (Inl (Err ''reading length''), r1)
      | (lenBuf, None, r1) \<Rightarrow>
          let len = unat (Uint32 lenBuf) in
          if len > MaxMessage then (Inl (Err ''message too large''), r1)
          else case ReadFull len r1 of
                 (data, Some e, r2) \<Rightarrow> (Inl (Err ''reading data''), r2)
               | (data, None, r2) \<Rightarrow>
                   (case unmarshal_env cd data of
                      None \<Rightarrow> (Inl (Err ''unmarshaling envelope''), r2)
                    | Some env \<Rightarrow> (Inr env, r2)))"

definition UnmarshalPayload :: "codec \<Rightarrow> Envelope \<Rightarrow> msg_kind \<Rightarrow> msg option" where
  "UnmarshalPayload cd env k = unmarshal_msg cd k (ev_Payload env)"

definition NewHandshake :: "bytes \<Rightarrow> string \<Rightarrow> bytes \<Rightarrow> u64 \<Rightarrow> u64 \<Rightarrow> Handshake" where
  "NewHandshake certFingerprint peerName merkleRoot fileCount totalSize =
     \<lparr>hk_ProtocolVersion = ProtocolVersion, hk_CertFingerprint = certFingerprint, hk_PeerName = peerName,
      hk_Capabilities = 0, hk_MerkleRoot = merkleRoot, hk_FileCount = fileCount, hk_TotalSize = totalSize\<rparr>"

definition NewHandshakeAck :: "bool \<Rightarrow> bytes \<Rightarrow> string \<Rightarrow> bytes \<Rightarrow> HandshakeAck" where
  "NewHandshakeAck accepted certFingerprint peerName merkleRoot =
     \<lparr>ha_Accepted = accepted, ha_RejectionReason = [], ha_CertFingerprint = certFingerprint,
      ha_PeerName = peerName, ha_MerkleRoot = merkleRoot, ha_ProtocolVersion = ProtocolVersion\<rparr>"

definition NewChunkRequest :: "bytes list \<Rightarrow> u32 \<Rightarrow> ChunkRequest" where
  "NewChunkRequest hashes priority = \<lparr>cr_ChunkHashes = hashes, cr_Priority = priority\<rparr>"

definition NewChunkResponse :: "PChunk list \<Rightarrow> bytes list \<Rightarrow> ChunkResponse" where
  "NewChunkResponse chunks notFound = \<lparr>cs_Chunks = chunks, cs_NotFound = notFound\<rparr>"

definition NewChunk :: "bytes \<Rightarrow> bytes \<Rightarrow> PChunk" where
  "NewChunk hash data = \<lparr>pc_Hash = hash, pc_Data = data, pc_Size = of_nat (length data)\<rparr>"

definition NewManifestRequest :: "string \<Rightarrow> int \<Rightarrow> bool \<Rightarrow> ManifestRequest" where
  "NewManifestRequest subtreePath maxDepth includeChunks =
     \<lparr>mr_SubtreePath = subtreePath, mr_MaxDepth = maxDepth, mr_IncludeChunks = includeChunks\<rparr>"

definition NewErrorMessage :: "u32 \<Rightarrow> string \<Rightarrow> u64 \<Rightarrow> ErrorMessage" where
  "NewErrorMessage code message requestID =
     \<lparr>em_Code = code, em_Message = message, em_RequestId = requestID\<rparr>"

definition SendHandshake :: "codec \<Rightarrow> writer \<Rightarrow> u64 \<Rightarrow> Handshake \<Rightarrow> unit res \<times> writer" where
  "SendHandshake cd w requestID h = WriteEnvelope cd w MESSAGE_TYPE_HANDSHAKE requestID (MsgHandshake h)"

definition SendHandshakeAck :: "codec \<Rightarrow> writer \<Rightarrow> u64 \<Rightarrow> HandshakeAck \<Rightarrow> unit res \<times> writer" where
  "SendHandshakeAck cd w requestID h = WriteEnvelope cd w MESSAGE_TYPE_HANDSHAKE_ACK requestID (MsgHandshakeAck h)"

definition SendManifestRequest :: "codec \<Rightarrow> writer \<Rightarrow> u64 \<Rightarrow> ManifestRequest \<Rightarrow> unit res \<times> writer" where
  "SendManifestRequest cd w requestID m = WriteEnvelope cd w MESSAGE_TYPE_MANIFEST_REQUEST requestID (MsgManifestRequest m)"

definition SendManifestResponse :: "codec \<Rightarrow> writer \<Rightarrow> u64 \<Rightarrow> ManifestResponse \<Rightarrow> unit res \<times> writer" where
  "SendManifestResponse cd w requestID m = WriteEnvelope cd w MESSAGE_TYPE_MANIFEST_RESPONSE requestID (MsgManifestResponse m)"

definition SendChunkRequest :: "codec \<Rightarrow> writer \<Rightarrow> u64 \<Rightarrow> ChunkRequest \<Rightarrow> unit res \<times> writer" where
  "SendChunkRequest cd w requestID c = WriteEnvelope cd w MESSAGE_TYPE_CHUNK_REQUEST requestID (MsgChunkRequest c)"

definition SendChunkResponse :: "codec \<Rightarrow> writer \<Rightarrow> u64 \<Rightarrow> ChunkResponse \<Rightarrow> unit res \<times> writer" where
  "SendChunkResponse cd w requestID c = WriteEnvelope cd w MESSAGE_TYPE_CHUNK_RESPONSE requestID (MsgChunkResponse c)"

definition SendError :: "codec \<Rightarrow> writer \<Rightarrow> u64 \<Rightarrow> ErrorMessage \<Rightarrow> unit res \<times> writer" where
  "SendError cd w requestID e = WriteEnvelope cd w MESSAGE_TYPE_ERROR requestID (MsgError e)"


section \<open>Lemmas\<close>

text \<open>The frame of a message: what \<open>WriteEnvelope\<close> puts on the wire when both encodings succeed.\<close>

definition frame :: "codec \<Rightarrow> int \<Rightarrow> u64 \<Rightarrow> msg \<Rightarrow> bytes option" where
  "frame cd t i m =
     Option.bind (marshal_msg cd m) (\<lambda>p.
     map_option (\<lambda>d. PutUint32 (of_nat (length d)) @ d)
       (marshal_env cd \<lparr>ev_Type = t, ev_RequestId = i, ev_Payload = p\<rparr>))"

text \<open>A message that fits: its envelope is at most 16 MB.\<close>

definition fits :: "codec \<Rightarrow> int \<Rightarrow> u64 \<Rightarrow> msg \<Rightarrow> bool" where
  "fits cd t i m \<longleftrightarrow> (\<exists>b. frame cd t i m = Some b \<and> length b \<le> MaxMessage + 4)"

lemma frame_SomeE:
  assumes "frame cd t i m = Some b"
  obtains p d where "marshal_msg cd m = Some p"
    "marshal_env cd \<lparr>ev_Type = t, ev_RequestId = i, ev_Payload = p\<rparr> = Some d"
    "b = PutUint32 (of_nat (length d)) @ d"
  using assms by (auto simp: frame_def bind_eq_Some_conv)

lemma WriteEnvelope_frame:
  assumes "frame cd t i m = Some b" "wr_room w = None"
  shows "WriteEnvelope cd w t i m = (Inr (), w\<lparr>wr_bytes := wr_bytes w @ b\<rparr>)"
  using assms by (auto elim!: frame_SomeE simp: WriteEnvelope_def io_simps)

text \<open>Reading a frame returns its envelope, from which the payload decodes, and leaves the rest.\<close>

lemma ReadEnvelope_frame:
  assumes "codec_ok cd" "frame cd t i m = Some b" "length b \<le> MaxMessage + 4" "rd_bytes r = b @ rest"
  shows "\<exists>env. ReadEnvelope cd r = (Inr env, r\<lparr>rd_bytes := rest\<rparr>) \<and> ev_Type env = t \<and>
    ev_RequestId env = i \<and> UnmarshalPayload cd env (kind_of m) = Some m"
proof -
  from assms(2) obtain p d where pd: "marshal_msg cd m = Some p"
      "marshal_env cd \<lparr>ev_Type = t, ev_RequestId = i, ev_Payload = p\<rparr> = Some d"
      "b = PutUint32 (of_nat (length d)) @ d" by (rule frame_SomeE)
  have len: "length d \<le> MaxMessage" using assms(3) pd(3) by simp
  then have u: "unat (of_nat (length d) :: u32) = length d" by (simp add: MaxMessage_def)
  have r1: "ReadFull 4 r = (PutUint32 (of_nat (length d)), None, r\<lparr>rd_bytes := d @ rest\<rparr>)"
    using assms(4) pd(3) by (intro ReadFull_enough) simp_all
  have r2: "ReadFull (length d) (r\<lparr>rd_bytes := d @ rest\<rparr>) = (d, None, r\<lparr>rd_bytes := rest\<rparr>)"
    using ReadFull_enough [of d "length d" "r\<lparr>rd_bytes := d @ rest\<rparr>" rest] by simp
  show ?thesis
    using pd(1,2) assms(1) len
    by (simp add: ReadEnvelope_def r1 r2 u Let_def codec_ok_def UnmarshalPayload_def)
qed

text \<open>An envelope that was read took at least its length field from the stream.\<close>

lemma ReadFull_length:
  "ReadFull n r = (b, None, r') \<Longrightarrow> length (rd_bytes r') + n = length (rd_bytes r)"
  by (auto simp: ReadFull_def split: if_splits)

lemma ReadEnvelope_decreases:
  assumes "ReadEnvelope cd r = (Inr env, r')"
  shows "length (rd_bytes r') < length (rd_bytes r)"
proof -
  obtain b r1 d where "ReadFull 4 r = (b, None, r1)" "ReadFull (unat (Uint32 b)) r1 = (d, None, r')"
    using assms by (auto simp: ReadEnvelope_def Let_def split: prod.splits option.splits if_splits)
  from this [THEN ReadFull_length] show ?thesis by simp
qed

lemma ReadEnvelope_end: "rd_bytes r = [] \<Longrightarrow> ReadEnvelope cd r = (Inl (Err ''reading length''), r)"
  by (cases r) (simp add: ReadEnvelope_def ReadFull_def)

text \<open>Sequences of messages on one stream.\<close>

fun write_msgs :: "codec \<Rightarrow> (int \<times> u64 \<times> msg) list \<Rightarrow> writer \<Rightarrow> unit res \<times> writer" where
  "write_msgs cd [] w = (Inr (), w)"
| "write_msgs cd ((t, i, m) # ms) w =
     (case WriteEnvelope cd w t i m of
        (Inl e, w') \<Rightarrow> (Inl e, w')
      | (Inr u, w') \<Rightarrow> write_msgs cd ms w')"

fun read_msgs :: "codec \<Rightarrow> msg_kind list \<Rightarrow> reader \<Rightarrow> (int \<times> u64 \<times> msg option) list res \<times> reader" where
  "read_msgs cd [] r = (Inr [], r)"
| "read_msgs cd (k # ks) r =
     (case ReadEnvelope cd r of
        (Inl e, r') \<Rightarrow> (Inl e, r')
      | (Inr env, r') \<Rightarrow>
          (case read_msgs cd ks r' of
             (Inl e, r'') \<Rightarrow> (Inl e, r'')
           | (Inr es, r'') \<Rightarrow>
               (Inr ((ev_Type env, ev_RequestId env, UnmarshalPayload cd env k) # es), r'')))"

lemma ReadEnvelope_short:
  assumes "frame cd t i m = Some b" "k < length b" "rd_bytes r = take k b" "length b \<le> MaxMessage + 4"
  shows "\<exists>e. fst (ReadEnvelope cd r) = Inl (Err e) \<and> e \<in> {''reading length'', ''reading data''}"
proof -
  from assms(1) obtain p d where b: "b = PutUint32 (of_nat (length d)) @ d" by (rule frame_SomeE)
  have len: "length d \<le> MaxMessage" using assms(4) b by simp
  then have u: "unat (of_nat (length d) :: u32) = length d" by (simp add: MaxMessage_def)
  show ?thesis
  proof (cases "k < 4")
    case True
    then have "length (rd_bytes r) < 4" using assms(3) by simp
    then show ?thesis by (simp add: ReadEnvelope_def ReadFull_def)
  next
    case False
    then have "rd_bytes r = PutUint32 (of_nat (length d)) @ take (k - 4) d" using assms(3) b by simp
    then have r1: "ReadFull 4 r = (PutUint32 (of_nat (length d)), None, r\<lparr>rd_bytes := take (k - 4) d\<rparr>)"
      by (intro ReadFull_enough) simp_all
    have "k - 4 < length d" using assms(2) b False by simp
    then obtain x e r' where "ReadFull (length d) (r\<lparr>rd_bytes := take (k - 4) d\<rparr>) = (x, Some e, r')"
      using ReadFull_short [of "r\<lparr>rd_bytes := take (k - 4) d\<rparr>" "length d"] by auto
    then show ?thesis using len by (simp add: ReadEnvelope_def r1 u Let_def)
  qed
qed

text \<open>
  A concrete codec for the messages in a list: an envelope is its type in one byte, its request ID in
  eight, and the payload; a message is its position in the list.
\<close>

fun position :: "'a list \<Rightarrow> 'a \<Rightarrow> nat option" where
  "position [] x = None"
| "position (y # ys) x = (if x = y then Some 0 else map_option Suc (position ys x))"

definition list_codec :: "msg list \<Rightarrow> codec" where
  "list_codec ms =
     \<lparr>marshal_env = (\<lambda>e. if 0 \<le> ev_Type e \<and> ev_Type e < 256
        then Some (of_int (ev_Type e) # PutUint64 (ev_RequestId e) @ ev_Payload e) else None),
      unmarshal_env = (\<lambda>b. if 9 \<le> length b
        then Some \<lparr>ev_Type = uint (hd b), ev_RequestId = Uint64 (take 8 (tl b)), ev_Payload = drop 9 b\<rparr> else None),
      marshal_msg = (\<lambda>m. Option.bind (position ms m) (\<lambda>k. if k < 256 then Some [of_nat k] else None)),
      unmarshal_msg = (\<lambda>k b. if length b = 1 \<and> unat (hd b) < length ms then Some (ms ! unat (hd b)) else None),
      unmarshal_rest = (\<lambda>b. NewManifestRequest [] 0 False)\<rparr>"

lemma position_Some: "position xs x = Some k \<Longrightarrow> k < length xs \<and> xs ! k = x"
  by (induction xs arbitrary: k) (auto split: if_splits)

lemma list_codec_ok: "codec_ok (list_codec ms)"
proof -
  have "uint (of_int t :: byte) = t" if "0 \<le> t" "t < 256" for t :: int
    using that by (simp add: unsigned_of_int take_bit_int_eq_self)
  then show ?thesis
    by (auto simp: codec_ok_def list_codec_def bind_eq_Some_conv dest: position_Some split: if_splits)
qed


section \<open>Properties\<close>

text \<open>
  C24. Messages written one after the other on a stream are read back in order, each with its type,
  request ID and decoded payload, and nothing of what follows them is consumed, provided each envelope
  has at most 16 MB.
\<close>

theorem envelope_stream_roundtrip:
  assumes "codec_ok cd" "\<forall>(t, i, m) \<in> set ms. fits cd t i m" "wr_room w = None"
  shows "\<exists>out. write_msgs cd ms w = (Inr (), w\<lparr>wr_bytes := wr_bytes w @ out\<rparr>) \<and>
    (\<forall>r rest. rd_bytes r = out @ rest \<longrightarrow>
      read_msgs cd (map (\<lambda>(t, i, m). kind_of m) ms) r =
        (Inr (map (\<lambda>(t, i, m). (t, i, Some m)) ms), r\<lparr>rd_bytes := rest\<rparr>))"
  using assms(2,3)
proof (induction ms arbitrary: w)
  case Nil
  then show ?case by (auto intro!: exI [of _ "[]"])
next
  case (Cons x ms)
  obtain t i m where x: "x = (t, i, m)" by (cases x)
  then obtain b where b: "frame cd t i m = Some b" "length b \<le> MaxMessage + 4"
    using Cons.prems(1) by (auto simp: fits_def)
  let ?w = "w\<lparr>wr_bytes := wr_bytes w @ b\<rparr>"
  obtain out where out: "write_msgs cd ms ?w = (Inr (), ?w\<lparr>wr_bytes := wr_bytes ?w @ out\<rparr>)"
      "\<forall>r rest. rd_bytes r = out @ rest \<longrightarrow> read_msgs cd (map (\<lambda>(t, i, m). kind_of m) ms) r =
        (Inr (map (\<lambda>(t, i, m). (t, i, Some m)) ms), r\<lparr>rd_bytes := rest\<rparr>)"
    using Cons.IH [of ?w] Cons.prems by auto
  have "write_msgs cd (x # ms) w = (Inr (), w\<lparr>wr_bytes := wr_bytes w @ b @ out\<rparr>)"
    using out(1) WriteEnvelope_frame [OF b(1) Cons.prems(2)] x by simp
  moreover have "read_msgs cd (map (\<lambda>(t, i, m). kind_of m) (x # ms)) r =
      (Inr (map (\<lambda>(t, i, m). (t, i, Some m)) (x # ms)), r\<lparr>rd_bytes := rest\<rparr>)"
    if "rd_bytes r = (b @ out) @ rest" for r rest
    using ReadEnvelope_frame [OF assms(1) b, of r "out @ rest"] out(2) that x by auto
  ultimately show ?case by (intro exI [of _ "b @ out"]) simp
qed

definition error5 :: msg where "error5 = MsgError (NewErrorMessage 2 ''x'' 5)"

lemma error5_frame: "\<exists>b. frame (list_codec [error5]) 7 5 error5 = Some b \<and> length b = 14"
  by (simp add: frame_def list_codec_def)

lemma envelope_stream_roundtrip_witness:
  "\<exists>out. write_msgs (list_codec [error5]) [(7, 5, error5)] \<lparr>wr_bytes = [], wr_room = None\<rparr> =
      (Inr (), \<lparr>wr_bytes = out, wr_room = None\<rparr>) \<and>
    fst (read_msgs (list_codec [error5]) [KError] (reader_of (out @ [1, 2, 3]))) = Inr [(7, 5, Some error5)]"
proof -
  have "\<forall>(t, i, m) \<in> set [(7, 5, error5)]. fits (list_codec [error5]) t i m"
    using error5_frame by (auto simp: fits_def MaxMessage_def)
  from envelope_stream_roundtrip [OF list_codec_ok this, of "\<lparr>wr_bytes = [], wr_room = None\<rparr>"]
  obtain out where "write_msgs (list_codec [error5]) [(7, 5, error5)] \<lparr>wr_bytes = [], wr_room = None\<rparr> =
      (Inr (), \<lparr>wr_bytes = out, wr_room = None\<rparr>)"
    "\<And>r rest. rd_bytes r = out @ rest \<Longrightarrow> read_msgs (list_codec [error5]) [KError] r =
      (Inr [(7, 5, Some error5)], r\<lparr>rd_bytes := rest\<rparr>)"
    by (auto simp: error5_def)
  then show ?thesis by (intro exI [of _ out]) simp
qed

text \<open>
  A stream that ends inside a frame, at any byte, makes \<open>ReadEnvelope\<close> return an error that says so;
  it never returns an envelope made from a part of the frame.
\<close>

theorem truncated_frame_is_error:
  assumes "frame cd t i m = Some b" "length b \<le> MaxMessage + 4" "k < length b"
  shows "\<exists>e. fst (ReadEnvelope cd \<lparr>rd_bytes = take k b, rd_fail = f\<rparr>) = Inl (Err e) \<and>
    e \<in> {''reading length'', ''reading data''}"
  using ReadEnvelope_short [OF assms(1,3) _ assms(2)] by simp

lemma truncated_frame_is_error_witness:
  "\<exists>b e. frame (list_codec [error5]) 7 5 error5 = Some b \<and>
    fst (ReadEnvelope (list_codec [error5]) \<lparr>rd_bytes = take 6 b, rd_fail = None\<rparr>) = Inl (Err e)"
proof -
  obtain b where "frame (list_codec [error5]) 7 5 error5 = Some b" "length b = 14" using error5_frame by auto
  then show ?thesis using truncated_frame_is_error [of "list_codec [error5]" 7 5 error5 b 6 None]
    by (auto simp: MaxMessage_def)
qed

text \<open>
  The two ends disagree on large messages: \<open>WriteEnvelope\<close> sends an envelope of more than 16 MB
  without an error, and \<open>ReadEnvelope\<close> refuses it.
\<close>

theorem large_message_written_not_read:
  assumes "marshal_msg cd m = Some p" "marshal_env cd \<lparr>ev_Type = t, ev_RequestId = i, ev_Payload = p\<rparr> = Some d"
    and "16777216 < length d" "length d < 2 ^ 32"
  shows "\<exists>out. WriteEnvelope cd \<lparr>wr_bytes = [], wr_room = None\<rparr> t i m = (Inr (), \<lparr>wr_bytes = out, wr_room = None\<rparr>) \<and>
    fst (ReadEnvelope cd (reader_of out)) = Inl (Err ''message too large'')"
proof -
  let ?b = "PutUint32 (of_nat (length d)) @ d"
  have "frame cd t i m = Some ?b" using assms(1,2) by (simp add: frame_def)
  from WriteEnvelope_frame [OF this, of "\<lparr>wr_bytes = [], wr_room = None\<rparr>"]
  have w: "WriteEnvelope cd \<lparr>wr_bytes = [], wr_room = None\<rparr> t i m = (Inr (), \<lparr>wr_bytes = ?b, wr_room = None\<rparr>)"
    by simp
  have "ReadFull 4 (reader_of ?b) = (PutUint32 (of_nat (length d)), None, (reader_of ?b)\<lparr>rd_bytes := d\<rparr>)"
    by (intro ReadFull_enough) simp_all
  moreover have "unat (of_nat (length d) :: u32) = length d" using assms(4) by simp
  ultimately show ?thesis using w assms(3) by (simp add: ReadEnvelope_def MaxMessage_def Let_def)
qed

definition big_codec :: codec where
  "big_codec = \<lparr>marshal_env = (\<lambda>e. Some (ev_Payload e)), unmarshal_env = (\<lambda>b. None),
     marshal_msg = (\<lambda>m. Some (replicate 16777217 0)), unmarshal_msg = (\<lambda>k b. None), unmarshal_rest = (\<lambda>b. NewManifestRequest [] 0 False)\<rparr>"

lemma large_message_written_not_read_witness:
  "\<exists>out. WriteEnvelope big_codec \<lparr>wr_bytes = [], wr_room = None\<rparr> 7 5 error5 =
      (Inr (), \<lparr>wr_bytes = out, wr_room = None\<rparr>) \<and>
    fst (ReadEnvelope big_codec (reader_of out)) = Inl (Err ''message too large'')"
  by (rule large_message_written_not_read [of _ _ "replicate 16777217 0" _ _ "replicate 16777217 0"])
     (simp_all add: big_codec_def)

end
