(* ===== verification/Transport.thy ===== *)
theory Transport
  imports Proto Sha256
begin

text \<open>
  Model of \<open>internal/net/transport.go\<close>: peers identified by the fingerprint of their certificate, the
  handshake, the table of connected peers, and the streams on which requests are served. QUIC and TLS
  are third-party: a connection is the certificates the remote presented, its address and its control
  stream; a stream is what the program writes to it and the remote's reply as a function of what it
  received. The concurrent part, several connections to one peer that come and go, is a step relation
  whose steps are the critical sections on the table of peers.
\<close>

section \<open>Definitions\<close>

type_synonym PeerID = bytes

definition PeerID_String :: "PeerID \<Rightarrow> string" where
  "PeerID_String p = EncodeToString p"

definition PeerID_Short :: "PeerID \<Rightarrow> string" where
  "PeerID_Short p = EncodeToString (take 8 p)"

record Peer =
  pr_ID :: PeerID
  pr_Name :: string
  pr_Addr :: string
  pr_MerkleRoot :: bytes
  pr_FileCount :: u64
  pr_TotalSize :: u64
  pr_nextReqID :: u64

record Config =
  cf_PeerName :: string
  cf_MerkleRoot :: bytes
  cf_FileCount :: u64
  cf_TotalSize :: u64
  cf_Certificate :: "bytes list option"
  cf_OnManifestRequest :: "(Peer \<Rightarrow> ManifestRequest \<Rightarrow> ManifestResponse option) option"
  cf_OnChunkRequest :: "(Peer \<Rightarrow> ChunkRequest \<Rightarrow> ChunkResponse option) option"

record Transport =
  tp_config :: Config
  tp_localID :: PeerID
  tp_localCert :: "bytes list"
  tp_merkleRoot :: bytes
  tp_peers :: "PeerID \<rightharpoonup> Peer"

text \<open>A certificate is the list of its DER encodings; the fingerprint is that of the first.\<close>

definition CertFingerprint :: "(bytes \<Rightarrow> bytes) \<Rightarrow> bytes list option \<Rightarrow> PeerID" where
  "CertFingerprint H cert =
     (case cert of
        None \<Rightarrow> replicate 32 0
      | Some [] \<Rightarrow> replicate 32 0
      | Some (c # cs) \<Rightarrow> go_copy (replicate 32 0) (H c))"

definition certToFingerprint :: "(bytes \<Rightarrow> bytes) \<Rightarrow> bytes \<Rightarrow> PeerID" where
  "certToFingerprint H raw = go_copy (replicate 32 0) (H raw)"

text \<open>\<open>gen\<close> is \<open>generateSelfSignedCert\<close>, which calls the cryptographic library.\<close>

definition NewTransport :: "(bytes \<Rightarrow> bytes) \<Rightarrow> (string \<Rightarrow> bytes list option) \<Rightarrow> Config \<Rightarrow> Transport res" where
  "NewTransport H gen cfg =
     (case (case cf_Certificate cfg of Some c \<Rightarrow> Some c | None \<Rightarrow> gen (cf_PeerName cfg)) of
        None \<Rightarrow> Inl (Err ''generating certificate'')
      | Some cert \<Rightarrow>
          Inr \<lparr>tp_config = cfg, tp_localID = CertFingerprint H (Some cert), tp_localCert = cert,
               tp_merkleRoot = cf_MerkleRoot cfg, tp_peers = Map.empty\<rparr>)"

definition SetMerkleRoot :: "Transport \<Rightarrow> bytes \<Rightarrow> Transport" where
  "SetMerkleRoot t root = t\<lparr>tp_merkleRoot := root\<rparr>"

definition GetPeer :: "Transport \<Rightarrow> PeerID \<Rightarrow> Peer option" where
  "GetPeer t peerID = tp_peers t peerID"

definition removePeer :: "Transport \<Rightarrow> Peer \<Rightarrow> Transport" where
  "removePeer t peer = t\<lparr>tp_peers := (tp_peers t)(pr_ID peer := None)\<rparr>"

record stream =
  sm_out :: writer
  sm_reply :: "bytes \<Rightarrow> reader"

definition performHandshake ::
  "codec \<Rightarrow> Transport \<Rightarrow> string \<Rightarrow> stream \<Rightarrow> PeerID \<Rightarrow> bool \<Rightarrow> Peer res \<times> writer" where
  "performHandshake cd t addr stream peerID isInitiator =
     (let handshake = \<lparr>hk_ProtocolVersion = ProtocolVersion, hk_CertFingerprint = tp_localID t,
            hk_PeerName = cf_PeerName (tp_config t), hk_Capabilities = 0, hk_MerkleRoot = tp_merkleRoot t,
            hk_FileCount = cf_FileCount (tp_config t), hk_TotalSize = cf_TotalSize (tp_config t)\<rparr> in
      if isInitiator then
        (case SendHandshake cd (sm_out stream) 0 handshake of
           (Inl e, w) \<Rightarrow> (Inl (Err ''sending handshake''), w)
         | (Inr u, w) \<Rightarrow>
             (case ReadEnvelope cd (sm_reply stream (wr_bytes w)) of
                (Inl e, r) \<Rightarrow> (Inl (Err ''reading handshake ack''), w)
              | (Inr env, r) \<Rightarrow>
                  if ev_Type env \<noteq> MESSAGE_TYPE_HANDSHAKE_ACK then (Inl (Err ''expected handshake ack''), w)
                  else case UnmarshalPayload cd env KHandshakeAck of
                         Some (MsgHandshakeAck ack) \<Rightarrow>
                           if \<not> ha_Accepted ack then (Inl (ErrMsg ''handshake rejected'' (ha_RejectionReason ack)), w)
                           else (Inr \<lparr>pr_ID = peerID, pr_Name = ha_PeerName ack, pr_Addr = addr,
                                      pr_MerkleRoot = ha_MerkleRoot ack, pr_FileCount = 0, pr_TotalSize = 0,
                                      pr_nextReqID = 0\<rparr>, w)
                       | _ \<Rightarrow> (Inl (Err ''decoding handshake ack''), w)))
      else
        (case ReadEnvelope cd (sm_reply stream (wr_bytes (sm_out stream))) of
           (Inl e, r) \<Rightarrow> (Inl (Err ''reading handshake''), sm_out stream)
         | (Inr env, r) \<Rightarrow>
             if ev_Type env \<noteq> MESSAGE_TYPE_HANDSHAKE then (Inl (Err ''expected handshake''), sm_out stream)
             else case UnmarshalPayload cd env KHandshake of
                    Some (MsgHandshake hs) \<Rightarrow>
                      let ack = \<lparr>ha_Accepted = True, ha_RejectionReason = [], ha_CertFingerprint = tp_localID t,
                            ha_PeerName = cf_PeerName (tp_config t), ha_MerkleRoot = tp_merkleRoot t,
                            ha_ProtocolVersion = ProtocolVersion\<rparr>
                      in (case SendHandshakeAck cd (sm_out stream) 0 ack of
                            (Inl e, w) \<Rightarrow> (Inl (Err ''sending handshake ack''), w)
                          | (Inr u, w) \<Rightarrow>
                              (Inr \<lparr>pr_ID = peerID, pr_Name = hk_PeerName hs, pr_Addr = addr,
                                   pr_MerkleRoot = hk_MerkleRoot hs, pr_FileCount = hk_FileCount hs,
                                   pr_TotalSize = hk_TotalSize hs, pr_nextReqID = 0\<rparr>, w))
                  | _ \<Rightarrow> (Inl (Err ''decoding handshake''), sm_out stream)))"

text \<open>A connection; \<open>cn_stream\<close> is \<^const>\<open>None\<close> when the control stream cannot be opened.\<close>

record conn =
  cn_certs :: "bytes list"
  cn_addr :: string
  cn_stream :: "stream option"

definition handleConnection ::
  "(bytes \<Rightarrow> bytes) \<Rightarrow> codec \<Rightarrow> Transport \<Rightarrow> conn \<Rightarrow> bool \<Rightarrow> Peer res \<times> Transport" where
  "handleConnection H cd t conn isInitiator =
     (case cn_certs conn of
        [] \<Rightarrow> (Inl (Err ''no peer certificate''), t)
      | c # cs \<Rightarrow>
          let peerID = certToFingerprint H c in
          (case tp_peers t peerID of
             Some existing \<Rightarrow> (Inr existing, t)
           | None \<Rightarrow>
               (case cn_stream conn of
                  None \<Rightarrow> (Inl (Err ''opening control stream''), t)
                | Some stream \<Rightarrow>
                    (case performHandshake cd t (cn_addr conn) stream peerID isInitiator of
                       (Inl e, w) \<Rightarrow> (Inl (Err ''handshake failed''), t)
                     | (Inr peer, w) \<Rightarrow> (Inr peer, t\<lparr>tp_peers := (tp_peers t)(peerID \<mapsto> peer)\<rparr>)))))"

text \<open>Serving a stream. An error of \<open>SendChunkResponse\<close> is ignored, as in the source.\<close>

definition handleChunkRequest :: "codec \<Rightarrow> Transport \<Rightarrow> Peer \<Rightarrow> writer \<Rightarrow> u64 \<Rightarrow> bytes \<Rightarrow> writer" where
  "handleChunkRequest cd t peer w reqID payload =
     (case unmarshal_msg cd KChunkRequest payload of
        Some (MsgChunkRequest req) \<Rightarrow>
          (case cf_OnChunkRequest (tp_config t) of
             None \<Rightarrow> w
           | Some f \<Rightarrow>
               (case f peer req of None \<Rightarrow> w | Some resp \<Rightarrow> snd (SendChunkResponse cd w reqID resp)))
      | _ \<Rightarrow> w)"

definition handleManifestRequest :: "codec \<Rightarrow> Transport \<Rightarrow> Peer \<Rightarrow> writer \<Rightarrow> u64 \<Rightarrow> bytes \<Rightarrow> writer" where
  "handleManifestRequest cd t peer w reqID payload =
     (let req = (case unmarshal_msg cd KManifestRequest payload of
                   Some (MsgManifestRequest m) \<Rightarrow> m | _ \<Rightarrow> unmarshal_rest cd payload)
      in case cf_OnManifestRequest (tp_config t) of
           None \<Rightarrow> w
         | Some f \<Rightarrow>
             (case f peer req of None \<Rightarrow> w | Some resp \<Rightarrow> snd (SendManifestResponse cd w reqID resp)))"

function handleStream :: "codec \<Rightarrow> Transport \<Rightarrow> Peer \<Rightarrow> reader \<Rightarrow> writer \<Rightarrow> writer" where
  "handleStream cd t peer r w =
     (case ReadEnvelope cd r of
        (Inl e, r') \<Rightarrow> w
      | (Inr env, r') \<Rightarrow>
          handleStream cd t peer r'
            (if ev_Type env = MESSAGE_TYPE_CHUNK_REQUEST
             then handleChunkRequest cd t peer w (ev_RequestId env) (ev_Payload env)
             else if ev_Type env = MESSAGE_TYPE_MANIFEST_REQUEST
             then handleManifestRequest cd t peer w (ev_RequestId env) (ev_Payload env)
             else w))"
  by pat_completeness auto
termination
  by (relation "measure (\<lambda>(cd, t, p, r, w). length (rd_bytes r))")
     (auto dest: ReadEnvelope_decreases [OF sym])

declare handleStream.simps [simp del]

text \<open>The client side; \<^const>\<open>None\<close> is a stream that cannot be opened.\<close>

definition RequestChunks :: "codec \<Rightarrow> stream option \<Rightarrow> Peer \<Rightarrow> bytes list \<Rightarrow> ChunkResponse res \<times> Peer" where
  "RequestChunks cd stream peer hashes =
     (case stream of
        None \<Rightarrow> (Inl (Err ''opening stream''), peer)
      | Some s \<Rightarrow>
          let reqID = pr_nextReqID peer;
              peer = peer\<lparr>pr_nextReqID := pr_nextReqID peer + 1\<rparr>;
              req = \<lparr>cr_ChunkHashes = hashes, cr_Priority = 1\<rparr>
          in (case SendChunkRequest cd (sm_out s) reqID req of
                (Inl e, w) \<Rightarrow> (Inl (Err ''sending request''), peer)
              | (Inr u, w) \<Rightarrow>
                  (case ReadEnvelope cd (sm_reply s (wr_bytes w)) of
                     (Inl e, r) \<Rightarrow> (Inl (Err ''reading response''), peer)
                   | (Inr env, r) \<Rightarrow>
                       if ev_Type env \<noteq> MESSAGE_TYPE_CHUNK_RESPONSE
                       then (Inl (Err ''unexpected response type''), peer)
                       else case UnmarshalPayload cd env KChunkResponse of
                              Some (MsgChunkResponse resp) \<Rightarrow> (Inr resp, peer)
                            | _ \<Rightarrow> (Inl (Err ''decoding response''), peer))))"

text \<open>
  Several connections at once. A connection is a number, \<open>pid\<close> gives the peer at its other end, and
  the steps are the critical sections of \<open>handleConnection\<close> and \<open>removePeer\<close>: the check of the table,
  the registration after a handshake, and the removal when the connection ends. Between the check and
  the registration the table is not locked.
\<close>

record table =
  tb_peers :: "PeerID \<rightharpoonup> nat"
  tb_checked :: "nat set"
  tb_live :: "nat set"
  tb_used :: "nat set"

definition table0 :: table where
  "table0 = \<lparr>tb_peers = Map.empty, tb_checked = {}, tb_live = {}, tb_used = {}\<rparr>"

inductive tstep :: "(nat \<Rightarrow> PeerID) \<Rightarrow> table \<Rightarrow> table \<Rightarrow> bool" for pid where
  existing: "c \<notin> tb_used s \<Longrightarrow> tb_peers s (pid c) \<noteq> None \<Longrightarrow> tstep pid s (s\<lparr>tb_used := insert c (tb_used s)\<rparr>)"
| checked: "c \<notin> tb_used s \<Longrightarrow> tb_peers s (pid c) = None \<Longrightarrow>
    tstep pid s (s\<lparr>tb_used := insert c (tb_used s), tb_checked := insert c (tb_checked s)\<rparr>)"
| failed: "c \<in> tb_checked s \<Longrightarrow> tstep pid s (s\<lparr>tb_checked := tb_checked s - {c}\<rparr>)"
| register: "c \<in> tb_checked s \<Longrightarrow>
    tstep pid s (s\<lparr>tb_checked := tb_checked s - {c}, tb_peers := (tb_peers s)(pid c \<mapsto> c),
      tb_live := insert c (tb_live s)\<rparr>)"
| remove: "c \<in> tb_live s \<Longrightarrow>
    tstep pid s (s\<lparr>tb_live := tb_live s - {c}, tb_peers := (tb_peers s)(pid c := None)\<rparr>)"

inductive_cases tstepE: "tstep pid s s'"


section \<open>Lemmas\<close>

text \<open>A finger print has 32 bytes, and equal certificates have equal ones on both sides.\<close>

lemma fingerprint_agree: "CertFingerprint H (Some (c # cs)) = certToFingerprint H c"
  by (simp add: CertFingerprint_def certToFingerprint_def)

lemma length_fingerprint: "length (certToFingerprint H c) = 32"
  by (simp add: certToFingerprint_def go_copy_def)

text \<open>The message a side sends in the handshake.\<close>

definition handshake_of :: "Transport \<Rightarrow> Handshake" where
  "handshake_of t = \<lparr>hk_ProtocolVersion = ProtocolVersion, hk_CertFingerprint = tp_localID t,
     hk_PeerName = cf_PeerName (tp_config t), hk_Capabilities = 0, hk_MerkleRoot = tp_merkleRoot t,
     hk_FileCount = cf_FileCount (tp_config t), hk_TotalSize = cf_TotalSize (tp_config t)\<rparr>"

definition ack_of :: "Transport \<Rightarrow> HandshakeAck" where
  "ack_of t = \<lparr>ha_Accepted = True, ha_RejectionReason = [], ha_CertFingerprint = tp_localID t,
     ha_PeerName = cf_PeerName (tp_config t), ha_MerkleRoot = tp_merkleRoot t, ha_ProtocolVersion = ProtocolVersion\<rparr>"

definition new_writer :: writer where "new_writer = \<lparr>wr_bytes = [], wr_room = None\<rparr>"

lemma new_writer_simps [simp]: "wr_bytes new_writer = []" "wr_room new_writer = None"
  by (simp_all add: new_writer_def)

text \<open>What one message sent to a fresh stream becomes at the other end.\<close>

lemma send_receive:
  assumes "codec_ok cd" "fits cd t i m"
  obtains b env where "WriteEnvelope cd new_writer t i m = (Inr (), new_writer\<lparr>wr_bytes := b\<rparr>)"
    "ReadEnvelope cd (reader_of b) = (Inr env, reader_of [])" "ev_Type env = t" "ev_RequestId env = i"
    "unmarshal_msg cd (kind_of m) (ev_Payload env) = Some m"
proof -
  from assms(2) obtain b where b: "frame cd t i m = Some b" "length b \<le> MaxMessage + 4" by (auto simp: fits_def)
  obtain env where "ReadEnvelope cd (reader_of b) = (Inr env, (reader_of b)\<lparr>rd_bytes := []\<rparr>)"
      "ev_Type env = t" "ev_RequestId env = i" "UnmarshalPayload cd env (kind_of m) = Some m"
    using ReadEnvelope_frame [OF assms(1) b, of "reader_of b" "[]"] by auto
  moreover have "(reader_of b)\<lparr>rd_bytes := []\<rparr> = reader_of []" by (simp add: reader_of_def)
  ultimately show ?thesis
    using that [of b env] WriteEnvelope_frame [OF b(1), of new_writer] by (simp add: UnmarshalPayload_def)
qed

lemma responder_spec:
  assumes "codec_ok cd" "fits cd MESSAGE_TYPE_HANDSHAKE i (MsgHandshake hs)"
    and "fits cd MESSAGE_TYPE_HANDSHAKE_ACK 0 (MsgHandshakeAck (ack_of t))"
    and "WriteEnvelope cd new_writer MESSAGE_TYPE_HANDSHAKE i (MsgHandshake hs) = (Inr (), new_writer\<lparr>wr_bytes := b\<rparr>)"
    and "WriteEnvelope cd new_writer MESSAGE_TYPE_HANDSHAKE_ACK 0 (MsgHandshakeAck (ack_of t)) =
      (Inr (), new_writer\<lparr>wr_bytes := a\<rparr>)"
  shows "performHandshake cd t addr \<lparr>sm_out = new_writer, sm_reply = (\<lambda>_. reader_of b)\<rparr> pid False =
    (Inr \<lparr>pr_ID = pid, pr_Name = hk_PeerName hs, pr_Addr = addr, pr_MerkleRoot = hk_MerkleRoot hs,
      pr_FileCount = hk_FileCount hs, pr_TotalSize = hk_TotalSize hs, pr_nextReqID = 0\<rparr>,
     new_writer\<lparr>wr_bytes := a\<rparr>)"
proof -
  from assms(1,2) obtain b' env where e: "WriteEnvelope cd new_writer MESSAGE_TYPE_HANDSHAKE i (MsgHandshake hs) =
      (Inr (), new_writer\<lparr>wr_bytes := b'\<rparr>)" "ReadEnvelope cd (reader_of b') = (Inr env, reader_of [])"
      "ev_Type env = MESSAGE_TYPE_HANDSHAKE" "unmarshal_msg cd (kind_of (MsgHandshake hs)) (ev_Payload env) = Some (MsgHandshake hs)"
    by (rule send_receive)
  have "b' = b" using e(1) assms(4) by (simp add: new_writer_def)
  then show ?thesis
    using e assms(5)
    by (simp add: performHandshake_def UnmarshalPayload_def SendHandshakeAck_def ack_of_def Let_def)
qed

lemma tb_reach_sets:
  assumes "(tstep pid)\<^sup>*\<^sup>* table0 s"
  shows "tb_checked s \<subseteq> tb_used s \<and> tb_live s \<subseteq> tb_used s \<and> tb_checked s \<inter> tb_live s = {} \<and>
    (\<forall>p c. tb_peers s p = Some c \<longrightarrow> c \<in> tb_live s \<and> pid c = p)"
  using assms
proof (induction rule: rtranclp_induct)
  case base
  then show ?case by (simp add: table0_def)
next
  case (step s s')
  from step(2,3) show ?case by cases (auto split: if_splits)
qed

lemma tb_reach_inj:
  assumes "inj pid" "(tstep pid)\<^sup>*\<^sup>* table0 s" "c \<in> tb_live s"
  shows "tb_peers s (pid c) = Some c"
  using assms(2,3)
proof (induction arbitrary: c rule: rtranclp_induct)
  case base
  then show ?case by (simp add: table0_def)
next
  case (step s s')
  from step(2) step.prems step.IH show ?case
    by cases (auto simp: inj_eq [OF assms(1)])
qed


text \<open>The client's request meets the server's loop.\<close>

lemma RequestChunks_served:
  assumes "codec_ok cd" "cf_OnChunkRequest (tp_config t) = Some f"
    and "f p \<lparr>cr_ChunkHashes = hashes, cr_Priority = 1\<rparr> = Some resp"
    and "fits cd MESSAGE_TYPE_CHUNK_REQUEST (pr_nextReqID peer) (MsgChunkRequest \<lparr>cr_ChunkHashes = hashes, cr_Priority = 1\<rparr>)"
    and "fits cd MESSAGE_TYPE_CHUNK_RESPONSE (pr_nextReqID peer) (MsgChunkResponse resp)"
  shows "RequestChunks cd (Some \<lparr>sm_out = new_writer,
      sm_reply = (\<lambda>sent. reader_of (wr_bytes (handleStream cd t p (reader_of sent) new_writer)))\<rparr>) peer hashes =
    (Inr resp, peer\<lparr>pr_nextReqID := pr_nextReqID peer + 1\<rparr>)"
proof -
  let ?req = "MsgChunkRequest \<lparr>cr_ChunkHashes = hashes, cr_Priority = 1\<rparr>"
  from assms(1,4) obtain b env where b: "WriteEnvelope cd new_writer MESSAGE_TYPE_CHUNK_REQUEST (pr_nextReqID peer) ?req =
      (Inr (), new_writer\<lparr>wr_bytes := b\<rparr>)" "ReadEnvelope cd (reader_of b) = (Inr env, reader_of [])"
      "ev_Type env = MESSAGE_TYPE_CHUNK_REQUEST" "ev_RequestId env = pr_nextReqID peer"
      "unmarshal_msg cd (kind_of ?req) (ev_Payload env) = Some ?req" by (rule send_receive)
  from assms(1,5) obtain a env' where a: "WriteEnvelope cd new_writer MESSAGE_TYPE_CHUNK_RESPONSE (pr_nextReqID peer) (MsgChunkResponse resp) =
      (Inr (), new_writer\<lparr>wr_bytes := a\<rparr>)" "ReadEnvelope cd (reader_of a) = (Inr env', reader_of [])"
      "ev_Type env' = MESSAGE_TYPE_CHUNK_RESPONSE"
      "unmarshal_msg cd (kind_of (MsgChunkResponse resp)) (ev_Payload env') = Some (MsgChunkResponse resp)"
    by (rule send_receive)
  have "handleStream cd t p (reader_of b) new_writer = new_writer\<lparr>wr_bytes := a\<rparr>"
    using b a(1) assms(2,3) ReadEnvelope_end [of "reader_of []" cd]
    by (simp add: handleStream.simps [of cd t p "reader_of b"] handleStream.simps [of cd t p "reader_of []"]
        handleChunkRequest_def SendChunkResponse_def)
  then show ?thesis
    using a(2-4) b(1) by (simp add: RequestChunks_def SendChunkRequest_def UnmarshalPayload_def Let_def)
qed


section \<open>Properties\<close>


definition transport1 :: Transport where
  "transport1 = \<lparr>tp_config = \<lparr>cf_PeerName = ''a'', cf_MerkleRoot = [1], cf_FileCount = 1, cf_TotalSize = 2,
     cf_Certificate = None, cf_OnManifestRequest = None,
     cf_OnChunkRequest = Some (\<lambda>p req. Some \<lparr>cs_Chunks = [], cs_NotFound = cr_ChunkHashes req\<rparr>)\<rparr>,
     tp_localID = replicate 32 7, tp_localCert = [[1]], tp_merkleRoot = [1], tp_peers = Map.empty\<rparr>"

definition request1 :: msg where "request1 = MsgChunkRequest \<lparr>cr_ChunkHashes = [[5]], cr_Priority = 1\<rparr>"
definition response1 :: msg where "response1 = MsgChunkResponse \<lparr>cs_Chunks = [], cs_NotFound = [[5]]\<rparr>"

definition codec1 :: codec where
  "codec1 = list_codec [MsgHandshake (handshake_of transport1), MsgHandshakeAck (ack_of transport1), request1, response1]"

lemma codec1_ok: "codec_ok codec1"
  by (simp add: codec1_def list_codec_ok)

lemma codec1_fits:
  "fits codec1 MESSAGE_TYPE_HANDSHAKE i (MsgHandshake (handshake_of transport1))"
  "fits codec1 MESSAGE_TYPE_HANDSHAKE_ACK i (MsgHandshakeAck (ack_of transport1))"
  "fits codec1 MESSAGE_TYPE_CHUNK_REQUEST i request1" "fits codec1 MESSAGE_TYPE_CHUNK_RESPONSE i response1"
  by (simp_all add: codec1_def fits_def frame_def list_codec_def message_types MaxMessage_def
      request1_def response1_def)


text \<open>
  The responder accepts every handshake that decodes: neither the protocol version nor the claimed
  certificate fingerprint is compared with anything.
\<close>

theorem responder_accepts_any_version:
  assumes "codec_ok cd" "fits cd MESSAGE_TYPE_HANDSHAKE i (MsgHandshake hs)"
    and "fits cd MESSAGE_TYPE_HANDSHAKE_ACK 0 (MsgHandshakeAck (ack_of t))"
  shows "\<exists>b w. WriteEnvelope cd new_writer MESSAGE_TYPE_HANDSHAKE i (MsgHandshake hs) = (Inr (), new_writer\<lparr>wr_bytes := b\<rparr>) \<and>
    performHandshake cd t addr \<lparr>sm_out = new_writer, sm_reply = (\<lambda>_. reader_of b)\<rparr> pid False =
      (Inr \<lparr>pr_ID = pid, pr_Name = hk_PeerName hs, pr_Addr = addr, pr_MerkleRoot = hk_MerkleRoot hs,
        pr_FileCount = hk_FileCount hs, pr_TotalSize = hk_TotalSize hs, pr_nextReqID = 0\<rparr>, w)"
proof -
  from assms(1,2) obtain b env where b: "WriteEnvelope cd new_writer MESSAGE_TYPE_HANDSHAKE i (MsgHandshake hs) =
      (Inr (), new_writer\<lparr>wr_bytes := b\<rparr>)" by (rule send_receive)
  from assms(1,3) obtain a env where a: "WriteEnvelope cd new_writer MESSAGE_TYPE_HANDSHAKE_ACK 0 (MsgHandshakeAck (ack_of t)) =
      (Inr (), new_writer\<lparr>wr_bytes := a\<rparr>)" by (rule send_receive)
  show ?thesis using b responder_spec [OF assms b a] by blast
qed

definition old_handshake :: Handshake where
  "old_handshake = \<lparr>hk_ProtocolVersion = 99, hk_CertFingerprint = [], hk_PeerName = ''z'', hk_Capabilities = 0,
     hk_MerkleRoot = [], hk_FileCount = 0, hk_TotalSize = 0\<rparr>"

lemma responder_accepts_any_version_witness:
  "\<exists>b w p. performHandshake (list_codec [MsgHandshake old_handshake, MsgHandshakeAck (ack_of transport1)]) transport1 ''x''
      \<lparr>sm_out = new_writer, sm_reply = (\<lambda>_. reader_of b)\<rparr> [1] False = (Inr p, w) \<and> pr_Name p = ''z''"
proof -
  let ?cd = "list_codec [MsgHandshake old_handshake, MsgHandshakeAck (ack_of transport1)]"
  have "fits ?cd MESSAGE_TYPE_HANDSHAKE 0 (MsgHandshake old_handshake)"
    "fits ?cd MESSAGE_TYPE_HANDSHAKE_ACK 0 (MsgHandshakeAck (ack_of transport1))"
    by (simp_all add: fits_def frame_def list_codec_def message_types MaxMessage_def)
  from responder_accepts_any_version [OF list_codec_ok this, of "''x''" "[1]"] show ?thesis
    by (fastforce simp: old_handshake_def)
qed

text \<open>
  A chunk request is answered: over a stream served by \<open>handleStream\<close>, \<open>RequestChunks\<close> returns exactly
  what the remote's handler returned for these hashes, and the request ID moves on.
\<close>

theorem request_chunks_served:
  assumes "codec_ok cd" "cf_OnChunkRequest (tp_config t) = Some f"
    and "f p \<lparr>cr_ChunkHashes = hashes, cr_Priority = 1\<rparr> = Some resp"
    and "fits cd MESSAGE_TYPE_CHUNK_REQUEST (pr_nextReqID peer) (MsgChunkRequest \<lparr>cr_ChunkHashes = hashes, cr_Priority = 1\<rparr>)"
    and "fits cd MESSAGE_TYPE_CHUNK_RESPONSE (pr_nextReqID peer) (MsgChunkResponse resp)"
  shows "RequestChunks cd (Some \<lparr>sm_out = new_writer,
      sm_reply = (\<lambda>sent. reader_of (wr_bytes (handleStream cd t p (reader_of sent) new_writer)))\<rparr>) peer hashes =
    (Inr resp, peer\<lparr>pr_nextReqID := pr_nextReqID peer + 1\<rparr>)"
  using assms by (rule RequestChunks_served)

definition peer1 :: Peer where
  "peer1 = \<lparr>pr_ID = [2], pr_Name = ''b'', pr_Addr = ''y'', pr_MerkleRoot = [2], pr_FileCount = 0,
     pr_TotalSize = 0, pr_nextReqID = 3\<rparr>"

lemma request_chunks_served_witness:
  "RequestChunks codec1 (Some \<lparr>sm_out = new_writer,
      sm_reply = (\<lambda>sent. reader_of (wr_bytes (handleStream codec1 transport1 peer1 (reader_of sent) new_writer)))\<rparr>) peer1 [[5]] =
    (Inr \<lparr>cs_Chunks = [], cs_NotFound = [[5]]\<rparr>, peer1\<lparr>pr_nextReqID := 4\<rparr>)"
  using request_chunks_served [OF codec1_ok, of transport1 _ peer1 "[[5]]" "\<lparr>cs_Chunks = [], cs_NotFound = [[5]]\<rparr>" peer1]
    codec1_fits(3,4)
  by (simp add: transport1_def request1_def response1_def peer1_def)



text \<open>
  C37. Two connections to the same peer can lose it: there is an execution after which a connection is
  live and its peer is missing from the table. Both connections pass the check before either
  registers, and the end of the first removes the entry of the second.
\<close>

theorem peer_table_race:
  "\<exists>s. (tstep (\<lambda>c. p))\<^sup>*\<^sup>* table0 s \<and> 1 \<in> tb_live s \<and> tb_peers s p = None"
proof -
  let ?t = "tstep (\<lambda>c :: nat. p)"
  let ?s1 = "\<lparr>tb_peers = Map.empty, tb_checked = {0}, tb_live = {}, tb_used = {0}\<rparr>"
  let ?s2 = "\<lparr>tb_peers = Map.empty, tb_checked = {0, 1}, tb_live = {}, tb_used = {0, 1}\<rparr>"
  let ?s3 = "\<lparr>tb_peers = [p \<mapsto> 0], tb_checked = {1}, tb_live = {0}, tb_used = {0, 1}\<rparr>"
  let ?s4 = "\<lparr>tb_peers = [p \<mapsto> 1], tb_checked = {}, tb_live = {0, 1}, tb_used = {0, 1}\<rparr>"
  let ?s5 = "\<lparr>tb_peers = Map.empty, tb_checked = {}, tb_live = {1}, tb_used = {0, 1}\<rparr>"
  have "?t table0 ?s1" using tstep.checked [of 0 table0 "\<lambda>c. p"] by (simp add: table0_def)
  moreover have "?t ?s1 ?s2" using tstep.checked [of 1 ?s1 "\<lambda>c. p"] by (simp add: insert_commute)
  moreover have "?t ?s2 ?s3" using tstep.register [of 0 ?s2 "\<lambda>c. p"] by simp
  moreover have "?t ?s3 ?s4" using tstep.register [of 1 ?s3 "\<lambda>c. p"] by (simp add: insert_commute)
  moreover have "?t ?s4 ?s5" using tstep.remove [of 0 ?s4 "\<lambda>c. p"] by simp
  ultimately have "?t\<^sup>*\<^sup>* table0 ?s5"
    by (meson rtranclp.rtrancl_into_rtrancl rtranclp.rtrancl_refl)
  then show ?thesis by (intro exI [of _ ?s5]) simp
qed

end
