(* ===== verification/Chunker.thy ===== *)
theory Chunker
  imports Sha256
begin

text \<open>
  Model of \<open>internal/cas/chunk.go\<close>: chunks with their digest, the chunker that cuts a reader into
  4 KB chunks, and its three drivers (all chunks at once, a stream over two channels, the hasher).
  The pooled read buffer carries no information from one call to the next, because \<open>Next\<close> copies
  what it read, so the model passes the bytes themselves.
\<close>

section \<open>Definitions\<close>

definition ChunkSize :: nat where "ChunkSize = 4 * 1024"

record Chunk =
  ch_Hash :: bytes
  ch_Size :: u32
  ch_Data :: bytes

definition HashHex :: "Chunk \<Rightarrow> string" where
  "HashHex c = EncodeToString (ch_Hash c)"

text \<open>\<open>Next\<close> returns a chunk, or the error that ends the stream, and the reader after it.\<close>

definition Next :: "(bytes \<Rightarrow> bytes) \<Rightarrow> reader \<Rightarrow> (io_err + Chunk) \<times> reader" where
  "Next H r =
     (case ReadFull ChunkSize r of
        (buf, err, r') \<Rightarrow>
          (if err = Some EOF then Inl EOF
           else case (if err = Some ErrUnexpectedEOF then None else err) of
                  Some e \<Rightarrow> Inl e
                | None \<Rightarrow>
                    if length buf = 0 then Inl EOF
                    else Inr \<lparr>ch_Hash = H buf, ch_Size = of_nat (length buf), ch_Data = buf\<rparr>,
           r'))"

lemma Next_decreases:
  "Next H r = (Inr c, r') \<Longrightarrow> length (rd_bytes r') < length (rd_bytes r)"
  by (auto simp: Next_def ReadFull_def ChunkSize_def split: if_splits option.splits)

text \<open>\<open>ChunkAll\<close> drops the chunks it has when the reader fails.\<close>

function chunk_loop :: "(bytes \<Rightarrow> bytes) \<Rightarrow> reader \<Rightarrow> Chunk list \<Rightarrow> (io_err + Chunk list)" where
  "chunk_loop H r chunks =
     (case Next H r of
        (Inl e, r') \<Rightarrow> if e = EOF then Inr chunks else Inl e
      | (Inr chunk, r') \<Rightarrow> chunk_loop H r' (chunks @ [chunk]))"
  by pat_completeness auto
termination
  by (relation "measure (\<lambda>(H, r, cs). length (rd_bytes r))") (auto dest: Next_decreases [OF sym])

declare chunk_loop.simps [simp del]

definition ChunkAll :: "(bytes \<Rightarrow> bytes) \<Rightarrow> reader \<Rightarrow> (io_err + Chunk list)" where
  "ChunkAll H r = chunk_loop H r []"

text \<open>
  \<open>ChunkStream\<close> sends each chunk as it is read. The two channels are the sequences of values sent
  on them before they are closed.
\<close>

record chunk_channels =
  cc_chunks :: "Chunk list"
  cc_errs :: "io_err list"

function ChunkStream :: "(bytes \<Rightarrow> bytes) \<Rightarrow> reader \<Rightarrow> chunk_channels \<Rightarrow> chunk_channels" where
  "ChunkStream H r ch =
     (case Next H r of
        (Inl e, r') \<Rightarrow> if e = EOF then ch else ch\<lparr>cc_errs := cc_errs ch @ [e]\<rparr>
      | (Inr chunk, r') \<Rightarrow> ChunkStream H r' (ch\<lparr>cc_chunks := cc_chunks ch @ [chunk]\<rparr>))"
  by pat_completeness auto
termination
  by (relation "measure (\<lambda>(H, r, ch). length (rd_bytes r))") (auto dest: Next_decreases [OF sym])

declare ChunkStream.simps [simp del]

text \<open>The hasher accumulates what is written to it; \<open>Sum(b)\<close> appends the digest to \<open>b\<close>.\<close>

record Hasher =
  hs_written :: bytes

definition NewHasher :: Hasher where "NewHasher = \<lparr>hs_written = []\<rparr>"

definition hs_Write :: "Hasher \<Rightarrow> bytes \<Rightarrow> int \<times> Hasher" where
  "hs_Write h p = (int (length p), h\<lparr>hs_written := hs_written h @ p\<rparr>)"

definition hs_Sum :: "(bytes \<Rightarrow> bytes) \<Rightarrow> Hasher \<Rightarrow> bytes \<Rightarrow> bytes" where
  "hs_Sum H h b = b @ H (hs_written h)"


section \<open>Lemmas\<close>

text \<open>The chunk of a block of data, and what makes a chunk valid.\<close>

definition chunk_of :: "(bytes \<Rightarrow> bytes) \<Rightarrow> bytes \<Rightarrow> Chunk" where
  "chunk_of H d = \<lparr>ch_Hash = H d, ch_Size = of_nat (length d), ch_Data = d\<rparr>"

definition chunk_valid :: "(bytes \<Rightarrow> bytes) \<Rightarrow> Chunk \<Rightarrow> bool" where
  "chunk_valid H c \<longleftrightarrow>
     ch_Hash c = H (ch_Data c) \<and> unat (ch_Size c) = length (ch_Data c) \<and>
     0 < length (ch_Data c) \<and> length (ch_Data c) \<le> ChunkSize"

lemma chunk_of_simps [simp]:
  "ch_Hash (chunk_of H d) = H d" "ch_Data (chunk_of H d) = d" "ch_Size (chunk_of H d) = of_nat (length d)"
  by (simp_all add: chunk_of_def)

lemma chunk_of_valid: "d \<in> set (blocks ChunkSize xs) \<Longrightarrow> chunk_valid H (chunk_of H d)"
  using blocks_bounds [of d ChunkSize xs] by (simp add: chunk_valid_def ChunkSize_def)

text \<open>\<open>Next\<close> on the three shapes of the rest of the input.\<close>

lemma Next_more:
  assumes "rd_bytes r \<noteq> []" and "ChunkSize \<le> length (rd_bytes r) \<or> rd_fail r = None"
  shows "Next H r = (Inr (chunk_of H (take ChunkSize (rd_bytes r))),
    r\<lparr>rd_bytes := drop ChunkSize (rd_bytes r)\<rparr>)"
  using assms by (auto simp: Next_def ReadFull_def chunk_of_def ChunkSize_def)

lemma Next_end: "rd_bytes r = [] \<Longrightarrow> rd_fail r = None \<Longrightarrow> Next H r = (Inl EOF, r)"
  by (simp add: Next_def ReadFull_def ChunkSize_def)

lemma Next_fail:
  "length (rd_bytes r) < ChunkSize \<Longrightarrow> rd_fail r = Some e \<Longrightarrow>
    Next H r = (Inl (IOErr e), r\<lparr>rd_bytes := []\<rparr>)"
  by (simp add: Next_def ReadFull_def)

text \<open>
  Every driver of the chunker is the iteration of \<open>Next\<close>; \<open>stream_end\<close> is the error it ends with,
  and \<open>stream_data\<close> the blocks it delivers before that.
\<close>

definition stream_end :: "reader \<Rightarrow> io_err" where
  "stream_end r = (case rd_fail r of None \<Rightarrow> EOF | Some e \<Rightarrow> IOErr e)"

definition stream_data :: "reader \<Rightarrow> bytes list" where
  "stream_data r =
     (case rd_fail r of
        None \<Rightarrow> blocks ChunkSize (rd_bytes r)
      | Some e \<Rightarrow> filter (\<lambda>b. length b = ChunkSize) (blocks ChunkSize (rd_bytes r)))"

lemma stream_cases [case_names more stop]:
  obtains d where "Next H r = (Inr (chunk_of H d), r\<lparr>rd_bytes := drop ChunkSize (rd_bytes r)\<rparr>)"
      "d = take ChunkSize (rd_bytes r)" "d \<noteq> []"
      "stream_data r = d # stream_data (r\<lparr>rd_bytes := drop ChunkSize (rd_bytes r)\<rparr>)"
      "stream_end (r\<lparr>rd_bytes := drop ChunkSize (rd_bytes r)\<rparr>) = stream_end r"
    | r' where "Next H r = (Inl (stream_end r), r')" "stream_data r = []"
proof (cases "rd_bytes r \<noteq> [] \<and> (ChunkSize \<le> length (rd_bytes r) \<or> rd_fail r = None)")
  case True
  then have "stream_data r = take ChunkSize (rd_bytes r) # stream_data (r\<lparr>rd_bytes := drop ChunkSize (rd_bytes r)\<rparr>)"
    by (auto simp: stream_data_def blocks_step ChunkSize_def split: option.splits)
  then show ?thesis
    using True by (intro that(1)) (auto simp: Next_more stream_end_def ChunkSize_def)
next
  case False
  show ?thesis
  proof (cases "rd_fail r")
    case None
    then show ?thesis using False by (intro that(2)) (auto simp: Next_end stream_end_def stream_data_def)
  next
    case (Some e)
    then have "length (rd_bytes r) < ChunkSize" using False by (auto simp: ChunkSize_def)
    moreover from this have "stream_data r = []"
      using Some by (cases "rd_bytes r = []") (auto simp: stream_data_def blocks_step)
    ultimately show ?thesis using Some by (intro that(2)) (auto simp: Next_fail stream_end_def)
  qed
qed

lemma stream_data_valid: "d \<in> set (stream_data r) \<Longrightarrow> d \<in> set (blocks ChunkSize (rd_bytes r))"
  by (auto simp: stream_data_def split: option.splits)

lemma chunk_loop_spec:
  "chunk_loop H r cs =
     (if stream_end r = EOF then Inr (cs @ map (chunk_of H) (stream_data r)) else Inl (stream_end r))"
proof (induction H r cs rule: chunk_loop.induct)
  case (1 H r cs)
  show ?case
    by (cases H r rule: stream_cases) (simp_all add: chunk_loop.simps [of H r] 1)
qed

lemma ChunkStream_spec:
  "ChunkStream H r ch =
     ch\<lparr>cc_chunks := cc_chunks ch @ map (chunk_of H) (stream_data r),
        cc_errs := cc_errs ch @ (if stream_end r = EOF then [] else [stream_end r])\<rparr>"
proof (induction H r ch rule: ChunkStream.induct)
  case (1 H r ch)
  show ?case
    by (cases H r rule: stream_cases) (simp_all add: ChunkStream.simps [of H r] 1)
qed

lemma stream_of [simp]:
  "stream_end (reader_of xs) = EOF" "stream_data (reader_of xs) = blocks ChunkSize xs"
  by (simp_all add: stream_end_def stream_data_def)

lemma ChunkAll_reader_of: "ChunkAll H (reader_of xs) = Inr (map (chunk_of H) (blocks ChunkSize xs))"
  by (simp add: ChunkAll_def chunk_loop_spec)


section \<open>Properties\<close>

text \<open>
  C29. Chunking is lossless and total: \<open>ChunkAll\<close> returns on every input, the chunks' data in order
  are the input, each chunk carries the digest and the size of its data, every chunk but the last
  has exactly 4096 bytes, and their number is the length over 4096, rounded up.
\<close>

theorem chunk_all_correct:
  "\<exists>cs. ChunkAll H (reader_of xs) = Inr cs \<and> concat (map ch_Data cs) = xs \<and>
     list_all (chunk_valid H) cs \<and> length cs = (length xs + 4095) div 4096 \<and>
     list_all (\<lambda>c. length (ch_Data c) = 4096) (butlast cs)"
proof -
  let ?bl = "blocks ChunkSize xs"
  have "list_all (\<lambda>b. length b = 4096) (butlast ?bl)"
    unfolding list_all_length
    by (auto simp: nth_butlast blocks_full_but_last ChunkSize_def)
  moreover have "concat ?bl = xs" "length ?bl = (length xs + 4095) div 4096"
    using length_blocks [of ChunkSize xs] by (simp_all add: ChunkSize_def)
  ultimately show ?thesis
    by (simp add: ChunkAll_reader_of comp_def list_all_iff chunk_of_valid map_butlast [symmetric])
qed

text \<open>
  A read error is never mistaken for the end of the input: \<open>ChunkAll\<close> returns that error, and
  \<open>ChunkStream\<close>, which has already sent the full chunks before it, sends it on the error channel and
  sends no chunk for the bytes of the interrupted read.
\<close>

theorem chunk_read_error:
  assumes "rd_fail r = Some e"
  shows "ChunkAll H r = Inl (IOErr e) \<and>
    ChunkStream H r \<lparr>cc_chunks = [], cc_errs = []\<rparr> =
      \<lparr>cc_chunks = map (chunk_of H) (filter (\<lambda>b. length b = 4096) (blocks 4096 (rd_bytes r))),
       cc_errs = [IOErr e]\<rparr>"
  using assms
  by (simp add: ChunkAll_def chunk_loop_spec ChunkStream_spec stream_end_def stream_data_def ChunkSize_def)

lemma chunk_read_error_witness:
  "ChunkAll pad_hash \<lparr>rd_bytes = [1, 2], rd_fail = Some ''disk''\<rparr> = Inl (IOErr ''disk'')"
  using chunk_read_error [of "\<lparr>rd_bytes = [1, 2], rd_fail = Some ''disk''\<rparr>" "''disk''" pad_hash] by simp

end
