(* ===== verification/Fs.thy ===== *)
theory Fs
  imports Prelude "HOL-Library.Sublist"
begin

text \<open>
  The file system as the program sees it through package \<open>os\<close>: a map from cleaned paths, given as
  lists of components, to directories and regular files. Permissions, links and timestamps are left
  out. The system calls the program makes are functions on this map that return the error of the
  call or its result. A call can also fail for a reason outside the map (a full disk, a hardware
  error): the callers take such faults as arguments.
\<close>

section \<open>Definitions\<close>

type_synonym path = "string list"

datatype inode = Dir | File bytes

type_synonym fs = "path \<rightharpoonup> inode"

datatype errno = ENOENT | ENOTDIR | EISDIR | EEXIST | ENOTEMPTY | EIO

fun is_file :: "inode option \<Rightarrow> bool" where
  "is_file (Some (File d)) = True"
| "is_file _ = False"

text \<open>The error of a lookup that fails: a regular file in the middle of the path is \<open>ENOTDIR\<close>.\<close>

definition lookup_err :: "fs \<Rightarrow> path \<Rightarrow> errno" where
  "lookup_err fs p = (if list_ex (\<lambda>n. is_file (fs (take n p))) [0..<length p] then ENOTDIR else ENOENT)"

definition os_Stat :: "fs \<Rightarrow> path \<Rightarrow> errno + inode" where
  "os_Stat fs p = (case fs p of Some i \<Rightarrow> Inr i | None \<Rightarrow> Inl (lookup_err fs p))"

text \<open>
  \<open>os.MkdirAll\<close> creates the missing directories from the top; \<open>budget\<close> is the number of \<open>mkdir\<close>
  calls that succeed before one fails.
\<close>

fun mkdirs :: "nat option \<Rightarrow> fs \<Rightarrow> path \<Rightarrow> string list \<Rightarrow> errno option \<times> fs" where
  "mkdirs budget fs p [] = (None, fs)"
| "mkdirs budget fs p (x # xs) =
     (case fs (p @ [x]) of
        Some Dir \<Rightarrow> mkdirs budget fs (p @ [x]) xs
      | Some (File d) \<Rightarrow> (Some ENOTDIR, fs)
      | None \<Rightarrow>
          if budget = Some 0 then (Some EIO, fs)
          else mkdirs (map_option (\<lambda>k. k - 1) budget) (fs(p @ [x] \<mapsto> Dir)) (p @ [x]) xs)"

definition os_MkdirAll :: "nat option \<Rightarrow> fs \<Rightarrow> path \<Rightarrow> errno option \<times> fs" where
  "os_MkdirAll budget fs p = mkdirs budget fs [] p"

text \<open>\<open>os.OpenFile\<close> with \<open>O_WRONLY|O_CREATE|O_TRUNC\<close>, and \<open>os.Create\<close>.\<close>

definition os_Create :: "fs \<Rightarrow> path \<Rightarrow> errno option \<times> fs" where
  "os_Create fs p =
     (if fs p = Some Dir then (Some EISDIR, fs)
      else case fs (butlast p) of
             Some Dir \<Rightarrow> (None, fs(p \<mapsto> File []))
           | Some (File d) \<Rightarrow> (Some ENOTDIR, fs)
           | None \<Rightarrow> (Some (lookup_err fs (butlast p)), fs))"

definition os_Rename :: "fs \<Rightarrow> path \<Rightarrow> path \<Rightarrow> errno option \<times> fs" where
  "os_Rename fs old new =
     (if fs new = Some Dir then (Some EEXIST, fs)
      else case fs old of
             Some (File d) \<Rightarrow> (None, (fs(old := None))(new \<mapsto> File d))
           | Some Dir \<Rightarrow> (Some (if fs new = None then EIO else ENOTDIR), fs)
           | None \<Rightarrow> (Some (lookup_err fs old), fs))"

text \<open>
  \<open>os.Remove\<close>. Whether a directory is empty is not decidable on a map with infinite domain, so the
  caller gives the names that occur below it.
\<close>

definition os_Remove :: "string list \<Rightarrow> fs \<Rightarrow> path \<Rightarrow> errno option \<times> fs" where
  "os_Remove names fs p =
     (case fs p of
        Some (File d) \<Rightarrow> (None, fs(p := None))
      | Some Dir \<Rightarrow> if names = [] then (None, fs(p := None)) else (Some ENOTEMPTY, fs)
      | None \<Rightarrow> (Some (lookup_err fs p), fs))"

definition IsNotExist :: "errno \<Rightarrow> bool" where
  "IsNotExist e \<longleftrightarrow> e = ENOENT"

text \<open>
  Package \<open>filepath\<close> on cleaned paths. \<open>Join\<close> drops empty elements; the elements the program joins
  are single components.
\<close>

definition Join :: "path \<Rightarrow> string list \<Rightarrow> path" where
  "Join p els = p @ filter (\<lambda>x. x \<noteq> []) els"

text \<open>\<open>path + ext\<close> extends the last component.\<close>

definition add_suffix :: "path \<Rightarrow> string \<Rightarrow> path" where
  "add_suffix p ext = butlast p @ [last p @ ext]"

text \<open>\<open>filepath.Ext(name)\<close>: from the last dot on, empty when there is none.\<close>

definition Ext :: "string \<Rightarrow> string" where
  "Ext name = (if CHR ''.'' \<in> set name then CHR ''.'' # rev (takeWhile (\<lambda>c. c \<noteq> CHR ''.'') (rev name)) else [])"


section \<open>Lemmas\<close>

text \<open>Every entry lies in a directory.\<close>

definition fs_wf :: "fs \<Rightarrow> bool" where
  "fs_wf fs \<longleftrightarrow> fs [] = Some Dir \<and> (\<forall>p x. fs (p @ [x]) \<noteq> None \<longrightarrow> fs p = Some Dir)"

lemma fs_wf_prefix:
  assumes "fs_wf fs" "fs q = Some Dir" "prefix p q"
  shows "fs p = Some Dir"
  using assms(2,3)
proof (induction q rule: rev_induct)
  case Nil
  then show ?case by simp
next
  case (snoc x q)
  show ?case
  proof (cases "p = q @ [x]")
    case True
    then show ?thesis using snoc.prems by simp
  next
    case False
    then have "prefix p q" using snoc.prems by (simp add: prefix_snoc)
    moreover have "fs q = Some Dir" using assms(1) snoc.prems by (auto simp: fs_wf_def)
    ultimately show ?thesis using snoc.IH by blast
  qed
qed

lemma lookup_err_ENOENT: "lookup_err fs p = ENOENT \<longleftrightarrow> (\<forall>n < length p. \<not> is_file (fs (take n p)))"
  unfolding lookup_err_def list_ex_iff by force

lemma fs_wf_lookup:
  assumes "fs_wf fs" and "fs p = Some Dir" and "fs (p @ [x]) \<noteq> Some Dir" and "fs (p @ [x, y]) = None"
    and "\<not> is_file (fs (p @ [x]))"
  shows "lookup_err fs (p @ [x, y]) = ENOENT"
proof -
  have "\<not> is_file (fs (take n (p @ [x, y])))" if "n < length (p @ [x, y])" for n
  proof (cases "n \<le> length p")
    case True
    then have "fs (take n p) = Some Dir"
      using fs_wf_prefix [OF assms(1,2), of "take n p"] by (simp add: take_is_prefix)
    then show ?thesis using True by simp
  next
    case False
    then have "n = Suc (length p)" using that by simp
    then show ?thesis using assms(5) by simp
  qed
  then show ?thesis unfolding lookup_err_ENOENT by blast
qed

lemma lookup_err_in_dir:
  assumes "fs_wf fs" and "fs p = Some Dir"
  shows "lookup_err fs (p @ [x]) = ENOENT"
proof -
  have "\<not> is_file (fs (take n (p @ [x])))" if "n < length (p @ [x])" for n
    using that fs_wf_prefix [OF assms, of "take n p"] by (simp add: take_is_prefix)
  then show ?thesis unfolding lookup_err_ENOENT by blast
qed

text \<open>What \<open>MkdirAll\<close> may change, and that it succeeds when no file is in its way.\<close>

lemma mkdirs_cases [case_names dir blocked fault create]:
  obtains "fs (p @ [x]) = Some Dir" "mkdirs b fs p (x # xs) = mkdirs b fs (p @ [x]) xs"
    | d where "fs (p @ [x]) = Some (File d)" "mkdirs b fs p (x # xs) = (Some ENOTDIR, fs)"
    | "fs (p @ [x]) = None" "b = Some 0" "mkdirs b fs p (x # xs) = (Some EIO, fs)"
    | b' where "fs (p @ [x]) = None" "b \<noteq> Some 0" "b' = map_option (\<lambda>k. k - 1) b"
        "mkdirs b fs p (x # xs) = mkdirs b' (fs(p @ [x] \<mapsto> Dir)) (p @ [x]) xs"
  by (cases "fs (p @ [x])"; cases "the (fs (p @ [x]))"; cases "b = Some 0") auto

lemma mkdirs_frame:
  assumes "mkdirs b fs p xs = (e, fs')"
  shows "fs' q = fs q \<or> (fs q = None \<and> fs' q = Some Dir \<and> prefix q (p @ xs) \<and> length p < length q)"
  using assms
proof (induction xs arbitrary: b fs p)
  case (Cons x xs)
  show ?case
  proof (cases rule: mkdirs_cases [of fs p x b xs])
    case dir
    then show ?thesis using Cons.IH [of b fs "p @ [x]"] Cons.prems by force
  next
    case (create b')
    then have "mkdirs b' (fs(p @ [x] \<mapsto> Dir)) (p @ [x]) xs = (e, fs')" using Cons.prems by simp
    from Cons.IH [OF this] create(1) show ?thesis by (cases "q = p @ [x]") auto
  qed (use Cons.prems in simp_all)
qed simp

lemma fs_wf_mkdir: "fs_wf fs \<Longrightarrow> fs p = Some Dir \<Longrightarrow> fs_wf (fs(p @ [x] \<mapsto> Dir))"
  by (auto simp: fs_wf_def)

lemma fs_wf_file:
  "fs_wf fs \<Longrightarrow> fs p = Some Dir \<Longrightarrow> fs (p @ [x]) \<noteq> Some Dir \<Longrightarrow> fs_wf (fs(p @ [x] \<mapsto> File d))"
  unfolding fs_wf_def by (metis append_is_Nil_conv butlast_snoc fun_upd_apply not_Cons_self2 option.distinct(1))

lemma fs_wf_remove:
  "fs_wf fs \<Longrightarrow> fs p \<noteq> Some Dir \<Longrightarrow> fs_wf (fs(p := None))"
  unfolding fs_wf_def by (metis fun_upd_apply)

lemma mkdirs_wf:
  assumes "mkdirs b fs p xs = (e, fs')" "fs_wf fs" "fs p = Some Dir"
  shows "fs_wf fs' \<and> (e = None \<longrightarrow> fs' (p @ xs) = Some Dir)"
  using assms
proof (induction xs arbitrary: b fs p)
  case (Cons x xs)
  show ?case
  proof (cases rule: mkdirs_cases [of fs p x b xs])
    case dir
    then show ?thesis using Cons.IH [of b fs "p @ [x]"] Cons.prems by simp
  next
    case (create b')
    then have "mkdirs b' (fs(p @ [x] \<mapsto> Dir)) (p @ [x]) xs = (e, fs')" using Cons.prems by simp
    from Cons.IH [OF this fs_wf_mkdir] Cons.prems show ?thesis by simp
  qed (use Cons.prems in auto)
qed simp

lemma mkdirs_ok:
  assumes "\<And>n. n \<le> length xs \<Longrightarrow> \<not> is_file (fs (p @ take n xs))"
  shows "fst (mkdirs None fs p xs) = None"
  using assms
proof (induction xs arbitrary: fs p)
  case (Cons x xs)
  have nf: "\<not> is_file (fs ((p @ [x]) @ take n xs))" if "n \<le> length xs" for n
    using Cons.prems [of "Suc n"] that by simp
  show ?case
  proof (cases rule: mkdirs_cases [of fs p x None xs])
    case dir
    then show ?thesis using Cons.IH [of fs "p @ [x]", OF nf] by simp
  next
    case (blocked d)
    then show ?thesis using nf [of 0] by simp
  next
    case (create b')
    have "\<not> is_file ((fs(p @ [x] \<mapsto> Dir)) ((p @ [x]) @ take n xs))" if "n \<le> length xs" for n
      using nf [OF that] by (cases "(p @ [x]) @ take n xs = p @ [x]") auto
    from Cons.IH [of "fs(p @ [x] \<mapsto> Dir)" "p @ [x]", OF this] create show ?thesis
      by (simp add: fun_upd_def)
  qed simp
qed simp

lemma mkdirs_existing: "fs_wf fs \<Longrightarrow> fs (p @ xs) = Some Dir \<Longrightarrow> mkdirs b fs p xs = (None, fs)"
proof (induction xs arbitrary: p)
  case (Cons x xs)
  have "fs (p @ [x]) = Some Dir" using fs_wf_prefix [OF Cons.prems, of "p @ [x]"] by simp
  then show ?case using Cons by simp
qed simp

end
