(* ===== verification/BlobStore.thy ===== *)
theory BlobStore
  imports Chunker Fs
begin

text \<open>
  Model of \<open>internal/cas/store.go\<close>: the content-addressed store of chunks in a directory tree. The
  state is the file system (theory \<open>Fs\<close>); every operation takes the store and the file system, and
  those that change it return the new one. The mutex makes each operation atomic towards the others,
  so an execution is a sequence of operations. \<open>faults\<close> are the failures of the system calls of one
  \<open>Put\<close>: with the removal of the temporary file failing as well, they also describe every state a
  crash in the middle of \<open>Put\<close> can leave.
\<close>

section \<open>Definitions\<close>

record BlobStore =
  bst_baseDir :: path

definition DefaultStorageDir :: path where
  "DefaultStorageDir = [''.storage'', ''chunks'']"

definition PrefixLength :: nat where "PrefixLength = 2"

definition BufferSize :: nat where "BufferSize = 64 * 1024"

text \<open>The empty string is the empty path.\<close>

definition NewBlobStore :: "nat option \<Rightarrow> path \<Rightarrow> fs \<Rightarrow> BlobStore res \<times> fs" where
  "NewBlobStore budget dir fs =
     (let dir = (if dir = [] then DefaultStorageDir else dir)
      in case os_MkdirAll budget fs dir of
           (Some e, fs') \<Rightarrow> (Inl (Err ''creating storage directory''), fs')
         | (None, fs') \<Rightarrow> (Inr \<lparr>bst_baseDir = dir\<rparr>, fs'))"

definition chunkPath :: "BlobStore \<Rightarrow> string \<Rightarrow> path" where
  "chunkPath s hashHex =
     (if length hashHex < PrefixLength then Join (bst_baseDir s) [hashHex]
      else Join (bst_baseDir s) [take PrefixLength hashHex, drop PrefixLength hashHex])"

record faults =
  ft_mkdir :: "nat option"
  ft_open :: bool
  ft_write :: "nat option"
  ft_close :: bool
  ft_rename :: bool
  ft_remove :: bool

definition no_faults :: faults where
  "no_faults = \<lparr>ft_mkdir = None, ft_open = False, ft_write = None, ft_close = False,
     ft_rename = False, ft_remove = False\<rparr>"

text \<open>
  \<open>Put\<close>. The buffered writer passes data larger than its buffer straight to the file, so a short
  write is reported by \<open>Write\<close> for such data and by \<open>Flush\<close> otherwise.
\<close>

definition Put :: "faults \<Rightarrow> BlobStore \<Rightarrow> Chunk \<Rightarrow> fs \<Rightarrow> bool res \<times> fs" where
  "Put flt s chunk fs =
     (let path = chunkPath s (HashHex chunk)
      in case os_Stat fs path of
           Inr _ \<Rightarrow> (Inr False, fs)
         | Inl _ \<Rightarrow>
             (case os_MkdirAll (ft_mkdir flt) fs (butlast path) of
                (Some e, fs1) \<Rightarrow> (Inl (Err ''creating chunk directory''), fs1)
              | (None, fs1) \<Rightarrow>
                  let tmpPath = add_suffix path ''.tmp''
                  in case (if ft_open flt then (Some EIO, fs1) else os_Create fs1 tmpPath) of
                       (Some e, fs2) \<Rightarrow> (Inl (Err ''creating temp file''), fs2)
                     | (None, fs2) \<Rightarrow>
                         let data = ch_Data chunk;
                             written = (case ft_write flt of None \<Rightarrow> data | Some k \<Rightarrow> take k data);
                             flushErr = length written < length data;
                             writeErr = (flushErr \<and> BufferSize < length data);
                             fs3 = fs2(tmpPath \<mapsto> File written);
                             cleaned = (if ft_remove flt then fs3 else snd (os_Remove [] fs3 tmpPath))
                         in if writeErr then (Inl (Err ''writing chunk data''), cleaned)
                            else if flushErr then (Inl (Err ''flushing chunk data''), cleaned)
                            else if ft_close flt then (Inl (Err ''closing chunk file''), cleaned)
                            else case (if ft_rename flt then (Some EIO, fs3) else os_Rename fs3 tmpPath path) of
                                   (Some e, fs4) \<Rightarrow> (Inl (Err ''renaming chunk file''), cleaned)
                                 | (None, fs4) \<Rightarrow> (Inr True, fs4)))"

text \<open>\<open>os.Open\<close> opens directories too; reading one fails.\<close>

definition Get :: "BlobStore \<Rightarrow> bytes \<Rightarrow> fs \<Rightarrow> Chunk res" where
  "Get s hash fs =
     (let hashHex = EncodeToString hash
      in case os_Stat fs (chunkPath s hashHex) of
           Inl e \<Rightarrow> if IsNotExist e then Inl (ErrMsg ''chunk not found'' hashHex)
                    else Inl (Err ''opening chunk file'')
         | Inr Dir \<Rightarrow> Inl (Err ''reading chunk data'')
         | Inr (File data) \<Rightarrow>
             Inr \<lparr>ch_Hash = hash, ch_Size = of_nat (length data), ch_Data = data\<rparr>)"

definition Has :: "BlobStore \<Rightarrow> bytes \<Rightarrow> fs \<Rightarrow> bool" where
  "Has s hash fs = (case os_Stat fs (chunkPath s (EncodeToString hash)) of Inl e \<Rightarrow> False | Inr i \<Rightarrow> True)"

definition Verify :: "(bytes \<Rightarrow> bytes) \<Rightarrow> BlobStore \<Rightarrow> bytes \<Rightarrow> fs \<Rightarrow> unit res" where
  "Verify H s hash fs =
     (let hashHex = EncodeToString hash
      in case os_Stat fs (chunkPath s hashHex) of
           Inl e \<Rightarrow> if IsNotExist e then Inl (ErrMsg ''chunk not found'' hashHex)
                    else Inl (Err ''opening chunk for verification'')
         | Inr Dir \<Rightarrow> Inl (Err ''reading chunk for verification'')
         | Inr (File data) \<Rightarrow>
             if H data \<noteq> hash then Inl (ErrHash ''corruption detected'' (H data)) else Inr ())"

text \<open>\<open>names\<close> are the entries below the path, when it is a directory.\<close>

definition Delete :: "string list \<Rightarrow> BlobStore \<Rightarrow> bytes \<Rightarrow> fs \<Rightarrow> unit res \<times> fs" where
  "Delete names s hash fs =
     (case os_Remove names fs (chunkPath s (EncodeToString hash)) of
        (Some e, fs') \<Rightarrow> (if IsNotExist e then Inr () else Inl (Err ''deleting chunk''), fs')
      | (None, fs') \<Rightarrow> (Inr (), fs'))"

text \<open>\<open>StoreReader\<close>; \<open>flts n\<close> are the faults of the \<open>n\<close>-th \<open>Put\<close>.\<close>

function store_loop :: "(bytes \<Rightarrow> bytes) \<Rightarrow> (nat \<Rightarrow> faults) \<Rightarrow> BlobStore \<Rightarrow> reader \<Rightarrow> Chunk list \<Rightarrow> fs \<Rightarrow>
    Chunk list res \<times> fs" where
  "store_loop H flts s r stored fs =
     (case Next H r of
        (Inl e, r') \<Rightarrow> if e = EOF then (Inr stored, fs) else (Inl (Err ''chunking data''), fs)
      | (Inr chunk, r') \<Rightarrow>
          (case Put (flts (length stored)) s chunk fs of
             (Inl e, fs') \<Rightarrow> (Inl (ErrMsg ''storing chunk'' (HashHex chunk)), fs')
           | (Inr b, fs') \<Rightarrow> store_loop H flts s r' (stored @ [chunk\<lparr>ch_Data := []\<rparr>]) fs'))"
  by pat_completeness auto
termination
  by (relation "measure (\<lambda>(H, flts, s, r, st, fs). length (rd_bytes r))")
     (auto dest: Next_decreases [OF sym])

declare store_loop.simps [simp del]

definition StoreReader :: "(bytes \<Rightarrow> bytes) \<Rightarrow> (nat \<Rightarrow> faults) \<Rightarrow> BlobStore \<Rightarrow> reader \<Rightarrow> fs \<Rightarrow> Chunk list res \<times> fs" where
  "StoreReader H flts s r fs = store_loop H flts s r [] fs"

text \<open>
  \<open>VerifyAll\<close>; \<open>walk\<close> are the paths \<open>filepath.Walk\<close> visits below the base directory, in its order.
\<close>

definition walk_hash :: "path \<Rightarrow> string" where
  "walk_hash rel =
     (let dir = (if length rel \<le> 1 then ''.''
                 else foldl (\<lambda>acc x. acc @ CHR ''/'' # x) (hd rel) (tl (butlast rel)));
          name = (if rel = [] then ''.'' else last rel)
      in dir @ name)"

definition verify_visit ::
  "(bytes \<Rightarrow> bytes) \<Rightarrow> BlobStore \<Rightarrow> fs \<Rightarrow> (string \<rightharpoonup> go_error) \<Rightarrow> path \<Rightarrow> (string \<rightharpoonup> go_error)" where
  "verify_visit H s fs corrupted path =
     (if \<not> is_file (fs path) then corrupted
      else if Ext (last path) = ''.tmp'' then corrupted
      else let hashHex = walk_hash (drop (length (bst_baseDir s)) path)
           in case DecodeString hashHex of
                None \<Rightarrow> corrupted
              | Some hash \<Rightarrow>
                  (case Verify H s hash fs of
                     Inl e \<Rightarrow> corrupted(hashHex \<mapsto> e)
                   | Inr _ \<Rightarrow> corrupted))"

definition VerifyAll ::
  "(bytes \<Rightarrow> bytes) \<Rightarrow> BlobStore \<Rightarrow> path list \<Rightarrow> fs \<Rightarrow> (string \<rightharpoonup> go_error) \<times> go_error option" where
  "VerifyAll H s walk fs =
     (case os_Stat fs (bst_baseDir s) of
        Inl e \<Rightarrow> (Map.empty, Some (Err ''walking storage directory''))
      | Inr i \<Rightarrow> (foldl (verify_visit H s fs) Map.empty walk, None))"


section \<open>The interface of a chunk store\<close>

text \<open>
  What the synchroniser relies on: on 32-byte hashes the store is a partial map, \<open>put\<close> adds an entry
  and never replaces one, \<open>get\<close> and \<open>has\<close> look it up, \<open>del\<close> removes it.
\<close>

text \<open>Operations that change a store, on the store and on the map it stands for.\<close>

datatype store_op = SPut Chunk | SDelete bytes

fun op_hash :: "store_op \<Rightarrow> bytes" where
  "op_hash (SPut c) = ch_Hash c"
| "op_hash (SDelete h) = h"

fun store_exec :: "(Chunk \<Rightarrow> 's \<Rightarrow> bool res \<times> 's) \<Rightarrow> (bytes \<Rightarrow> 's \<Rightarrow> unit res \<times> 's) \<Rightarrow> 's \<Rightarrow> store_op \<Rightarrow> 's" where
  "store_exec put del s (SPut c) = snd (put c s)"
| "store_exec put del s (SDelete h) = snd (del h s)"

fun map_exec :: "(bytes \<rightharpoonup> bytes) \<Rightarrow> store_op \<Rightarrow> (bytes \<rightharpoonup> bytes)" where
  "map_exec m (SPut c) = (if m (ch_Hash c) = None then m(ch_Hash c \<mapsto> ch_Data c) else m)"
| "map_exec m (SDelete h) = m(h := None)"

locale chunk_store =
  fixes inv :: "'s \<Rightarrow> bool"
    and content :: "'s \<Rightarrow> bytes \<rightharpoonup> bytes"
    and put :: "Chunk \<Rightarrow> 's \<Rightarrow> bool res \<times> 's"
    and get :: "bytes \<Rightarrow> 's \<Rightarrow> Chunk res"
    and has :: "bytes \<Rightarrow> 's \<Rightarrow> bool"
    and del :: "bytes \<Rightarrow> 's \<Rightarrow> unit res \<times> 's"
  assumes put_law: "inv s \<Longrightarrow> length (ch_Hash c) = 32 \<Longrightarrow>
      \<exists>s'. put c s = (Inr (content s (ch_Hash c) = None), s') \<and> inv s' \<and>
        content s' = (if content s (ch_Hash c) = None then (content s)(ch_Hash c \<mapsto> ch_Data c) else content s)"
    and get_law: "inv s \<Longrightarrow> length h = 32 \<Longrightarrow>
      get h s = (case content s h of
                   None \<Rightarrow> Inl (ErrMsg ''chunk not found'' (EncodeToString h))
                 | Some d \<Rightarrow> Inr \<lparr>ch_Hash = h, ch_Size = of_nat (length d), ch_Data = d\<rparr>)"
    and has_law: "inv s \<Longrightarrow> length h = 32 \<Longrightarrow> has h s \<longleftrightarrow> content s h \<noteq> None"
    and del_law: "inv s \<Longrightarrow> length h = 32 \<Longrightarrow>
      \<exists>s'. del h s = (Inr (), s') \<and> inv s' \<and> content s' = (content s)(h := None)"
begin

text \<open>Every entry of a sound store has the hash it is stored under.\<close>

definition sound :: "(bytes \<Rightarrow> bytes) \<Rightarrow> 's \<Rightarrow> bool" where
  "sound H s \<longleftrightarrow> (\<forall>h d. content s h = Some d \<longrightarrow> H d = h)"

definition put_all :: "Chunk list \<Rightarrow> 's \<Rightarrow> 's" where
  "put_all cs s = foldl (\<lambda>s c. snd (put c s)) s cs"

lemma put_all_Cons: "put_all (c # cs) s = put_all cs (snd (put c s))"
  by (simp add: put_all_def)

lemma put_all_content:
  assumes "inv s" and "\<forall>c \<in> set cs. length (ch_Hash c) = 32"
  shows "inv (put_all cs s) \<and> content s \<subseteq>\<^sub>m content (put_all cs s) \<and>
    (\<forall>c \<in> set cs. content (put_all cs s) (ch_Hash c) \<noteq> None) \<and>
    (\<forall>h d. content (put_all cs s) h = Some d \<longrightarrow>
       content s h = Some d \<or> (\<exists>c \<in> set cs. ch_Hash c = h \<and> ch_Data c = d))"
  using assms
proof (induction cs arbitrary: s)
  case Nil
  then show ?case by (simp add: put_all_def)
next
  case (Cons c cs)
  obtain s1 where s1: "put c s = (Inr (content s (ch_Hash c) = None), s1)" "inv s1"
      "content s1 = (if content s (ch_Hash c) = None then (content s)(ch_Hash c \<mapsto> ch_Data c) else content s)"
    using put_law [of s c] Cons.prems by auto
  have eq: "put_all (c # cs) s = put_all cs s1" using s1(1) by (simp add: put_all_Cons)
  have IH: "inv (put_all cs s1)" "content s1 \<subseteq>\<^sub>m content (put_all cs s1)"
      "\<forall>c \<in> set cs. content (put_all cs s1) (ch_Hash c) \<noteq> None"
      "\<And>h d. content (put_all cs s1) h = Some d \<Longrightarrow>
        content s1 h = Some d \<or> (\<exists>c \<in> set cs. ch_Hash c = h \<and> ch_Data c = d)"
    using Cons.IH [OF s1(2)] Cons.prems(2) by auto
  have le: "content s \<subseteq>\<^sub>m content s1" "content s1 (ch_Hash c) \<noteq> None"
    using s1(3) by (auto simp: map_le_def)
  have "content (put_all cs s1) (ch_Hash c) \<noteq> None"
    using le(2) IH(2) by (force simp: map_le_def dom_def)
  moreover have "content s h = Some d \<or> (\<exists>c \<in> set (c # cs). ch_Hash c = h \<and> ch_Data c = d)"
    if "content (put_all cs s1) h = Some d" for h d
    using IH(4) [OF that] s1(3) by (auto split: if_splits)
  ultimately show ?case
    unfolding eq using IH(1,3) map_le_trans [OF le(1) IH(2)] by simp
qed

text \<open>
  Storing valid chunks in a sound store keeps it sound, and every one of them can be retrieved: an
  entry already there under the same hash is the same data, unless the digest collides.
\<close>

lemma put_all_retrieve:
  assumes "inv s" "sound H s" "\<forall>c \<in> set cs. ch_Hash c = H (ch_Data c) \<and> length (ch_Hash c) = 32"
    and "collision_free H (ran (content s) \<union> ch_Data ` set cs)"
    and "c \<in> set cs"
  shows "sound H (put_all cs s) \<and> get (ch_Hash c) (put_all cs s) = Inr (chunk_of H (ch_Data c))"
proof -
  let ?s = "put_all cs s"
  have "\<forall>c \<in> set cs. length (ch_Hash c) = 32" using assms(3) by blast
  from put_all_content [OF assms(1) this]
  have p: "inv ?s" "content ?s (ch_Hash c) \<noteq> None"
      "\<And>h d. content ?s h = Some d \<Longrightarrow>
        content s h = Some d \<or> (\<exists>c \<in> set cs. ch_Hash c = h \<and> ch_Data c = d)"
    using assms(5) by blast+
  have snd: "sound H ?s" using p(3) assms(2,3) unfolding sound_def by metis
  obtain d where d: "content ?s (ch_Hash c) = Some d" using p(2) by auto
  have "H d = H (ch_Data c)" using d snd assms(3,5) by (auto simp: sound_def)
  moreover have "d \<in> ran (content s) \<union> ch_Data ` set cs" using p(3) [OF d] by (auto simp: ran_def)
  ultimately have "d = ch_Data c" using collision_freeD [OF assms(4)] assms(5) by blast
  moreover have "length (ch_Hash c) = 32" "ch_Hash c = H (ch_Data c)" using assms(3,5) by auto
  ultimately show ?thesis using snd d get_law [OF p(1), of "ch_Hash c"] by (simp add: chunk_of_def)
qed

text \<open>Any sequence of operations does to the contents what it does to a map.\<close>

lemma run_refines:
  assumes "inv s" and "\<forall>op \<in> set ops. length (op_hash op) = 32"
  shows "inv (foldl (store_exec put del) s ops) \<and>
    content (foldl (store_exec put del) s ops) = foldl map_exec (content s) ops"
  using assms
proof (induction ops arbitrary: s)
  case (Cons op ops)
  have "inv (store_exec put del s op) \<and> content (store_exec put del s op) = map_exec (content s) op"
  proof (cases op)
    case (SPut c)
    then show ?thesis using put_law [of s c] Cons.prems by auto
  next
    case (SDelete h)
    then show ?thesis using del_law [of s h] Cons.prems by auto
  qed
  then show ?case using Cons.IH [of "store_exec put del s op"] Cons.prems(2) by simp
qed simp

end


section \<open>The file store implements the interface\<close>

text \<open>
  The invariant of the directory tree: the base directory exists, and at the three paths a 32-byte
  hash gives rise to there is no entry of the wrong kind.
\<close>

definition chunk_dir :: "BlobStore \<Rightarrow> bytes \<Rightarrow> path" where
  "chunk_dir s h = bst_baseDir s @ [take 2 (EncodeToString h)]"

definition chunk_file :: "BlobStore \<Rightarrow> bytes \<Rightarrow> path" where
  "chunk_file s h = bst_baseDir s @ [take 2 (EncodeToString h), drop 2 (EncodeToString h)]"

definition chunk_tmp :: "BlobStore \<Rightarrow> bytes \<Rightarrow> path" where
  "chunk_tmp s h = bst_baseDir s @ [take 2 (EncodeToString h), drop 2 (EncodeToString h) @ ''.tmp'']"

definition store_inv :: "BlobStore \<Rightarrow> fs \<Rightarrow> bool" where
  "store_inv s fs \<longleftrightarrow> fs_wf fs \<and> fs (bst_baseDir s) = Some Dir \<and>
     (\<forall>h. length h = 32 \<longrightarrow>
        \<not> is_file (fs (chunk_dir s h)) \<and> fs (chunk_file s h) \<noteq> Some Dir \<and> fs (chunk_tmp s h) \<noteq> Some Dir)"

definition store_content :: "BlobStore \<Rightarrow> fs \<Rightarrow> bytes \<rightharpoonup> bytes" where
  "store_content s fs h =
     (if length h = 32 then (case fs (chunk_file s h) of Some (File d) \<Rightarrow> Some d | _ \<Rightarrow> None) else None)"

lemma chunkPath_file: "2 \<le> length h \<Longrightarrow> chunkPath s (EncodeToString h) = chunk_file s h"
proof -
  assume "2 \<le> length h"
  then have l: "4 \<le> length (EncodeToString h)" by simp
  then have "EncodeToString h \<noteq> []" by (auto simp del: length_EncodeToString)
  then show ?thesis using l by (auto simp: chunkPath_def chunk_file_def Join_def PrefixLength_def)
qed

lemma chunk_paths [simp]:
  "butlast (chunk_file s h) = chunk_dir s h" "add_suffix (chunk_file s h) ''.tmp'' = chunk_tmp s h"
  "butlast (chunk_tmp s h) = chunk_dir s h"
  by (simp_all add: chunk_file_def chunk_dir_def chunk_tmp_def add_suffix_def butlast_append)

lemma chunk_file_inject: "chunk_file s h = chunk_file s h' \<longleftrightarrow> h = h'"
proof
  assume "chunk_file s h = chunk_file s h'"
  then have "take 2 (EncodeToString h) @ drop 2 (EncodeToString h) =
      take 2 (EncodeToString h') @ drop 2 (EncodeToString h')"
    unfolding chunk_file_def by simp
  then show "h = h'" by simp
qed simp

lemma chunk_tmp_neq:
  assumes "length h = 32" "length h' = 32"
  shows "chunk_tmp s h \<noteq> chunk_file s h'" "chunk_file s h' \<noteq> chunk_tmp s h"
    "chunk_dir s h \<noteq> chunk_file s h'" "chunk_dir s h \<noteq> chunk_tmp s h'" "chunk_tmp s h \<noteq> chunk_dir s h'"
    "chunk_file s h \<noteq> chunk_dir s h'"
proof -
  have "length (drop 2 (EncodeToString h) @ ''.tmp'') \<noteq> length (drop 2 (EncodeToString h'))"
    using assms by simp
  then have "drop 2 (EncodeToString h) @ ''.tmp'' \<noteq> drop 2 (EncodeToString h')" by metis
  then show "chunk_tmp s h \<noteq> chunk_file s h'" "chunk_file s h' \<noteq> chunk_tmp s h"
    unfolding chunk_tmp_def chunk_file_def by auto
qed (simp_all add: chunk_dir_def chunk_file_def chunk_tmp_def)

lemma chunk_base_neq [simp]:
  "chunk_dir s h \<noteq> bst_baseDir s" "chunk_file s h \<noteq> bst_baseDir s" "chunk_tmp s h \<noteq> bst_baseDir s"
  "bst_baseDir s \<noteq> chunk_dir s h" "bst_baseDir s \<noteq> chunk_file s h" "bst_baseDir s \<noteq> chunk_tmp s h"
  by (simp_all add: chunk_dir_def chunk_file_def chunk_tmp_def)

lemma MkdirAll_chunk_dir:
  assumes "store_inv s fs" "length h = 32"
  shows "os_MkdirAll None fs (chunk_dir s h) = (None, fs(chunk_dir s h \<mapsto> Dir))"
proof -
  have inv: "fs_wf fs" "fs (bst_baseDir s) = Some Dir" "\<not> is_file (fs (chunk_dir s h))"
    using assms by (auto simp: store_inv_def)
  have up: "fs q = Some Dir \<or> q = chunk_dir s h" if "prefix q (chunk_dir s h)" for q
    using that fs_wf_prefix [OF inv(1,2)] by (auto simp: chunk_dir_def prefix_snoc)
  obtain e fs' where m: "mkdirs None fs [] (chunk_dir s h) = (e, fs')" by force
  have "\<not> is_file (fs ([] @ take n (chunk_dir s h)))" for n
    using up [of "take n (chunk_dir s h)"] inv(3) by (auto simp: take_is_prefix)
  then have e: "e = None" using mkdirs_ok [of "chunk_dir s h" fs "[]"] m by simp
  have "fs' (chunk_dir s h) = Some Dir"
    using mkdirs_wf [OF m inv(1)] inv(1) e by (simp add: fs_wf_def)
  then have "fs' q = (fs(chunk_dir s h \<mapsto> Dir)) q" for q
    using mkdirs_frame [OF m, of q] up [of q] by auto
  then show ?thesis using m e by (simp add: os_MkdirAll_def fun_eq_iff)
qed

lemma Put_new:
  assumes "store_inv s fs" "length (ch_Hash c) = 32" "fs (chunk_file s (ch_Hash c)) = None"
  shows "Put no_faults s c fs = (Inr True,
    fs(chunk_dir s (ch_Hash c) \<mapsto> Dir, chunk_tmp s (ch_Hash c) := None,
       chunk_file s (ch_Hash c) \<mapsto> File (ch_Data c)))"
proof -
  let ?h = "ch_Hash c"
  have p: "chunkPath s (HashHex c) = chunk_file s ?h" using assms(2) by (simp add: HashHex_def chunkPath_file)
  have "fs (chunk_tmp s ?h) \<noteq> Some Dir" using assms(1,2) by (simp add: store_inv_def)
  then show ?thesis
    using assms(3) p MkdirAll_chunk_dir [OF assms(1,2)] chunk_tmp_neq [OF assms(2,2), of s]
    by (simp add: Put_def os_Stat_def no_faults_def os_Create_def os_Rename_def Let_def)
qed

lemma Put_exists:
  assumes "length (ch_Hash c) = 32" "fs (chunk_file s (ch_Hash c)) = Some i"
  shows "Put flt s c fs = (Inr False, fs)"
  using assms by (simp add: Put_def HashHex_def chunkPath_file os_Stat_def Let_def)

lemma store_inv_update:
  assumes "store_inv s fs" "length h = 32"
  shows "store_inv s (fs(chunk_dir s h \<mapsto> Dir, chunk_tmp s h := None, chunk_file s h \<mapsto> File d))"
    (is "store_inv s ?fs")
proof -
  have wf: "fs_wf fs" "fs (bst_baseDir s) = Some Dir" using assms(1) by (auto simp: store_inv_def)
  let ?f1 = "fs(chunk_dir s h \<mapsto> Dir)"
  have w1: "fs_wf ?f1" using fs_wf_mkdir [OF wf] by (simp add: chunk_dir_def)
  note neq = chunk_tmp_neq [OF assms(2,2), of s]
  have nd: "?f1 (chunk_file s h) \<noteq> Some Dir" "?f1 (chunk_tmp s h) \<noteq> Some Dir"
    using assms neq by (auto simp: store_inv_def)
  let ?f2 = "?f1(chunk_tmp s h := None)"
  have cf: "chunk_file s h = chunk_dir s h @ [drop 2 (EncodeToString h)]"
    by (simp add: chunk_file_def chunk_dir_def)
  have "fs_wf ?f2" using w1 nd(2) by (rule fs_wf_remove)
  moreover have "?f2 (chunk_dir s h) = Some Dir" "?f2 (chunk_file s h) \<noteq> Some Dir" using neq nd by auto
  ultimately have "fs_wf ?fs" unfolding cf by (rule fs_wf_file)
  then show ?thesis
    using assms(1) wf chunk_tmp_neq [OF assms(2)] chunk_tmp_neq [OF _ assms(2)]
    by (simp add: store_inv_def)
qed

lemma store_content_update:
  assumes "length h = 32"
  shows "store_content s (fs(chunk_dir s h \<mapsto> Dir, chunk_tmp s h := None, chunk_file s h \<mapsto> File d)) =
    (store_content s fs)(h \<mapsto> d)"
  using chunk_tmp_neq [OF assms] chunk_tmp_neq [OF _ assms] assms
  by (auto simp: store_content_def fun_eq_iff chunk_file_inject)

text \<open>Under the invariant, a chunk that is not there gives \<open>ENOENT\<close>.\<close>

lemma store_Stat:
  assumes "store_inv s fs" "length h = 32"
  shows "os_Stat fs (chunkPath s (EncodeToString h)) =
    (case store_content s fs h of Some d \<Rightarrow> Inr (File d) | None \<Rightarrow> Inl ENOENT)"
proof (cases "fs (chunk_file s h)")
  case None
  have inv: "fs_wf fs" "fs (bst_baseDir s) = Some Dir" "\<not> is_file (fs (chunk_dir s h))"
    using assms by (auto simp: store_inv_def)
  have "lookup_err fs (chunk_file s h) = ENOENT"
  proof (cases "fs (chunk_dir s h)")
    case (Some i)
    then have "fs (chunk_dir s h) = Some Dir" using inv(3) by (cases i) auto
    from lookup_err_in_dir [OF inv(1) this] show ?thesis by (simp add: chunk_file_def chunk_dir_def)
  next
    case n: None
    show ?thesis
      using fs_wf_lookup [OF inv(1,2)] None n by (simp add: chunk_file_def chunk_dir_def)
  qed
  then show ?thesis using None assms(2) by (simp add: os_Stat_def store_content_def chunkPath_file)
next
  case (Some i)
  then obtain d where "i = File d" using assms by (cases i) (auto simp: store_inv_def)
  then show ?thesis using Some assms(2) by (simp add: os_Stat_def store_content_def chunkPath_file)
qed

lemma Delete_spec:
  assumes "store_inv s fs" "length h = 32"
  shows "\<exists>fs'. Delete [] s h fs = (Inr (), fs') \<and> store_inv s fs' \<and>
    store_content s fs' = (store_content s fs)(h := None)"
proof (cases "fs (chunk_file s h)")
  case None
  then have "os_Stat fs (chunkPath s (EncodeToString h)) = Inl ENOENT" "store_content s fs h = None"
    using store_Stat [OF assms] by (simp_all add: store_content_def)
  then have "Delete [] s h fs = (Inr (), fs)"
    using None assms(2)
    by (simp add: Delete_def os_Remove_def os_Stat_def chunkPath_file IsNotExist_def)
  then show ?thesis using assms(1) \<open>store_content s fs h = None\<close> by (auto simp: fun_upd_idem)
next
  case (Some i)
  then obtain d where i: "fs (chunk_file s h) = Some (File d)" using assms by (cases i) (auto simp: store_inv_def)
  then have "Delete [] s h fs = (Inr (), fs(chunk_file s h := None))"
    using assms(2) by (simp add: Delete_def os_Remove_def chunkPath_file)
  moreover have "fs_wf (fs(chunk_file s h := None))"
    using i assms(1) by (intro fs_wf_remove) (auto simp: store_inv_def)
  then have "store_inv s (fs(chunk_file s h := None))"
    using assms(1) by (auto simp: store_inv_def)
  moreover have "store_content s (fs(chunk_file s h := None)) = (store_content s fs)(h := None)"
    by (auto simp: store_content_def fun_eq_iff chunk_file_inject)
  ultimately show ?thesis by blast
qed

interpretation blobs: chunk_store "store_inv s" "store_content s" "Put no_faults s" "Get s" "Has s" "Delete [] s"
  for s
proof
  fix fs :: fs and c :: Chunk and h :: bytes
  assume inv: "store_inv s fs"
  {
    assume l: "length (ch_Hash c) = 32"
    show "\<exists>fs'. Put no_faults s c fs = (Inr (store_content s fs (ch_Hash c) = None), fs') \<and> store_inv s fs' \<and>
        store_content s fs' = (if store_content s fs (ch_Hash c) = None
          then (store_content s fs)(ch_Hash c \<mapsto> ch_Data c) else store_content s fs)"
    proof (cases "fs (chunk_file s (ch_Hash c))")
      case None
      then show ?thesis
        using Put_new [OF inv l None] store_inv_update [OF inv l] store_content_update [OF l] l
        by (simp add: store_content_def)
    next
      case (Some i)
      then show ?thesis
        using Put_exists [of c fs s i, OF l Some] inv l by (cases i) (auto simp: store_content_def store_inv_def)
    qed
  }
  assume l: "length h = 32"
  show "Get s h fs = (case store_content s fs h of
          None \<Rightarrow> Inl (ErrMsg ''chunk not found'' (EncodeToString h))
        | Some d \<Rightarrow> Inr \<lparr>ch_Hash = h, ch_Size = of_nat (length d), ch_Data = d\<rparr>)"
    using store_Stat [OF inv l] by (simp add: Get_def Let_def IsNotExist_def split: option.split)
  show "Has s h fs \<longleftrightarrow> store_content s fs h \<noteq> None"
    using store_Stat [OF inv l] by (simp add: Has_def split: option.split)
  show "\<exists>fs'. Delete [] s h fs = (Inr (), fs') \<and> store_inv s fs' \<and>
      store_content s fs' = (store_content s fs)(h := None)"
    using Delete_spec [OF inv l] .
qed

text \<open>\<open>StoreReader\<close> without faults puts the chunks of the input one after the other.\<close>

lemma store_loop_spec:
  assumes "store_inv s fs" "\<forall>x. length (H x) = 32" "rd_fail r = None"
  shows "store_loop H (\<lambda>n. no_faults) s r st fs =
    (Inr (st @ map (\<lambda>d. (chunk_of H d)\<lparr>ch_Data := []\<rparr>) (stream_data r)),
     blobs.put_all s (map (chunk_of H) (stream_data r)) fs)"
  using assms
proof (induction H "\<lambda>n :: nat. no_faults" s r st fs rule: store_loop.induct)
  case (1 H s r st fs)
  show ?case
  proof (cases rule: stream_cases [of H r])
    case (more d)
    obtain fs1 b where fs1: "Put no_faults s (chunk_of H d) fs = (Inr b, fs1)" "store_inv s fs1"
      using blobs.put_law [OF 1(2), of "chunk_of H d"] 1(3) by auto
    then show ?thesis
      using 1 more by (simp add: store_loop.simps [of H _ s r] blobs.put_all_Cons)
  next
    case (stop r')
    then show ?thesis
      using 1(4) by (simp add: store_loop.simps [of H _ s r] blobs.put_all_def stream_end_def)
  qed
qed

text \<open>What \<open>Put\<close> may change, whatever fails.\<close>

lemma add_suffix_neq: "add_suffix p ''.tmp'' \<noteq> p"
  by (cases p rule: rev_cases) (simp_all add: add_suffix_def)

lemma Put_frame:
  assumes "Put flt s c fs = (r, fs')" and "q \<noteq> add_suffix (chunkPath s (HashHex c)) ''.tmp''"
  shows "fs' q = fs q \<or>
    (fs q = None \<and> fs' q = Some Dir \<and> prefix q (butlast (chunkPath s (HashHex c)))) \<or>
    (q = chunkPath s (HashHex c) \<and> r = Inr True \<and> fs' q = Some (File (ch_Data c)))"
proof (cases "os_Stat fs (chunkPath s (HashHex c))")
  case (Inr i)
  then show ?thesis using assms(1) by (simp add: Put_def Let_def)
next
  case (Inl e)
  let ?p = "chunkPath s (HashHex c)"
  obtain e1 fs1 where m: "os_MkdirAll (ft_mkdir flt) fs (butlast ?p) = (e1, fs1)" by force
  have fr: "fs1 q = fs q \<or> (fs q = None \<and> fs1 q = Some Dir \<and> prefix q (butlast ?p))"
    using mkdirs_frame [of "ft_mkdir flt" fs "[]" "butlast ?p" e1 fs1 q] m by (auto simp: os_MkdirAll_def)
  have "fs' q = fs1 q \<or> (q = ?p \<and> r = Inr True \<and> fs' q = Some (File (ch_Data c)))"
  proof (cases e1)
    case (Some x)
    then show ?thesis using assms(1) Inl m by (simp add: Put_def Let_def)
  next
    case None
    then show ?thesis
      using assms Inl m
      by (auto simp: Put_def Let_def os_Create_def os_Rename_def os_Remove_def
          split: if_splits option.splits inode.splits)
  qed
  then show ?thesis using fr by auto
qed

text \<open>The walk of \<open>VerifyAll\<close>: the entry one visit adds, and the keys of the result.\<close>

definition visit_entry :: "(bytes \<Rightarrow> bytes) \<Rightarrow> BlobStore \<Rightarrow> fs \<Rightarrow> path \<Rightarrow> string \<Rightarrow> bool" where
  "visit_entry H s fs path k \<longleftrightarrow>
     is_file (fs path) \<and> Ext (last path) \<noteq> ''.tmp'' \<and> k = walk_hash (drop (length (bst_baseDir s)) path) \<and>
     (\<exists>h e. DecodeString k = Some h \<and> Verify H s h fs = Inl e)"

lemma verify_visit_dom:
  "k \<in> dom (verify_visit H s fs m path) \<longleftrightarrow> k \<in> dom m \<or> visit_entry H s fs path k"
  by (auto simp: verify_visit_def visit_entry_def Let_def split: option.splits sum.splits if_splits)

lemma verify_walk_dom:
  "k \<in> dom (foldl (verify_visit H s fs) m walk) \<longleftrightarrow> k \<in> dom m \<or> (\<exists>p \<in> set walk. visit_entry H s fs p k)"
proof (induction walk arbitrary: m)
  case (Cons p walk)
  then show ?case using verify_visit_dom [of k H s fs m p] by auto
qed simp

lemma walk_hash_file: "walk_hash (drop (length (bst_baseDir s)) (chunk_file s h)) = EncodeToString h"
  by (simp add: chunk_file_def walk_hash_def)

lemma Ext_hash: "Ext (last (chunk_file s h)) = []"
proof -
  have "CHR ''.'' \<notin> set (EncodeToString h)" using set_EncodeToString [of h] by auto
  then have "CHR ''.'' \<notin> set (drop 2 (EncodeToString h))" by (meson in_set_dropD)
  then show ?thesis by (simp add: Ext_def chunk_file_def)
qed

lemma Verify_file:
  assumes "2 \<le> length h" "fs (chunk_file s h) = Some (File d)"
  shows "Verify H s h fs = (if H d \<noteq> h then Inl (ErrHash ''corruption detected'' (H d)) else Inr ())"
  using assms by (simp add: Verify_def os_Stat_def chunkPath_file Let_def)


section \<open>Properties\<close>

text \<open>A fresh store on a disk with one directory.\<close>

definition fresh_fs :: fs where
  "fresh_fs = [[] \<mapsto> Dir, [''b''] \<mapsto> Dir]"

definition fresh_store :: BlobStore where
  "fresh_store = \<lparr>bst_baseDir = [''b'']\<rparr>"

lemma fresh_store_inv: "store_inv fresh_store fresh_fs"
  by (auto simp: store_inv_def fresh_store_def fresh_fs_def fs_wf_def chunk_dir_def chunk_file_def
      chunk_tmp_def split: if_splits)

lemma fresh_store_content: "store_content fresh_store fresh_fs = Map.empty"
  by (auto simp: store_content_def fresh_store_def fresh_fs_def chunk_file_def)

text \<open>
  C4. The directory tree refines a partial map from hashes to data. After any sequence of \<open>Put\<close>s and
  \<open>Delete\<close>s of 32-byte hashes without I/O faults, the tree satisfies its invariant, \<open>Get\<close> returns
  exactly what the same sequence leaves in the map (or the not-found error), and \<open>Has\<close> agrees. In
  particular a \<open>Put\<close> never replaces a chunk that is present.
\<close>

theorem blob_store_refines_map:
  assumes "store_inv s fs" and "\<forall>op \<in> set ops. length (op_hash op) = 32" and "length h = 32"
  shows "store_inv s (foldl (store_exec (Put no_faults s) (Delete [] s)) fs ops) \<and>
    Get s h (foldl (store_exec (Put no_faults s) (Delete [] s)) fs ops) =
      (case foldl map_exec (store_content s fs) ops h of
         None \<Rightarrow> Inl (ErrMsg ''chunk not found'' (EncodeToString h))
       | Some d \<Rightarrow> Inr \<lparr>ch_Hash = h, ch_Size = of_nat (length d), ch_Data = d\<rparr>) \<and>
    Has s h (foldl (store_exec (Put no_faults s) (Delete [] s)) fs ops) =
      (foldl map_exec (store_content s fs) ops h \<noteq> None)"
  using blobs.run_refines [OF assms(1,2)] blobs.get_law [OF _ assms(3)] blobs.has_law [OF _ assms(3)]
  by simp

lemma blob_store_refines_map_witness:
  "Get fresh_store (pad_hash [1]) (foldl (store_exec (Put no_faults fresh_store) (Delete [] fresh_store)) fresh_fs
      [SPut (chunk_of pad_hash [1]), SPut ((chunk_of pad_hash [1])\<lparr>ch_Data := [2]\<rparr>)]) =
    Inr (chunk_of pad_hash [1])"
  using blob_store_refines_map [OF fresh_store_inv, of
      "[SPut (chunk_of pad_hash [1]), SPut ((chunk_of pad_hash [1])\<lparr>ch_Data := [2]\<rparr>)]" "pad_hash [1]"]
  by (simp add: fresh_store_content chunk_of_def)

text \<open>
  C28. What \<open>StoreReader\<close> stores can be read back. It returns on every input; the chunk descriptors it
  returns have their data cleared, and fetching them in order yields the input, even when some chunks
  were present before, provided the store was sound and the digest has no collision among its
  contents and the new chunks.
\<close>

theorem store_reader_retrieve:
  assumes "store_inv s fs" and "\<forall>x. length (H x) = 32"
    and "\<forall>h d. store_content s fs h = Some d \<longrightarrow> H d = h"
    and "collision_free H (ran (store_content s fs) \<union> set (blocks 4096 xs))"
  shows "\<exists>cs cs' fs'. StoreReader H (\<lambda>n. no_faults) s (reader_of xs) fs = (Inr cs, fs') \<and> store_inv s fs' \<and>
    list_all (\<lambda>c. ch_Data c = []) cs \<and>
    map (\<lambda>c. Get s (ch_Hash c) fs') cs = map Inr cs' \<and> concat (map ch_Data cs') = xs"
proof -
  let ?bl = "blocks ChunkSize xs" and ?f = "\<lambda>d. (chunk_of H d)\<lparr>ch_Data := []\<rparr>"
  let ?cs = "map (chunk_of H) ?bl"
  let ?fs = "blobs.put_all s ?cs fs"
  have run: "StoreReader H (\<lambda>n. no_faults) s (reader_of xs) fs = (Inr (map ?f ?bl), ?fs)"
    using store_loop_spec [OF assms(1,2), of "reader_of xs" "[]"] by (simp add: StoreReader_def)
  have v: "\<forall>c \<in> set ?cs. ch_Hash c = H (ch_Data c) \<and> length (ch_Hash c) = 32" using assms(2) by auto
  have "ch_Data ` set ?cs = set (blocks 4096 xs)" by (force simp: ChunkSize_def)
  then have cf: "collision_free H (ran (store_content s fs) \<union> ch_Data ` set ?cs)" using assms(4) by simp
  have "blobs.sound s H fs" using assms(3) by (simp add: blobs.sound_def)
  from blobs.put_all_retrieve [OF assms(1) this v cf]
  have get: "Get s (H d) ?fs = Inr (chunk_of H d)" if "d \<in> set ?bl" for d using that by fastforce
  have "store_inv s ?fs" using blobs.put_all_content [OF assms(1), of ?cs] v by blast
  moreover have "map (\<lambda>c. Get s (ch_Hash c) ?fs) (map ?f ?bl) = map Inr ?cs" using get by simp
  moreover have "concat (map ch_Data ?cs) = xs" by (simp add: comp_def ChunkSize_def)
  moreover have "list_all (\<lambda>c. ch_Data c = []) (map ?f ?bl)" by (simp add: list_all_iff)
  ultimately show ?thesis using run by blast
qed

lemma store_reader_retrieve_witness:
  "\<exists>cs cs' fs'. StoreReader pad_hash (\<lambda>n. no_faults) fresh_store (reader_of [1, 2, 3]) fresh_fs = (Inr cs, fs') \<and>
    store_inv fresh_store fs' \<and> list_all (\<lambda>c. ch_Data c = []) cs \<and>
    map (\<lambda>c. Get fresh_store (ch_Hash c) fs') cs = map Inr cs' \<and> concat (map ch_Data cs') = [1, 2, 3]"
  by (rule store_reader_retrieve [OF fresh_store_inv])
     (auto simp: fresh_store_content blocks_step intro!: collision_free_pad_hash)

text \<open>
  C12. \<open>Put\<close> is atomic under any combination of I/O faults, and so under a crash: outside its temporary
  file it changes nothing but missing directories above the chunk, except that on success the chunk's
  own path holds the complete data. A failed or interrupted \<open>Put\<close> never leaves a partial chunk, and
  no \<open>Put\<close> alters a file that exists.
\<close>

theorem put_atomic:
  assumes "Put flt s c fs = (r, fs')" and "q \<noteq> add_suffix (chunkPath s (HashHex c)) ''.tmp''"
  shows "(r = Inr True \<longrightarrow> fs' (chunkPath s (HashHex c)) = Some (File (ch_Data c))) \<and>
    (fs' q = fs q \<or>
     (fs q = None \<and> fs' q = Some Dir \<and> prefix q (butlast (chunkPath s (HashHex c)))) \<or>
     (fs q = None \<and> q = chunkPath s (HashHex c) \<and> r = Inr True))"
proof -
  let ?p = "chunkPath s (HashHex c)"
  have ok: "fs' ?p = Some (File (ch_Data c))" if "r = Inr True"
    using that assms(1)
    by (auto simp: Put_def Let_def os_Rename_def split: sum.splits prod.splits option.splits if_splits inode.splits)
  have "fs ?p = None" if "r = Inr True"
    using that assms(1) by (auto simp: Put_def Let_def os_Stat_def split: option.splits)
  then show ?thesis using ok Put_frame [OF assms] by auto
qed

lemma put_atomic_witness:
  "snd (Put (no_faults\<lparr>ft_write := Some 1, ft_remove := True\<rparr>) fresh_store (chunk_of pad_hash [1, 2]) fresh_fs) [''b''] =
    Some Dir"
proof -
  let ?c = "chunk_of pad_hash [1, 2]"
  have "[''b''] \<noteq> add_suffix (chunkPath fresh_store (HashHex ?c)) ''.tmp''"
    by (simp add: HashHex_def chunkPath_file) (simp add: chunk_tmp_def fresh_store_def)
  from put_atomic [OF _ this, of "no_faults\<lparr>ft_write := Some 1, ft_remove := True\<rparr>" fresh_fs]
  show ?thesis by (simp add: prod_eq_iff) (auto simp: fresh_fs_def)
qed

text \<open>
  C30. \<open>VerifyAll\<close> finds exactly the corrupted chunks: when the walk visits the file of a stored chunk,
  the hash of that chunk is a key of the result just when the data in the file does not have this
  hash, whatever else lies in the directory.
\<close>

theorem verify_all_exact:
  assumes "fs (bst_baseDir s) = Some Dir" and "2 \<le> length h"
    and "fs (chunkPath s (EncodeToString h)) = Some (File d)"
    and "chunkPath s (EncodeToString h) \<in> set walk"
  shows "snd (VerifyAll H s walk fs) = None \<and>
    (EncodeToString h \<in> dom (fst (VerifyAll H s walk fs)) \<longleftrightarrow> H d \<noteq> h)"
proof -
  have f: "fs (chunk_file s h) = Some (File d)" "chunk_file s h \<in> set walk"
    using assms by (simp_all add: chunkPath_file)
  have va: "VerifyAll H s walk fs = (foldl (verify_visit H s fs) Map.empty walk, None)"
    using assms(1) by (simp add: VerifyAll_def os_Stat_def)
  have "(\<exists>p \<in> set walk. visit_entry H s fs p (EncodeToString h)) \<longleftrightarrow> H d \<noteq> h"
  proof
    assume "\<exists>p \<in> set walk. visit_entry H s fs p (EncodeToString h)"
    then show "H d \<noteq> h" using Verify_file [of h fs s, OF assms(2) f(1)] by (auto simp: visit_entry_def)
  next
    assume "H d \<noteq> h"
    then have "visit_entry H s fs (chunk_file s h) (EncodeToString h)"
      using f(1) Verify_file [of h fs s, OF assms(2) f(1)]
      by (simp add: visit_entry_def Ext_hash walk_hash_file)
    then show "\<exists>p \<in> set walk. visit_entry H s fs p (EncodeToString h)" using f(2) by blast
  qed
  then show ?thesis unfolding va fst_conv snd_conv verify_walk_dom by simp
qed

lemma verify_all_exact_witness:
  "''0102'' \<in> dom (fst (VerifyAll pad_hash fresh_store [[''b'', ''01'', ''02'']]
      [[] \<mapsto> Dir, [''b''] \<mapsto> Dir, [''b'', ''01''] \<mapsto> Dir, [''b'', ''01'', ''02''] \<mapsto> File [7]]))"
proof -
  let ?fs = "[[] \<mapsto> Dir, [''b''] \<mapsto> Dir, [''b'', ''01''] \<mapsto> Dir, [''b'', ''01'', ''02''] \<mapsto> File [7]] :: fs"
  have hx: "EncodeToString [1, 2] = ''0102''" by (simp add: EncodeToString_def hex_byte_def hex_digit_def)
  have "length (pad_hash [7]) \<noteq> length ([1, 2] :: bytes)" by simp
  then have "pad_hash [7] \<noteq> [1, 2]" by metis
  then show ?thesis
    using verify_all_exact [of ?fs fresh_store "[1, 2]" "[7]" "[[''b'', ''01'', ''02'']]" pad_hash]
    by (simp add: hx fresh_store_def chunkPath_def Join_def PrefixLength_def)
qed

end
