(* ===== verification/Merkle.thy ===== *)
theory Merkle
  imports Chunker "HOL-Library.Char_ord" "HOL-Library.List_Lexorder" "HOL-Library.Multiset"
begin

text \<open>
  Model of \<open>internal/merkle/tree.go\<close> and \<open>build.go\<close>: nodes with their digests, the lookup of a child
  by binary search, the comparison of two trees, manifests, and the construction of a tree from a
  directory. Go strings are byte sequences and compare bytewise, as strings of HOL do with the
  lexicographic order. \<open>sort.Slice\<close> is not stable; the model sorts stably, which is the same function
  on children with distinct names. A loop over a Go map visits its keys in any order: the comparison
  takes this order as an argument.
\<close>

section \<open>Nodes\<close>

datatype NodeType = NodeTypeFile | NodeTypeDir

datatype Node = Node (nd_Name: string) (nd_Type: NodeType) (nd_Hash: bytes) (nd_Mode: u32) (nd_Size: u64)
  (nd_Children: "Node list") (nd_Chunks: "bytes list")

definition nd_HashHex :: "Node \<Rightarrow> string" where
  "nd_HashHex n = EncodeToString (nd_Hash n)"

definition IsDir :: "Node \<Rightarrow> bool" where
  "IsDir n \<longleftrightarrow> nd_Type n = NodeTypeDir"

record Tree =
  tr_Root :: "Node option"

definition NewTree :: Tree where "NewTree = \<lparr>tr_Root = None\<rparr>"

fun computeFileHash :: "(bytes \<Rightarrow> bytes) \<Rightarrow> Node \<Rightarrow> Node" where
  "computeFileHash H (Node name ty hash mode sz children chunks) =
     Node name ty (H (concat chunks)) mode (of_nat (length chunks) * 4096) children chunks"

definition dir_bytes :: "Node list \<Rightarrow> bytes" where
  "dir_bytes children = concat (map (\<lambda>c. bytes_of (nd_Name c) @ nd_Hash c) children)"

fun computeDirHash :: "(bytes \<Rightarrow> bytes) \<Rightarrow> Node \<Rightarrow> Node" where
  "computeDirHash H (Node name ty hash mode sz children chunks) =
     Node name ty (H (dir_bytes children)) mode (sum_list (map nd_Size children)) children chunks"

definition NewFileNode :: "(bytes \<Rightarrow> bytes) \<Rightarrow> string \<Rightarrow> u32 \<Rightarrow> bytes list \<Rightarrow> Node" where
  "NewFileNode H name mode chunks = computeFileHash H (Node name NodeTypeFile [] mode 0 [] chunks)"

definition NewDirNode :: "(bytes \<Rightarrow> bytes) \<Rightarrow> string \<Rightarrow> u32 \<Rightarrow> Node list \<Rightarrow> Node" where
  "NewDirNode H name mode children =
     computeDirHash H (Node name NodeTypeDir [] mode 0 (sort_key nd_Name children) [])"

fun Rehash :: "(bytes \<Rightarrow> bytes) \<Rightarrow> Node \<Rightarrow> Node" where
  "Rehash H (Node name ty hash mode sz children chunks) =
     (if ty = NodeTypeFile then computeFileHash H (Node name ty hash mode sz children chunks)
      else computeDirHash H (Node name ty hash mode sz (sort_key nd_Name children) chunks))"

text \<open>\<open>sort.Search(n, f)\<close>: the binary search of the standard library.\<close>

function search_loop :: "(nat \<Rightarrow> bool) \<Rightarrow> nat \<Rightarrow> nat \<Rightarrow> nat" where
  "search_loop f i j =
     (if i < j then
        let h = (i + j) div 2 in
        if \<not> f h then search_loop f (h + 1) j else search_loop f i h
      else i)"
  by pat_completeness auto
termination
  by (relation "measure (\<lambda>(f, i, j). j - i)") auto

declare search_loop.simps [simp del]

definition sort_Search :: "nat \<Rightarrow> (nat \<Rightarrow> bool) \<Rightarrow> nat" where
  "sort_Search n f = search_loop f 0 n"

definition GetChild :: "Node \<Rightarrow> string \<Rightarrow> Node option" where
  "GetChild n name =
     (if nd_Type n \<noteq> NodeTypeDir then None
      else let i = sort_Search (length (nd_Children n)) (\<lambda>i. nd_Name (nd_Children n ! i) \<ge> name)
           in if i < length (nd_Children n) \<and> nd_Name (nd_Children n ! i) = name
              then Some (nd_Children n ! i) else None)"


section \<open>Comparison\<close>

datatype DiffType = DiffTypeAdded | DiffTypeDeleted | DiffTypeModified

record DiffResult =
  df_Path :: string
  df_Type :: DiffType
  df_LocalNode :: "Node option"
  df_RemoteNode :: "Node option"
  df_Chunks :: "bytes list"

fun DiffType_String :: "DiffType \<Rightarrow> string" where
  "DiffType_String DiffTypeAdded = ''added''"
| "DiffType_String DiffTypeDeleted = ''deleted''"
| "DiffType_String DiffTypeModified = ''modified''"

definition joinPath :: "string \<Rightarrow> string \<Rightarrow> string" where
  "joinPath parent child = (if parent = [] then child else parent @ CHR ''/'' # child)"

definition findDifferingChunks :: "bytes list \<Rightarrow> bytes list \<Rightarrow> bytes list" where
  "findDifferingChunks local remote = filter (\<lambda>h. h \<notin> set remote) local"

text \<open>One result of \<open>collectAll\<close>, and the walk.\<close>

definition collect_result :: "DiffType \<Rightarrow> string \<Rightarrow> Node \<Rightarrow> DiffResult" where
  "collect_result ty currentPath node =
     \<lparr>df_Path = currentPath, df_Type = ty,
      df_LocalNode = (if ty = DiffTypeAdded then Some node else None),
      df_RemoteNode = (if ty = DiffTypeAdded then None else Some node),
      df_Chunks = (if nd_Type node = NodeTypeFile then nd_Chunks node else [])\<rparr>"

fun collectAll :: "DiffType \<Rightarrow> string \<Rightarrow> Node \<Rightarrow> DiffResult list" where
  "collectAll ty parentPath (Node name t hash mode sz children chunks) =
     (let currentPath = joinPath parentPath name
      in collect_result ty currentPath (Node name t hash mode sz children chunks) #
         concat (map (collectAll ty currentPath) children))"

text \<open>
  The map from names to children: a later child with the same name replaces an earlier one. Its keys
  are visited in the order \<open>ord currentPath b keys\<close>, with \<open>b\<close> true for the loop over the local
  children.
\<close>

definition child_map :: "Node \<Rightarrow> string \<Rightarrow> Node option" where
  "child_map n = map_of (rev (map (\<lambda>c. (nd_Name c, c)) (nd_Children n)))"

definition child_names :: "Node \<Rightarrow> string list" where
  "child_names n = remdups (map nd_Name (nd_Children n))"

definition modified_result :: "string \<Rightarrow> Node \<Rightarrow> Node \<Rightarrow> bytes list \<Rightarrow> DiffResult" where
  "modified_result currentPath local remote chunks =
     \<lparr>df_Path = currentPath, df_Type = DiffTypeModified, df_LocalNode = Some local,
      df_RemoteNode = Some remote, df_Chunks = chunks\<rparr>"

lemma child_map_in: "child_map n x = Some c \<Longrightarrow> c \<in> set (nd_Children n)"
  by (auto simp: child_map_def dest: map_of_SomeD)

lemma child_size: "c \<in> set (nd_Children n) \<Longrightarrow> size c < size n"
  using size_list_estimation' [of c "nd_Children n" "size c" size]
  by (cases n) (auto simp: less_Suc_eq_le)

lemma child_map_size: "child_map n x = Some c \<Longrightarrow> size c < size n"
  by (rule child_size [OF child_map_in])

function diffNodes ::
  "(string \<Rightarrow> bool \<Rightarrow> string list \<Rightarrow> string list) \<Rightarrow> Node option \<Rightarrow> Node option \<Rightarrow> string \<Rightarrow> DiffResult list" where
  "diffNodes ord None None path = []"
| "diffNodes ord (Some local) None path = collectAll DiffTypeAdded path local"
| "diffNodes ord None (Some remote) path = collectAll DiffTypeDeleted path remote"
| "diffNodes ord (Some local) (Some remote) path =
     (let currentPath = joinPath path (nd_Name local) in
      if nd_Hash local = nd_Hash remote then []
      else if nd_Type local \<noteq> nd_Type remote then [modified_result currentPath local remote []]
      else if nd_Type local = NodeTypeFile then
        [modified_result currentPath local remote (findDifferingChunks (nd_Chunks local) (nd_Chunks remote))]
      else
        concat (map (\<lambda>name. case child_map local name of
                       None \<Rightarrow> []
                     | Some localChild \<Rightarrow>
                         diffNodes ord (Some localChild) (child_map remote name) currentPath)
                  (ord currentPath True (child_names local))) @
        concat (map (\<lambda>name. case child_map remote name of
                       None \<Rightarrow> []
                     | Some remoteChild \<Rightarrow>
                         if child_map local name = None
                         then diffNodes ord None (Some remoteChild) currentPath else [])
                  (ord currentPath False (child_names remote))))"
  by pat_completeness auto
termination
  by (relation "measure (\<lambda>(ord, l, r, p). (case l of None \<Rightarrow> 0 | Some n \<Rightarrow> size n) + (case r of None \<Rightarrow> 0 | Some n \<Rightarrow> size n))")
     (auto split: option.split dest!: child_map_size)

declare diffNodes.simps(4) [simp del]

text \<open>A nil \<open>*Tree\<close> is \<^const>\<open>None\<close>.\<close>

definition Diff ::
  "(string \<Rightarrow> bool \<Rightarrow> string list \<Rightarrow> string list) \<Rightarrow> Tree option \<Rightarrow> Tree option \<Rightarrow> DiffResult list" where
  "Diff ord local remote =
     (case Option.bind local tr_Root of
        None \<Rightarrow>
          (case Option.bind remote tr_Root of
             None \<Rightarrow> []
           | Some r \<Rightarrow> collectAll DiffTypeDeleted [] r)
      | Some l \<Rightarrow>
          (case Option.bind remote tr_Root of
             None \<Rightarrow> collectAll DiffTypeAdded [] l
           | Some r \<Rightarrow> if nd_Hash l = nd_Hash r then [] else diffNodes ord (Some l) (Some r) []))"


section \<open>Construction and manifests\<close>

text \<open>
  A directory tree as \<open>os.Stat\<close>, \<open>os.ReadDir\<close> and \<open>os.Open\<close> present it while the tree is built. The
  flags say whether \<open>entry.Info()\<close> and then \<open>os.Open\<close> or \<open>os.ReadDir\<close> succeed.
\<close>

datatype entry =
    FileEntry (en_Name: string) (en_Mode: u32) (en_Info: bool) (en_Opens: bool) u64 reader
  | DirEntry (en_Name: string) (en_Mode: u32) (en_Info: bool) (en_Opens: bool) "entry list"

fun set_Size :: "u64 \<Rightarrow> Node \<Rightarrow> Node" where
  "set_Size sz' (Node name ty hash mode sz children chunks) = Node name ty hash mode sz' children chunks"

fun buildNode :: "(bytes \<Rightarrow> bytes) \<Rightarrow> entry \<Rightarrow> Node res"
and build_children :: "(bytes \<Rightarrow> bytes) \<Rightarrow> entry list \<Rightarrow> Node list res" where
  "buildNode H (FileEntry name mode info opens sz r) =
     (if \<not> opens then Inl (Err ''opening file'')
      else case ChunkAll H r of
             Inl e \<Rightarrow> Inl (Err ''chunking file'')
           | Inr chunks \<Rightarrow> Inr (set_Size sz (NewFileNode H name mode (map ch_Hash chunks))))"
| "buildNode H (DirEntry name mode info opens entries) =
     (if \<not> opens then Inl (Err ''reading directory'')
      else bind_r (build_children H entries) (\<lambda>children. Inr (NewDirNode H name mode children)))"
| "build_children H [] = Inr []"
| "build_children H (entry # entries) =
     (if en_Name entry = [] then Inl (Panic ''index out of range'')
      else if hd (en_Name entry) = CHR ''.'' then build_children H entries
      else if \<not> en_Info entry then Inl (Err ''stat'')
      else bind_r (buildNode H entry) (\<lambda>child.
           bind_r (build_children H entries) (\<lambda>children. Inr (child # children))))"

fun BuildFromFS :: "(bytes \<Rightarrow> bytes) \<Rightarrow> entry option \<Rightarrow> Tree res" where
  "BuildFromFS H None = Inl (Err ''stat root path'')"
| "BuildFromFS H (Some (FileEntry name mode info opens sz r)) =
     Inl (ErrMsg ''root path must be a directory'' name)"
| "BuildFromFS H (Some (DirEntry name mode info opens entries)) =
     bind_r (buildNode H (DirEntry name mode info opens entries)) (\<lambda>root. Inr \<lparr>tr_Root = Some root\<rparr>)"

datatype ManifestNode = ManifestNode (mn_Name: string) (mn_Type: NodeType) (mn_Hash: bytes) (mn_Mode: u32)
  (mn_Size: u64) (mn_Children: "ManifestNode list") (mn_Chunks: "bytes list")

record Manifest =
  mf_Root :: "ManifestNode option"

fun manifestNodeToNode :: "ManifestNode \<Rightarrow> Node" where
  "manifestNodeToNode (ManifestNode name ty hash mode sz children chunks) =
     (if ty = NodeTypeFile then Node name ty hash mode sz [] chunks
      else Node name ty hash mode sz (map manifestNodeToNode children) [])"

definition BuildFromManifest :: "Manifest option \<Rightarrow> Tree res" where
  "BuildFromManifest manifest =
     (case Option.bind manifest mf_Root of
        None \<Rightarrow> Inr \<lparr>tr_Root = None\<rparr>
      | Some root \<Rightarrow> Inr \<lparr>tr_Root = Some (manifestNodeToNode root)\<rparr>)"

fun nodeToManifestNode :: "Node \<Rightarrow> ManifestNode" where
  "nodeToManifestNode (Node name ty hash mode sz children chunks) =
     (if ty = NodeTypeFile then ManifestNode name ty hash mode sz [] chunks
      else ManifestNode name ty hash mode sz (map nodeToManifestNode children) [])"

definition ToManifest :: "Tree \<Rightarrow> Manifest" where
  "ToManifest t = \<lparr>mf_Root = map_option nodeToManifestNode (tr_Root t)\<rparr>"


section \<open>Well-formed nodes\<close>

text \<open>
  The invariant of a tree: hashes are what the code computes, a file has no children and a directory
  no chunks, children are sorted by name and their names are distinct.
\<close>

fun node_ok :: "(bytes \<Rightarrow> bytes) \<Rightarrow> Node \<Rightarrow> bool" where
  "node_ok H (Node name ty hash mode sz children chunks) \<longleftrightarrow>
     (if ty = NodeTypeFile then children = [] \<and> hash = H (concat chunks)
      else chunks = [] \<and> hash = H (dir_bytes children) \<and>
        sorted (map nd_Name children) \<and> distinct (map nd_Name children)) \<and>
     list_all (node_ok H) children"

lemma node_ok_file: "node_ok H (NewFileNode H name mode chunks)"
  by (simp add: NewFileNode_def)

lemma node_ok_dir:
  "list_all (node_ok H) cs \<Longrightarrow> distinct (map nd_Name cs) \<Longrightarrow> node_ok H (NewDirNode H name mode cs)"
  by (simp add: NewDirNode_def list_all_iff distinct_map)

lemma node_okD:
  assumes "node_ok H n"
  shows "nd_Type n = NodeTypeFile \<Longrightarrow> nd_Children n = [] \<and> nd_Hash n = H (concat (nd_Chunks n))"
    and "nd_Type n = NodeTypeDir \<Longrightarrow> nd_Chunks n = [] \<and> nd_Hash n = H (dir_bytes (nd_Children n))"
    and "sorted (map nd_Name (nd_Children n))" "distinct (map nd_Name (nd_Children n))"
    and "c \<in> set (nd_Children n) \<Longrightarrow> node_ok H c"
  using assms by (cases n; auto simp: list_all_iff split: if_splits)+

lemma node_ok_Rehash: "node_ok H n \<Longrightarrow> node_ok H (Rehash H n) \<and> nd_Hash (Rehash H n) = nd_Hash n"
  by (cases n) (auto simp: sorted_sort_id sort_key_id_if_sorted list_all_iff)

text \<open>Binary search: the least index at which a monotone predicate holds.\<close>

lemma search_loop_spec:
  assumes "\<And>a b. a \<le> b \<Longrightarrow> b < n \<Longrightarrow> f a \<Longrightarrow> f b" "i \<le> j" "j \<le> n"
    and "\<forall>k < i. \<not> f k" "\<forall>k. j \<le> k \<longrightarrow> k < n \<longrightarrow> f k"
  shows "search_loop f i j \<le> n \<and> (\<forall>k < search_loop f i j. \<not> f k) \<and>
    (\<forall>k. search_loop f i j \<le> k \<longrightarrow> k < n \<longrightarrow> f k)"
  using assms
proof (induction f i j rule: search_loop.induct)
  case (1 f i j)
  let ?h = "(i + j) div 2"
  show ?case
  proof (cases "i < j")
    case True
    then have h: "i \<le> ?h" "?h < j" by auto
    show ?thesis
    proof (cases "f ?h")
      case f: True
      then have up: "\<forall>k. ?h \<le> k \<longrightarrow> k < n \<longrightarrow> f k" using 1(3) by blast
      have "\<not> \<not> f ?h" "?h \<le> n" using f h 1(5) by auto
      from 1(2) [OF True refl this(1) 1(3) h(1) this(2) 1(6) up] show ?thesis
        using f True by (simp add: search_loop.simps [of f i j])
    next
      case nf: False
      have low: "\<forall>k < ?h + 1. \<not> f k"
      proof (intro allI impI notI)
        fix k assume "k < ?h + 1" "f k"
        then show False using 1(3) [of k ?h] h 1(5) nf by simp
      qed
      have "?h + 1 \<le> j" using h by simp
      from 1(1) [OF True refl nf 1(3) this 1(5) low 1(7)] show ?thesis
        using nf True by (simp add: search_loop.simps [of f i j])
    qed
  next
    case False
    then have "i = j" using 1(4) by simp
    then show ?thesis using 1(5-7) by (simp add: search_loop.simps [of f j j])
  qed
qed

lemma sort_Search_spec:
  assumes "\<And>a b. a \<le> b \<Longrightarrow> b < n \<Longrightarrow> f a \<Longrightarrow> f b"
  shows "sort_Search n f \<le> n" "k < sort_Search n f \<Longrightarrow> \<not> f k"
    "sort_Search n f \<le> k \<Longrightarrow> k < n \<Longrightarrow> f k"
  using search_loop_spec [of n f 0 n] assms by (auto simp: sort_Search_def)

lemma child_map_Some:
  assumes "distinct (map nd_Name (nd_Children n))"
  shows "child_map n x = Some c \<longleftrightarrow> c \<in> set (nd_Children n) \<and> nd_Name c = x"
proof -
  have "distinct (map fst (rev (map (\<lambda>c. (nd_Name c, c)) (nd_Children n))))"
    using assms by (simp add: rev_map [symmetric] comp_def)
  then show ?thesis by (auto simp: child_map_def)
qed

lemma child_map_None: "child_map n x = None \<longleftrightarrow> x \<notin> nd_Name ` set (nd_Children n)"
  by (force simp: child_map_def map_of_eq_None_iff)

lemma child_map_find:
  assumes "distinct (map nd_Name (nd_Children n))"
  shows "child_map n x = find (\<lambda>c. nd_Name c = x) (nd_Children n)"
proof (cases "find (\<lambda>c. nd_Name c = x) (nd_Children n)")
  case None
  then have "child_map n x = None" by (auto simp: find_None_iff child_map_None)
  then show ?thesis using None by simp
next
  case (Some c)
  then have "c \<in> set (nd_Children n) \<and> nd_Name c = x" by (auto simp: find_Some_iff)
  then show ?thesis using Some child_map_Some [OF assms] by simp
qed

lemma GetChild_child_map:
  assumes "node_ok H n"
  shows "GetChild n name = (if IsDir n then child_map n name else None)"
proof (cases "IsDir n")
  case True
  let ?cs = "nd_Children n"
  let ?f = "\<lambda>i. nd_Name (?cs ! i) \<ge> name" and ?i = "sort_Search (length ?cs) (\<lambda>i. nd_Name (?cs ! i) \<ge> name)"
  have mono: "?f b" if "a \<le> b" "b < length ?cs" "?f a" for a b
  proof -
    have "nd_Name (?cs ! a) \<le> nd_Name (?cs ! b)"
      using that sorted_nth_mono [OF node_okD(3) [OF assms], of a b] by simp
    then show ?thesis using that(3) by (rule order_trans [rotated])
  qed
  have S: "?i \<le> length ?cs" "\<And>k. k < ?i \<Longrightarrow> \<not> ?f k" "\<And>k. ?i \<le> k \<Longrightarrow> k < length ?cs \<Longrightarrow> ?f k"
    using sort_Search_spec [of "length ?cs" ?f] mono by blast+
  show ?thesis
  proof (cases "child_map n name")
    case None
    then have "\<not> (?i < length ?cs \<and> nd_Name (?cs ! ?i) = name)"
      unfolding child_map_None by (metis image_eqI nth_mem)
    then show ?thesis using None True by (simp add: GetChild_def IsDir_def Let_def)
  next
    case (Some c)
    then obtain k where k: "k < length ?cs" "?cs ! k = c" "nd_Name c = name"
      by (auto simp: child_map_Some [OF node_okD(4) [OF assms]] in_set_conv_nth)
    then have le: "?i \<le> k" using S(2) [of k] by (metis not_le order_refl)
    then have "name \<le> nd_Name (?cs ! ?i)" using S(3) [of ?i] k by simp
    moreover have "nd_Name (?cs ! ?i) \<le> name"
      using sorted_nth_mono [OF node_okD(3) [OF assms], of ?i k] le k by simp
    ultimately have "nd_Name (?cs ! ?i) = name" by (rule antisym [rotated])
    moreover have "?cs ! ?i = c"
      using nth_eq_iff_index_eq [OF node_okD(4) [OF assms], of ?i k] calculation le k by auto
    ultimately show ?thesis using True Some le k by (simp add: GetChild_def IsDir_def Let_def)
  qed
next
  case False
  then show ?thesis by (simp add: GetChild_def IsDir_def)
qed

text \<open>
  The content a node stands for: chunk hashes for a file, named contents for a directory. Modes and
  sizes are not part of it, because they are not part of the hash.
\<close>

datatype tree_content = CFile "bytes list" | CDir "(string \<times> tree_content) list"

fun content :: "Node \<Rightarrow> tree_content" where
  "content (Node name ty hash mode sz children chunks) =
     (if ty = NodeTypeFile then CFile chunks else CDir (map (\<lambda>c. (nd_Name c, content c)) children))"

fun subnodes :: "Node \<Rightarrow> Node list" where
  "subnodes (Node name ty hash mode sz children chunks) =
     Node name ty hash mode sz children chunks # concat (map subnodes children)"

lemma content_eq:
  "content n = (if nd_Type n = NodeTypeFile then CFile (nd_Chunks n)
    else CDir (map (\<lambda>c. (nd_Name c, content c)) (nd_Children n)))"
  by (cases n) simp

lemma subnodes_self [simp]: "n \<in> set (subnodes n)"
  by (cases n) simp

lemma subnodes_child: "c \<in> set (nd_Children n) \<Longrightarrow> set (subnodes c) \<subseteq> set (subnodes n)"
  by (cases n) auto

text \<open>
  No two nodes at hand share a hash unless they agree in type, chunks, and the names and hashes of
  their children. This is what the comparison of hashes relies on.
\<close>

definition hash_faithful :: "Node set \<Rightarrow> bool" where
  "hash_faithful S \<longleftrightarrow>
     (\<forall>a \<in> S. \<forall>b \<in> S. nd_Hash a = nd_Hash b \<longrightarrow>
        nd_Type a = nd_Type b \<and> nd_Chunks a = nd_Chunks b \<and>
        map (\<lambda>c. (nd_Name c, nd_Hash c)) (nd_Children a) = map (\<lambda>c. (nd_Name c, nd_Hash c)) (nd_Children b))"

lemma hash_content:
  assumes "hash_faithful S" "set (subnodes a) \<subseteq> S" "set (subnodes b) \<subseteq> S" "nd_Hash a = nd_Hash b"
  shows "content a = content b"
  using assms(2-)
proof (induction "size a" arbitrary: a b rule: less_induct)
  case less
  have f: "nd_Type a = nd_Type b" "nd_Chunks a = nd_Chunks b"
      "map (\<lambda>c. (nd_Name c, nd_Hash c)) (nd_Children a) = map (\<lambda>c. (nd_Name c, nd_Hash c)) (nd_Children b)"
    using assms(1) less.prems subnodes_self [of a] subnodes_self [of b]
    unfolding hash_faithful_def by blast+
  have len: "length (nd_Children a) = length (nd_Children b)" using map_eq_imp_length_eq [OF f(3)] .
  have "map (\<lambda>c. (nd_Name c, content c)) (nd_Children a) = map (\<lambda>c. (nd_Name c, content c)) (nd_Children b)"
  proof (rule nth_equalityI)
    fix i assume "i < length (map (\<lambda>c. (nd_Name c, content c)) (nd_Children a))"
    then have i: "i < length (nd_Children a)" "i < length (nd_Children b)" using len by auto
    let ?a = "nd_Children a ! i" and ?b = "nd_Children b ! i"
    have m: "?a \<in> set (nd_Children a)" "?b \<in> set (nd_Children b)" using i by auto
    have "(nd_Name ?a, nd_Hash ?a) = (nd_Name ?b, nd_Hash ?b)"
      using arg_cong [OF f(3), of "\<lambda>xs. xs ! i"] i by simp
    moreover have "size ?a < size a" using m(1) by (rule child_size)
    then have "nd_Hash ?a = nd_Hash ?b \<Longrightarrow> content ?a = content ?b"
      using less.hyps [of ?a ?b] subnodes_child [OF m(1)] subnodes_child [OF m(2)] less.prems by blast
    ultimately show "map (\<lambda>c. (nd_Name c, content c)) (nd_Children a) ! i =
        map (\<lambda>c. (nd_Name c, content c)) (nd_Children b) ! i" using i by simp
  qed (simp add: len)
  then show ?case using f by (simp add: content_eq [of a] content_eq [of b])
qed

lemma content_hash:
  assumes "node_ok H a" "node_ok H b" "content a = content b"
  shows "nd_Hash a = nd_Hash b"
  using assms
proof (induction "size a" arbitrary: a b rule: less_induct)
  case less
  show ?case
  proof (cases "nd_Type a")
    case NodeTypeFile
    then have "nd_Type b = NodeTypeFile" "nd_Chunks a = nd_Chunks b"
      using less.prems(3) by (auto simp: content_eq [of a] content_eq [of b] split: if_splits)
    then show ?thesis using NodeTypeFile node_okD(1) less.prems by simp
  next
    case NodeTypeDir
    then have t: "nd_Type b = NodeTypeDir" and
      c: "map (\<lambda>c. (nd_Name c, content c)) (nd_Children a) = map (\<lambda>c. (nd_Name c, content c)) (nd_Children b)"
      using less.prems(3) by (cases "nd_Type b"; auto simp: content_eq [of a] content_eq [of b])+
    have "map (\<lambda>c. bytes_of (nd_Name c) @ nd_Hash c) (nd_Children a) =
        map (\<lambda>c. bytes_of (nd_Name c) @ nd_Hash c) (nd_Children b)"
    proof (rule nth_equalityI)
      show "length (map (\<lambda>c. bytes_of (nd_Name c) @ nd_Hash c) (nd_Children a)) =
          length (map (\<lambda>c. bytes_of (nd_Name c) @ nd_Hash c) (nd_Children b))"
        using map_eq_imp_length_eq [OF c] by simp
      fix i assume "i < length (map (\<lambda>c. bytes_of (nd_Name c) @ nd_Hash c) (nd_Children a))"
      then have i: "i < length (nd_Children a)" "i < length (nd_Children b)"
        using map_eq_imp_length_eq [OF c] by auto
      let ?a = "nd_Children a ! i" and ?b = "nd_Children b ! i"
      have m: "?a \<in> set (nd_Children a)" "?b \<in> set (nd_Children b)" using i by auto
      have nc: "nd_Name ?a = nd_Name ?b" "content ?a = content ?b"
        using arg_cong [OF c, of "\<lambda>xs. xs ! i"] i by simp_all
      have "size ?a < size a" using m(1) by (rule child_size)
      then have "nd_Hash ?a = nd_Hash ?b"
        using less.hyps [of ?a ?b] nc m node_okD(5) less.prems by blast
      then show "map (\<lambda>c. bytes_of (nd_Name c) @ nd_Hash c) (nd_Children a) ! i =
          map (\<lambda>c. bytes_of (nd_Name c) @ nd_Hash c) (nd_Children b) ! i" using i nc by simp
    qed
    then show ?thesis using NodeTypeDir t node_okD(2) less.prems by (simp add: dir_bytes_def)
  qed
qed

lemma node_ok_content:
  assumes "hash_faithful S" "set (subnodes a) \<subseteq> S" "set (subnodes b) \<subseteq> S" "node_ok H a" "node_ok H b"
  shows "nd_Hash a = nd_Hash b \<longleftrightarrow> content a = content b"
  using hash_content [OF assms(1-3)] content_hash [OF assms(4,5)] by blast


section \<open>The comparison is exact\<close>

text \<open>The node at a path of names below a node, and the string \<open>diffNodes\<close> reports for it.\<close>

fun node_at :: "Node \<Rightarrow> string list \<Rightarrow> Node option" where
  "node_at n [] = Some n"
| "node_at n (x # xs) = (case child_map n x of None \<Rightarrow> None | Some c \<Rightarrow> node_at c xs)"

definition path_str :: "string \<Rightarrow> string list \<Rightarrow> string" where
  "path_str p xs = foldl joinPath p xs"

lemma path_str_simps [simp]: "path_str p [] = p" "path_str p (x # xs) = path_str (joinPath p x) xs"
  by (simp_all add: path_str_def)

text \<open>
  The specification: what two trees, given by the nodes at every path, differ in at one path. A node
  on one side only is reported on that side; two nodes with different content are reported unless
  both are directories, whose difference shows further down.
\<close>

definition diff_at :: "string \<Rightarrow> Node option \<Rightarrow> Node option \<Rightarrow> DiffResult option" where
  "diff_at p l r =
     (case (l, r) of
        (None, None) \<Rightarrow> None
      | (Some a, None) \<Rightarrow> Some (collect_result DiffTypeAdded p a)
      | (None, Some b) \<Rightarrow> Some (collect_result DiffTypeDeleted p b)
      | (Some a, Some b) \<Rightarrow>
          if content a = content b then None
          else if nd_Type a \<noteq> nd_Type b then Some (modified_result p a b [])
          else if nd_Type a = NodeTypeFile
          then Some (modified_result p a b (findDifferingChunks (nd_Chunks a) (nd_Chunks b)))
          else None)"

text \<open>A path is open when no node strictly above it changed between file and directory.\<close>

fun path_open :: "Node option \<Rightarrow> Node option \<Rightarrow> string list \<Rightarrow> bool" where
  "path_open l r [] = True"
| "path_open l r (x # xs) =
     ((case (l, r) of (Some a, Some b) \<Rightarrow> nd_Type a = nd_Type b | _ \<Rightarrow> True) \<and>
      path_open (Option.bind l (\<lambda>n. child_map n x)) (Option.bind r (\<lambda>n. child_map n x)) xs)"

definition diff_results :: "string \<Rightarrow> Node option \<Rightarrow> Node option \<Rightarrow> DiffResult set" where
  "diff_results p l r =
     {res. \<exists>xs. path_open l r xs \<and>
        diff_at (path_str p xs) (Option.bind l (\<lambda>n. node_at n xs)) (Option.bind r (\<lambda>n. node_at n xs)) = Some res}"

text \<open>The specification unfolds along the tree, one name at a time.\<close>

lemma diff_results_unfold:
  "diff_results p l r =
     set_option (diff_at p l r) \<union>
     (if (case (l, r) of (Some a, Some b) \<Rightarrow> nd_Type a = nd_Type b | _ \<Rightarrow> True)
      then (\<Union>x. diff_results (joinPath p x) (Option.bind l (\<lambda>n. child_map n x)) (Option.bind r (\<lambda>n. child_map n x)))
      else {})"
proof -
  have bind: "Option.bind l (\<lambda>n. node_at n (x # xs)) =
      Option.bind (Option.bind l (\<lambda>n. child_map n x)) (\<lambda>n. node_at n xs)" for l x xs
    by (cases l) (auto split: option.splits)
  have split: "(\<exists>xs. P xs) \<longleftrightarrow> P [] \<or> (\<exists>x xs. P (x # xs))" for P :: "string list \<Rightarrow> bool"
    by (metis neq_Nil_conv)
  have nil: "Option.bind l (\<lambda>n. node_at n []) = l" for l :: "Node option" by (cases l) auto
  let ?c = "case (l, r) of (Some a, Some b) \<Rightarrow> nd_Type a = nd_Type b | _ \<Rightarrow> True"
  let ?D = "\<lambda>x. diff_results (joinPath p x) (Option.bind l (\<lambda>n. child_map n x)) (Option.bind r (\<lambda>n. child_map n x))"
  have "res \<in> diff_results p l r \<longleftrightarrow> diff_at p l r = Some res \<or> (?c \<and> (\<exists>x. res \<in> ?D x))" for res
  proof -
    let ?P = "\<lambda>xs. path_open l r xs \<and>
      diff_at (path_str p xs) (Option.bind l (\<lambda>n. node_at n xs)) (Option.bind r (\<lambda>n. node_at n xs)) = Some res"
    have "res \<in> diff_results p l r \<longleftrightarrow> ?P [] \<or> (\<exists>x xs. ?P (x # xs))"
      unfolding diff_results_def mem_Collect_eq by (rule split)
    moreover have "?P [] \<longleftrightarrow> diff_at p l r = Some res" by (simp only: nil path_open.simps path_str_simps simp_thms)
    moreover have "(\<exists>x xs. ?P (x # xs)) \<longleftrightarrow> ?c \<and> (\<exists>x. res \<in> ?D x)"
      unfolding diff_results_def mem_Collect_eq path_open.simps path_str_simps bind by blast
    ultimately show ?thesis by blast
  qed
  then show ?thesis by (cases ?c) auto
qed

lemma diff_results_None [simp]: "diff_results p None None = {}"
proof -
  have "Option.bind None (\<lambda>n. node_at n xs) = None" for xs by simp
  then show ?thesis by (simp add: diff_results_def diff_at_def)
qed

lemma child_names_set: "x \<in> set (child_names n) \<longleftrightarrow> child_map n x \<noteq> None"
  by (auto simp: child_names_def child_map_None)

lemma child_map_name: "child_map n x = Some c \<Longrightarrow> nd_Name c = x"
  by (auto simp: child_map_def dest: map_of_SomeD)

lemma UN_children:
  assumes "distinct (map nd_Name (nd_Children n))"
  shows "(\<Union>x. case child_map n x of None \<Rightarrow> {} | Some c \<Rightarrow> F c) = (\<Union>c \<in> set (nd_Children n). F c)"
proof -
  let ?G = "\<lambda>x. case child_map n x of None \<Rightarrow> {} | Some c \<Rightarrow> F c"
  show ?thesis
  proof (intro equalityI subsetI)
    fix z assume "z \<in> (\<Union>x. ?G x)"
    then obtain x where "z \<in> ?G x" by blast
    then obtain c where "child_map n x = Some c" "z \<in> F c" by (cases "child_map n x") auto
    then show "z \<in> (\<Union>c \<in> set (nd_Children n). F c)" using child_map_in by blast
  next
    fix z assume "z \<in> (\<Union>c \<in> set (nd_Children n). F c)"
    then obtain c where "c \<in> set (nd_Children n)" "z \<in> F c" by blast
    then have "z \<in> ?G (nd_Name c)" using child_map_Some [OF assms, of "nd_Name c" c] by simp
    then show "z \<in> (\<Union>x. ?G x)" by (rule UN_I [OF UNIV_I])
  qed
qed

lemma UN_names:
  assumes "set ns = set (child_names n)"
  shows "set (concat (map (\<lambda>x. case child_map n x of None \<Rightarrow> [] | Some c \<Rightarrow> F x c) ns)) =
    (\<Union>x. case child_map n x of None \<Rightarrow> {} | Some c \<Rightarrow> set (F x c))"
proof -
  let ?G = "\<lambda>x. case child_map n x of None \<Rightarrow> {} | Some c \<Rightarrow> set (F x c)"
  have "?G x = {}" if "x \<notin> set ns" for x using that assms child_names_set [of x n] by simp
  then have "(\<Union>x \<in> set ns. ?G x) = (\<Union>x. ?G x)" by blast
  then show ?thesis unfolding set_concat set_map image_image option.case_distrib [of set] list.set(1) .
qed

lemma collectAll_set:
  "set (collectAll ty p n) = insert (collect_result ty (joinPath p (nd_Name n)) n)
     (\<Union>c \<in> set (nd_Children n). set (collectAll ty (joinPath p (nd_Name n)) c))"
  by (cases n) (auto simp: Let_def)

text \<open>One side missing: \<open>collectAll\<close> reports every node of the other side.\<close>

lemma collectAll_exact:
  assumes "node_ok H n"
  shows "set (collectAll DiffTypeAdded p n) = diff_results (joinPath p (nd_Name n)) (Some n) None"
    and "set (collectAll DiffTypeDeleted p n) = diff_results (joinPath p (nd_Name n)) None (Some n)"
proof -
  have "set (collectAll DiffTypeAdded p n) = diff_results (joinPath p (nd_Name n)) (Some n) None \<and>
    set (collectAll DiffTypeDeleted p n) = diff_results (joinPath p (nd_Name n)) None (Some n)"
    using assms
  proof (induction "size n" arbitrary: n p rule: less_induct)
    case less
    let ?q = "joinPath p (nd_Name n)"
    have step: "diff_results (joinPath ?q x) (child_map n x) None =
        (case child_map n x of None \<Rightarrow> {} | Some c \<Rightarrow> set (collectAll DiffTypeAdded ?q c))"
      "diff_results (joinPath ?q x) None (child_map n x) =
        (case child_map n x of None \<Rightarrow> {} | Some c \<Rightarrow> set (collectAll DiffTypeDeleted ?q c))" for x
      using less.hyps [OF child_map_size, of x _ ?q] node_okD(5) [OF less.prems child_map_in] child_map_name
      by (auto split: option.split)
    show ?case
      using UN_children [OF node_okD(4) [OF less.prems], of "\<lambda>c. set (collectAll _ ?q c)"]
      by (simp add: collectAll_set [of _ p n] diff_results_unfold [of ?q] diff_at_def step
          UN_children [OF node_okD(4) [OF less.prems]])
  qed
  then show "set (collectAll DiffTypeAdded p n) = diff_results (joinPath p (nd_Name n)) (Some n) None"
    "set (collectAll DiffTypeDeleted p n) = diff_results (joinPath p (nd_Name n)) None (Some n)" by auto
qed

text \<open>Nodes with the same content differ nowhere.\<close>

lemma child_map_content:
  "map_option content (child_map n x) = map_of (rev (map (\<lambda>c. (nd_Name c, content c)) (nd_Children n))) x"
proof -
  have "map_option f (map_of (map (\<lambda>c. (nd_Name c, c)) cs) x) = map_of (map (\<lambda>c. (nd_Name c, f c)) cs) x"
    for f :: "Node \<Rightarrow> tree_content" and cs
    by (induction cs) auto
  from this [of content "rev (nd_Children n)"] show ?thesis by (simp add: child_map_def rev_map)
qed

lemma content_children:
  assumes "node_ok H a" "node_ok H b" "content a = content b"
  shows "nd_Type a = nd_Type b \<and> map_option content (child_map a x) = map_option content (child_map b x)"
proof (cases "nd_Type a")
  case NodeTypeFile
  then have "nd_Type b = NodeTypeFile" using assms(3) by (auto simp: content_eq [of a] content_eq [of b] split: if_splits)
  then show ?thesis using NodeTypeFile node_okD(1) [OF assms(1)] node_okD(1) [OF assms(2)]
    by (simp add: child_map_content)
next
  case NodeTypeDir
  then have "nd_Type b \<noteq> NodeTypeFile" using assms(3) by (auto simp: content_eq [of a] content_eq [of b] split: if_splits)
  then have "nd_Type b = NodeTypeDir" by (cases "nd_Type b") auto
  then show ?thesis using NodeTypeDir assms(3) by (simp add: child_map_content content_eq [of a] content_eq [of b])
qed

lemma same_content_no_diff:
  assumes "node_ok H a" "node_ok H b" "content a = content b"
  shows "diff_results p (Some a) (Some b) = {}"
  using assms
proof (induction "size a" arbitrary: a b p rule: less_induct)
  case less
  have "diff_results (joinPath p x) (child_map a x) (child_map b x) = {}" for x
  proof (cases "child_map a x")
    case None
    then show ?thesis using content_children [OF less.prems, of x] by simp
  next
    case (Some c)
    then obtain d where d: "child_map b x = Some d" "content c = content d"
      using content_children [OF less.prems, of x] by (cases "child_map b x") auto
    have "node_ok H c" "node_ok H d"
      using node_okD(5) [OF less.prems(1) child_map_in [OF Some]]
        node_okD(5) [OF less.prems(2) child_map_in [OF d(1)]] by auto
    from less.hyps [OF child_map_size [OF Some] this d(2)] show ?thesis using Some d(1) by simp
  qed
  then show ?case
    using less.prems(3) by (subst diff_results_unfold) (simp add: diff_at_def)
qed

lemma diffNodes_exact:
  assumes "hash_faithful S" and ord: "\<And>p b ns. set (ord p b ns) = set ns"
    and "set (subnodes l) \<subseteq> S" "set (subnodes r) \<subseteq> S" "node_ok H l" "node_ok H r"
  shows "set (diffNodes ord (Some l) (Some r) p) = diff_results (joinPath p (nd_Name l)) (Some l) (Some r)"
  using assms(3-)
proof (induction "size l" arbitrary: l r p rule: less_induct)
  case less
  let ?q = "joinPath p (nd_Name l)"
  note same = node_ok_content [OF assms(1) less.prems]
  consider (same) "nd_Hash l = nd_Hash r" | (type) "nd_Hash l \<noteq> nd_Hash r" "nd_Type l \<noteq> nd_Type r"
    | (files) "nd_Hash l \<noteq> nd_Hash r" "nd_Type l = NodeTypeFile" "nd_Type r = NodeTypeFile"
    | (dirs) "nd_Hash l \<noteq> nd_Hash r" "nd_Type l = NodeTypeDir" "nd_Type r = NodeTypeDir"
    by (metis (full_types) NodeType.exhaust)
  then show ?case
  proof cases
    case same
    then show ?thesis
      using \<open>nd_Hash l = nd_Hash r \<longleftrightarrow> content l = content r\<close> same_content_no_diff less.prems
      by (simp add: diffNodes.simps(4))
  next
    case type
    then show ?thesis using same
      by (subst diff_results_unfold) (simp add: diffNodes.simps(4) diff_at_def)
  next
    case files
    have "child_map l x = None" "child_map r x = None" for x
      using files node_okD(1) less.prems(3,4) by (simp_all add: child_map_None)
    then show ?thesis using files same
      by (subst diff_results_unfold) (simp add: diffNodes.simps(4) diff_at_def)
  next
    case dirs
    have L: "(case child_map l x of None \<Rightarrow> {} | Some lc \<Rightarrow> set (diffNodes ord (Some lc) (child_map r x) ?q)) \<union>
        (case child_map r x of None \<Rightarrow> {} | Some rc \<Rightarrow>
           if child_map l x = None then set (diffNodes ord None (Some rc) ?q) else {}) =
        diff_results (joinPath ?q x) (child_map l x) (child_map r x)" for x
    proof (cases "child_map l x")
      case None
      then show ?thesis
        using collectAll_exact(2) [OF node_okD(5) [OF less.prems(4) child_map_in]] child_map_name
        by (auto split: option.split)
    next
      case lc: (Some lc)
      note lc' = child_map_in [OF lc]
      have ok: "node_ok H lc" "set (subnodes lc) \<subseteq> S" "nd_Name lc = x"
        using node_okD(5) [OF less.prems(3) lc'] subnodes_child [OF lc'] less.prems(1) child_map_name [OF lc] by auto
      show ?thesis
      proof (cases "child_map r x")
        case None
        then show ?thesis using lc collectAll_exact(1) [OF ok(1), of ?q] ok(3) by simp
      next
        case (Some rc)
        note rc' = child_map_in [OF Some]
        have "set (diffNodes ord (Some lc) (Some rc) ?q) = diff_results (joinPath ?q x) (Some lc) (Some rc)"
          using less.hyps [OF child_map_size [OF lc] ok(2) _ ok(1) node_okD(5) [OF less.prems(4) rc'], of ?q]
            subnodes_child [OF rc'] less.prems(2) ok(3) by blast
        then show ?thesis using lc Some by simp
      qed
    qed
    have "set (diffNodes ord (Some l) (Some r) p) =
        (\<Union>x. case child_map l x of None \<Rightarrow> {} | Some lc \<Rightarrow> set (diffNodes ord (Some lc) (child_map r x) ?q)) \<union>
        (\<Union>x. case child_map r x of None \<Rightarrow> {} | Some rc \<Rightarrow>
           set (if child_map l x = None then diffNodes ord None (Some rc) ?q else []))"
      using dirs UN_names [of "ord ?q True (child_names l)" l "\<lambda>x lc. diffNodes ord (Some lc) (child_map r x) ?q", OF ord]
        UN_names [of "ord ?q False (child_names r)" r
          "\<lambda>x rc. if child_map l x = None then diffNodes ord None (Some rc) ?q else []", OF ord]
      by (simp only: diffNodes.simps(4) Let_def set_append) simp
    also have "\<dots> = (\<Union>x. diff_results (joinPath ?q x) (child_map l x) (child_map r x))"
      unfolding UN_Un_distrib [symmetric] if_distrib [of set] list.set(1) L by (rule refl)
    also have "\<dots> = diff_results ?q (Some l) (Some r)"
      using dirs by (subst (2) diff_results_unfold) (simp add: diff_at_def)
    finally show ?thesis .
  qed
qed

text \<open>Different contents differ somewhere on an open path.\<close>

lemma content_diff_child:
  assumes "node_ok H a" "node_ok H b" "nd_Type a = NodeTypeDir" "nd_Type b = NodeTypeDir"
    and "\<And>x. map_option content (child_map a x) = map_option content (child_map b x)"
  shows "content a = content b"
proof -
  let ?f = "\<lambda>c. (nd_Name c, content c)"
  let ?xs = "map ?f (nd_Children a)" and ?ys = "map ?f (nd_Children b)"
  have d: "distinct (map fst ?xs)" "distinct (map fst ?ys)" "sorted (map fst ?xs)" "sorted (map fst ?ys)"
    using node_okD(3,4) assms(1,2) by (auto simp: comp_def)
  have "map_of (rev ?xs) = map_of (rev ?ys)" using assms(5) by (auto simp: child_map_content)
  moreover have "distinct (map fst (rev ?xs))" "distinct (map fst (rev ?ys))"
    using d(1,2) by (simp_all only: rev_map [symmetric] distinct_rev)
  ultimately have "set (rev ?xs) = set (rev ?ys)" by (simp only: map_of_inject_set)
  then have e: "set ?xs = set ?ys" by (simp only: set_rev)
  have "inj_on fst (set ?xs \<union> set ?ys)"
    using d(1) unfolding e [symmetric] Un_absorb distinct_map [of fst ?xs] by (rule conjunct2)
  then have "?xs = ?ys" using map_sorted_distinct_set_unique [of fst ?xs ?ys] d e by blast
  then show ?thesis using assms(3,4) by (simp add: content_eq [of a] content_eq [of b])
qed

lemma diff_results_one_side: "(l = None) \<noteq> (r = None) \<Longrightarrow> diff_results p l r \<noteq> {}"
  by (subst diff_results_unfold) (auto simp: diff_at_def split: option.splits)

lemma content_diff_nonempty:
  assumes "node_ok H a" "node_ok H b" "content a \<noteq> content b"
  shows "diff_results p (Some a) (Some b) \<noteq> {}"
  using assms
proof (induction "size a" arbitrary: a b p rule: less_induct)
  case less
  show ?case
  proof (cases "nd_Type a = NodeTypeDir \<and> nd_Type b = NodeTypeDir")
    case True
    then obtain x where x: "map_option content (child_map a x) \<noteq> map_option content (child_map b x)"
      using content_diff_child less.prems by metis
    have "diff_results (joinPath p x) (child_map a x) (child_map b x) \<noteq> {}"
    proof (cases "child_map a x = None \<or> child_map b x = None")
      case True
      then show ?thesis using x by (intro diff_results_one_side) auto
    next
      case False
      then obtain c d where cd: "child_map a x = Some c" "child_map b x = Some d" by auto
      have "node_ok H c" "node_ok H d"
        using node_okD(5) [OF less.prems(1) child_map_in [OF cd(1)]]
          node_okD(5) [OF less.prems(2) child_map_in [OF cd(2)]] by auto
      from less.hyps [OF child_map_size [OF cd(1)] this] show ?thesis using cd x by simp
    qed
    then show ?thesis using True by (subst diff_results_unfold) auto
  next
    case False
    then have "diff_at p (Some a) (Some b) \<noteq> None"
      using less.prems(3) by (cases "nd_Type a"; cases "nd_Type b") (simp_all add: diff_at_def)
    then show ?thesis by (subst diff_results_unfold) auto
  qed
qed


section \<open>Trees of directories\<close>

text \<open>
  What a directory holds for the synchroniser: the bytes of its files and the named entries of its
  directories in order, without the entries whose name starts with a dot.
\<close>

datatype view = VFile bytes | VDir "(string \<times> view) list"

definition hidden :: "entry \<Rightarrow> bool" where
  "hidden e \<longleftrightarrow> hd (en_Name e) = CHR ''.''"

fun visible :: "entry \<Rightarrow> view" where
  "visible (FileEntry name mode info opens sz r) = VFile (rd_bytes r)"
| "visible (DirEntry name mode info opens es) =
     VDir (sort_key fst (map (\<lambda>e. (en_Name e, visible e)) (filter (\<lambda>e. \<not> hidden e) es)))"

fun hash_view :: "(bytes \<Rightarrow> bytes) \<Rightarrow> view \<Rightarrow> tree_content" where
  "hash_view H (VFile b) = CFile (map H (blocks ChunkSize b))"
| "hash_view H (VDir xs) = CDir (map (\<lambda>(n, v). (n, hash_view H v)) xs)"

fun entry_ok :: "entry \<Rightarrow> bool" where
  "entry_ok (FileEntry name mode info opens sz r) \<longleftrightarrow> opens \<and> rd_fail r = None"
| "entry_ok (DirEntry name mode info opens es) \<longleftrightarrow>
     opens \<and> list_all (\<lambda>e. en_Name e \<noteq> [] \<and> (hidden e \<or> en_Info e \<and> entry_ok e)) es \<and>
     distinct (map en_Name (filter (\<lambda>e. \<not> hidden e) es))"

lemma map_sort_key: "map f (sort_key (\<lambda>x. g (f x)) xs) = sort_key g (map f xs)"
proof -
  have "map f (insort_key (\<lambda>x. g (f x)) x xs) = insort_key g (f x) (map f xs)" for x xs
    by (induction xs) auto
  then show ?thesis by (induction xs) auto
qed

lemma node_set_Size [simp]:
  "node_ok H (set_Size s n) = node_ok H n" "content (set_Size s n) = content n"
  "nd_Name (set_Size s n) = nd_Name n" "nd_Hash (set_Size s n) = nd_Hash n"
  by (cases n; simp)+

lemma New_fields [simp]:
  "nd_Name (NewFileNode H name mode chunks) = name" "content (NewFileNode H name mode chunks) = CFile chunks"
  "nd_Name (NewDirNode H name mode cs) = name"
  "content (NewDirNode H name mode cs) = CDir (map (\<lambda>c. (nd_Name c, content c)) (sort_key nd_Name cs))"
  "nd_Hash (NewFileNode H name mode chunks) = H (concat chunks)"
  "nd_Hash (NewDirNode H name mode cs) = H (dir_bytes (sort_key nd_Name cs))"
  by (simp_all add: NewFileNode_def NewDirNode_def)

lemma ChunkAll_hashes:
  "rd_fail r = None \<Longrightarrow> ChunkAll H r = Inr (map (chunk_of H) (blocks ChunkSize (rd_bytes r)))"
  by (simp add: ChunkAll_def chunk_loop_spec stream_end_def stream_data_def)

lemma build_spec:
  "entry_ok e \<Longrightarrow>
     \<exists>n. buildNode H e = Inr n \<and> node_ok H n \<and> nd_Name n = en_Name e \<and> content n = hash_view H (visible e)"
  "list_all (\<lambda>e. en_Name e \<noteq> [] \<and> (hidden e \<or> en_Info e \<and> entry_ok e)) es \<Longrightarrow>
     \<exists>cs. build_children H es = Inr cs \<and> list_all (node_ok H) cs \<and>
       map (\<lambda>c. (nd_Name c, content c)) cs =
         map (\<lambda>e. (en_Name e, hash_view H (visible e))) (filter (\<lambda>e. \<not> hidden e) es)"
proof (induction H e and H es rule: buildNode_build_children.induct)
  case (1 H name mode info opens sz r)
  then show ?case by (auto simp: ChunkAll_hashes node_ok_file comp_def)
next
  case (2 H name mode info opens es)
  then obtain cs where cs: "build_children H es = Inr cs" "list_all (node_ok H) cs"
      "map (\<lambda>c. (nd_Name c, content c)) cs =
        map (\<lambda>e. (en_Name e, hash_view H (visible e))) (filter (\<lambda>e. \<not> hidden e) es)" by auto
  have "map nd_Name cs = map en_Name (filter (\<lambda>e. \<not> hidden e) es)"
    using arg_cong [OF cs(3), of "map fst"] by (simp add: comp_def)
  then have "node_ok H (NewDirNode H name mode cs)" using 2 cs by (intro node_ok_dir) auto
  moreover have "content (NewDirNode H name mode cs) = hash_view H (visible (DirEntry name mode info opens es))"
    using map_sort_key [of "\<lambda>c. (nd_Name c, content c)" fst cs]
      map_sort_key [of "\<lambda>(n, v). (n, hash_view H v)" fst "map (\<lambda>e. (en_Name e, visible e)) (filter (\<lambda>e. \<not> hidden e) es)"]
    by (simp add: cs(3) comp_def case_prod_beta)
  ultimately show ?case using 2 cs by simp
next
  case (3 H)
  then show ?case by simp
next
  case (4 H e es)
  then show ?case by (cases "hidden e") (auto simp: hidden_def)
qed

text \<open>The blocks of all files of a view; without collisions among them the hashed view is the view.\<close>

fun view_blocks :: "view \<Rightarrow> bytes list" where
  "view_blocks (VFile b) = blocks ChunkSize b"
| "view_blocks (VDir xs) = concat (map (\<lambda>(n, v). view_blocks v) xs)"

lemma hash_view_inject:
  assumes "collision_free H (set (view_blocks v) \<union> set (view_blocks w))" "hash_view H v = hash_view H w"
  shows "v = w"
  using assms
proof (induction v arbitrary: w)
  case (VFile b)
  then obtain c where w: "w = VFile c" by (cases w) auto
  then have "inj_on H (set (blocks ChunkSize b) \<union> set (blocks ChunkSize c))"
      "map H (blocks ChunkSize b) = map H (blocks ChunkSize c)"
    using VFile by (auto simp: collision_free_def)
  then have "blocks ChunkSize b = blocks ChunkSize c" by (rule map_inj_on [rotated])
  then have "concat (blocks ChunkSize b) = concat (blocks ChunkSize c)" by (rule arg_cong)
  then show ?case using w by (simp add: ChunkSize_def)
next
  case (VDir xs)
  then obtain ys where w: "w = VDir ys" by (cases w) auto
  let ?f = "\<lambda>(n, v). (n, hash_view H v)"
  have eq: "map ?f xs = map ?f ys" using VDir.prems(2) w by simp
  have len: "length xs = length ys" using map_eq_imp_length_eq [OF eq] .
  have "xs = ys"
  proof (rule nth_equalityI [OF len])
    fix i assume i: "i < length xs"
    obtain n v m u where nv: "xs ! i = (n, v)" "ys ! i = (m, u)" by (metis surj_pair)
    have mem: "(n, v) \<in> set xs" "(m, u) \<in> set ys" using i len nv nth_mem by metis+
    have e: "n = m" "hash_view H v = hash_view H u"
      using arg_cong [OF eq, of "\<lambda>zs. zs ! i"] i len nv by simp_all
    have "set (view_blocks v) \<union> set (view_blocks u) \<subseteq> set (view_blocks (VDir xs)) \<union> set (view_blocks w)"
      using mem w by fastforce
    from collision_free_mono [OF VDir.prems(1) this] have "v = u"
      using VDir.IH [OF mem(1)] e(2) by simp
    then show "xs ! i = ys ! i" using nv e by simp
  qed
  then show ?case using w by simp
qed

lemma Diff_trees:
  assumes "hash_faithful (set (subnodes l) \<union> set (subnodes r))" "node_ok H l" "node_ok H r"
    and "\<And>p b ns. set (ord p b ns) = set ns"
  shows "set (Diff ord (Some \<lparr>tr_Root = Some l\<rparr>) (Some \<lparr>tr_Root = Some r\<rparr>)) = diff_results (nd_Name l) (Some l) (Some r)"
proof -
  have sub: "set (subnodes l) \<subseteq> set (subnodes l) \<union> set (subnodes r)"
    "set (subnodes r) \<subseteq> set (subnodes l) \<union> set (subnodes r)" by auto
  have "diff_results (nd_Name l) (Some l) (Some r) = {}" if "nd_Hash l = nd_Hash r"
    using same_content_no_diff [OF assms(2,3)] hash_content [OF assms(1) sub that] by simp
  then show ?thesis
    using diffNodes_exact [of _ ord l r H "[]", OF assms(1) assms(4) sub assms(2,3)]
    by (simp add: Diff_def joinPath_def)
qed

lemma Diff_empty_iff:
  assumes "hash_faithful (set (subnodes l) \<union> set (subnodes r))" "node_ok H l" "node_ok H r"
    and "\<And>p b ns. set (ord p b ns) = set ns"
  shows "Diff ord (Some \<lparr>tr_Root = Some l\<rparr>) (Some \<lparr>tr_Root = Some r\<rparr>) = [] \<longleftrightarrow> content l = content r"
  using Diff_trees [of l r H ord, OF assms] same_content_no_diff [OF assms(2,3)] content_diff_nonempty [OF assms(2,3)]
  by (metis set_empty)

lemma manifest_node_roundtrip: "node_ok H n \<Longrightarrow> manifestNodeToNode (nodeToManifestNode n) = n"
proof (induction n rule: nodeToManifestNode.induct)
  case (1 name ty hash mode sz children chunks)
  then show ?case by (auto simp: list_all_iff intro: map_idI split: if_splits)
qed


section \<open>Properties\<close>


text \<open>Two small trees and two small directories, for instances of the theorems.\<close>

definition tree1 :: Node where "tree1 = NewDirNode (\<lambda>x. x) ''r'' 0 [NewFileNode (\<lambda>x. x) ''a'' 0 [[1]]]"
definition tree2 :: Node where "tree2 = NewDirNode (\<lambda>x. x) ''r'' 0 [NewFileNode (\<lambda>x. x) ''a'' 0 [[2]]]"
definition dir1 :: entry where "dir1 = DirEntry ''r'' 0 True True [FileEntry ''a'' 0 True True 1 (reader_of [1])]"
definition dir2 :: entry where "dir2 = DirEntry ''r'' 0 True True
  [FileEntry ''a'' 0 True True 1 (reader_of [2]), FileEntry ''.b'' 0 False False 1 (reader_of [])]"

lemma tree_ok: "node_ok (\<lambda>x. x) tree1" "node_ok (\<lambda>x. x) tree2"
  by (simp_all add: tree1_def tree2_def NewDirNode_def NewFileNode_def)

lemma tree_faithful: "hash_faithful (set (subnodes tree1) \<union> set (subnodes tree2))"
  by (simp add: hash_faithful_def tree1_def tree2_def NewDirNode_def NewFileNode_def dir_bytes_def bytes_of_def)




text \<open>
  The hash of a directory does not depend on the order in which its entries were read: any
  permutation of children with distinct names gives the same node.
\<close>

theorem new_dir_node_order_independent:
  assumes "mset cs = mset cs'" "distinct (map nd_Name cs)"
  shows "NewDirNode H name mode cs = NewDirNode H name mode cs'"
proof -
  have "inj_on nd_Name (set cs)" using assms(2) by (simp add: distinct_map)
  then have "sort_key nd_Name cs = sort_key nd_Name cs'"
    using assms(1) by (intro sort_key_inj_key_eq) simp_all
  then show ?thesis by (simp add: NewDirNode_def)
qed

lemma new_dir_node_order_independent_witness:
  "NewDirNode pad_hash ''r'' 0 [NewFileNode pad_hash ''a'' 0 [[1]], NewFileNode pad_hash ''b'' 0 []] =
    NewDirNode pad_hash ''r'' 0 [NewFileNode pad_hash ''b'' 0 [], NewFileNode pad_hash ''a'' 0 [[1]]]"
  by (rule new_dir_node_order_independent) simp_all

text \<open>
  \<open>GetChild\<close>'s binary search agrees with a search through all children of a well-formed node: it
  finds exactly the child with the given name.
\<close>

theorem get_child_correct:
  assumes "node_ok H n" "IsDir n"
  shows "GetChild n name = find (\<lambda>c. nd_Name c = name) (nd_Children n)"
  using GetChild_child_map [OF assms(1)] child_map_find [OF node_okD(4) [OF assms(1)]] assms(2) by simp

lemma get_child_correct_witness:
  "GetChild tree1 ''a'' = Some (NewFileNode (\<lambda>x. x) ''a'' 0 [[1]])"
  using get_child_correct [OF tree_ok(1), of "''a''"]
  by (simp add: tree1_def IsDir_def NewDirNode_def NewFileNode_def)

text \<open>
  C35. A well-formed tree survives the conversion to a manifest and back.
\<close>

theorem manifest_roundtrip:
  assumes "\<forall>n. tr_Root t = Some n \<longrightarrow> node_ok H n"
  shows "BuildFromManifest (Some (ToManifest t)) = Inr t"
  using assms manifest_node_roundtrip
  by (cases "tr_Root t") (auto simp: BuildFromManifest_def ToManifest_def)

lemma manifest_roundtrip_witness:
  "BuildFromManifest (Some (ToManifest \<lparr>tr_Root = Some tree1\<rparr>)) = Inr \<lparr>tr_Root = Some tree1\<rparr>"
  by (rule manifest_roundtrip [of _ "\<lambda>x. x"]) (simp add: tree_ok)

text \<open>
  An empty file and an empty directory of the same name cannot be told apart, whatever the digest:
  both hash the empty sequence, so the comparison reports nothing although the contents differ.
\<close>

theorem empty_file_and_dir_not_distinguished:
  "Diff ord (Some \<lparr>tr_Root = Some (NewDirNode H root m [NewFileNode H name m1 []])\<rparr>)
     (Some \<lparr>tr_Root = Some (NewDirNode H root m [NewDirNode H name m2 []])\<rparr>) = [] \<and>
   content (NewDirNode H root m [NewFileNode H name m1 []]) \<noteq>
     content (NewDirNode H root m [NewDirNode H name m2 []])"
  by (simp add: Diff_def dir_bytes_def)

end
