(* ===== verification/Sync.thy ===== *)
theory Sync
  imports Transport BlobStore Merkle
begin

text \<open>
  Model of \<open>internal/net/sync.go\<close>: the sync manager, which compares its tree with a peer's manifest,
  requests the chunks of the differences in batches, stores them, and answers the same requests of
  its peers. The streams it opens are arguments: one for the manifest, one per batch. The counters
  behind \<open>Stats\<close> are never written and stay zero.
\<close>

section \<open>Definitions\<close>

record SyncManager =
  sy_tree :: "Tree option"
  sy_workers :: int
  sy_chunksRequested :: int
  sy_chunksReceived :: int
  sy_bytesReceived :: int

definition NewSyncManager :: "Tree option \<Rightarrow> int \<Rightarrow> SyncManager" where
  "NewSyncManager tree workers =
     \<lparr>sy_tree = tree, sy_workers = (if workers \<le> 0 then 4 else workers),
      sy_chunksRequested = 0, sy_chunksReceived = 0, sy_bytesReceived = 0\<rparr>"

definition UpdateMerkleRoot :: "SyncManager \<Rightarrow> Tree option \<Rightarrow> SyncManager" where
  "UpdateMerkleRoot sm tree = sm\<lparr>sy_tree := tree\<rparr>"

definition Stats :: "SyncManager \<Rightarrow> int \<times> int \<times> int" where
  "Stats sm = (sy_chunksRequested sm, sy_chunksReceived sm, sy_bytesReceived sm)"

fun manifestToNode :: "PManifestNode \<Rightarrow> Node" where
  "manifestToNode (PManifestNode name isDir hash mode sz children chunks) =
     Node name (if isDir then NodeTypeDir else NodeTypeFile) hash mode sz (map manifestToNode children) chunks"

fun nodeToManifest :: "Node \<Rightarrow> PManifestNode" where
  "nodeToManifest (Node name ty hash mode sz children chunks) =
     PManifestNode name (ty = NodeTypeDir) hash mode sz (map nodeToManifest children) chunks"

definition HandleChunkRequest :: "BlobStore \<Rightarrow> fs \<Rightarrow> ChunkRequest \<Rightarrow> ChunkResponse" where
  "HandleChunkRequest s fs req =
     foldl (\<lambda>resp hash. case Get s hash fs of
              Inl e \<Rightarrow> resp\<lparr>cs_NotFound := cs_NotFound resp @ [hash]\<rparr>
            | Inr chunk \<Rightarrow> resp\<lparr>cs_Chunks := cs_Chunks resp @
                [\<lparr>pc_Hash = ch_Hash chunk, pc_Data = ch_Data chunk, pc_Size = ch_Size chunk\<rparr>]\<rparr>)
       \<lparr>cs_Chunks = [], cs_NotFound = []\<rparr> (cr_ChunkHashes req)"

definition HandleManifestRequest :: "SyncManager \<Rightarrow> ManifestRequest \<Rightarrow> ManifestResponse" where
  "HandleManifestRequest sm req =
     \<lparr>ms_Root = map_option nodeToManifest (Option.bind (sy_tree sm) tr_Root), ms_NodeCount = 0\<rparr>"

text \<open>A response of another type returns a nil manifest and a nil error.\<close>

definition requestManifest :: "codec \<Rightarrow> stream option \<Rightarrow> ManifestResponse option res" where
  "requestManifest cd stream =
     (case stream of
        None \<Rightarrow> Inl (Err ''open stream'')
      | Some s \<Rightarrow>
          (case SendManifestRequest cd (sm_out s) 1
                  \<lparr>mr_SubtreePath = [], mr_MaxDepth = -1, mr_IncludeChunks = True\<rparr> of
             (Inl e, w) \<Rightarrow> Inl e
           | (Inr u, w) \<Rightarrow>
               (case ReadEnvelope cd (sm_reply s (wr_bytes w)) of
                  (Inl e, r) \<Rightarrow> Inl e
                | (Inr env, r) \<Rightarrow>
                    if ev_Type env \<noteq> MESSAGE_TYPE_MANIFEST_RESPONSE then Inr None
                    else case UnmarshalPayload cd env KManifestResponse of
                           Some (MsgManifestResponse resp) \<Rightarrow> Inr (Some resp)
                         | _ \<Rightarrow> Inl (Err ''decode manifest''))))"

record SyncResult =
  sr_PeerID :: PeerID
  sr_AlreadyInSync :: bool
  sr_Diffs :: int
  sr_ChunksNeeded :: int
  sr_ChunksFetched :: int
  sr_ChunksNotFound :: int
  sr_BytesFetched :: int

definition chunks_to_fetch :: "DiffResult list \<Rightarrow> bytes list" where
  "chunks_to_fetch diffs =
     concat (map df_Chunks (filter (\<lambda>d. df_Type d = DiffTypeDeleted \<or> df_Type d = DiffTypeModified) diffs))"

text \<open>Storing the chunks of one response; \<open>flts n\<close> are the faults of the \<open>n\<close>-th \<open>Put\<close> of the sync.\<close>

fun store_chunks :: "(nat \<Rightarrow> faults) \<Rightarrow> BlobStore \<Rightarrow> PChunk list \<Rightarrow> SyncResult \<Rightarrow> fs \<Rightarrow>
    SyncResult \<times> go_error option \<times> fs" where
  "store_chunks flts s [] result fs = (result, None, fs)"
| "store_chunks flts s (c # cs) result fs =
     (case Put (flts (nat (sr_ChunksFetched result))) s
             \<lparr>ch_Hash = pc_Hash c, ch_Size = pc_Size c, ch_Data = pc_Data c\<rparr> fs of
        (Inl e, fs') \<Rightarrow> (result, Some e, fs')
      | (Inr b, fs') \<Rightarrow>
          store_chunks flts s cs
            (result\<lparr>sr_ChunksFetched := sr_ChunksFetched result + 1,
                    sr_BytesFetched := sr_BytesFetched result + int (length (pc_Data c))\<rparr>) fs')"

fun fetch_batches :: "codec \<Rightarrow> (nat \<Rightarrow> faults) \<Rightarrow> BlobStore \<Rightarrow> (nat \<Rightarrow> stream option) \<Rightarrow> nat \<Rightarrow> bytes list list \<Rightarrow>
    Peer \<Rightarrow> SyncResult \<Rightarrow> fs \<Rightarrow> SyncResult \<times> go_error option \<times> fs" where
  "fetch_batches cd flts s streams k [] peer result fs = (result, None, fs)"
| "fetch_batches cd flts s streams k (batch # batches) peer result fs =
     (case RequestChunks cd (streams k) peer batch of
        (Inl e, peer') \<Rightarrow> (result, Some e, fs)
      | (Inr resp, peer') \<Rightarrow>
          (case store_chunks flts s (cs_Chunks resp) result fs of
             (result', Some e, fs') \<Rightarrow> (result', Some e, fs')
           | (result', None, fs') \<Rightarrow>
               fetch_batches cd flts s streams (Suc k) batches peer'
                 (result'\<lparr>sr_ChunksNotFound := sr_ChunksNotFound result' + int (length (cs_NotFound resp))\<rparr>) fs'))"

definition SyncWithPeer :: "(string \<Rightarrow> bool \<Rightarrow> string list \<Rightarrow> string list) \<Rightarrow> codec \<Rightarrow> (nat \<Rightarrow> faults) \<Rightarrow> SyncManager \<Rightarrow>
    BlobStore \<Rightarrow> stream option \<Rightarrow> (nat \<Rightarrow> stream option) \<Rightarrow> Peer \<Rightarrow> fs \<Rightarrow>
    SyncResult option \<times> go_error option \<times> fs" where
  "SyncWithPeer ord cd flts sm s mstream streams peer fs =
     (let result = \<lparr>sr_PeerID = pr_ID peer, sr_AlreadyInSync = False, sr_Diffs = 0, sr_ChunksNeeded = 0,
            sr_ChunksFetched = 0, sr_ChunksNotFound = 0, sr_BytesFetched = 0\<rparr> in
      if (case Option.bind (sy_tree sm) tr_Root of
            None \<Rightarrow> False
          | Some root \<Rightarrow> pr_MerkleRoot peer \<noteq> [] \<and> nd_Hash root = pr_MerkleRoot peer)
      then (Some (result\<lparr>sr_AlreadyInSync := True\<rparr>), None, fs)
      else case requestManifest cd mstream of
             Inl e \<Rightarrow> (None, Some e, fs)
           | Inr None \<Rightarrow> (None, Some (Panic ''nil pointer dereference''), fs)
           | Inr (Some manifest) \<Rightarrow>
               let remoteTree = \<lparr>tr_Root = map_option manifestToNode (ms_Root manifest)\<rparr>;
                   diffs = Diff ord (sy_tree sm) (Some remoteTree);
                   chunksToFetch = chunks_to_fetch diffs;
                   result = result\<lparr>sr_Diffs := int (length diffs), sr_ChunksNeeded := int (length chunksToFetch)\<rparr>
               in if chunksToFetch = [] then (Some result, None, fs)
                  else case fetch_batches cd flts s streams 0 (blocks 16 chunksToFetch) peer result fs of
                         (result, err, fs') \<Rightarrow> (Some result, err, fs'))"

text \<open>
  A worker answers the requests of its channel in order. A nil request stops it, and so does the
  cancelled context, which is taken to be noticed when \<open>budget\<close> results have been delivered.
\<close>

record syncResult =
  sx_chunks :: "PChunk list"
  sx_notFound :: "bytes list"
  sx_err :: "go_error option"

fun worker :: "codec \<Rightarrow> nat \<Rightarrow> (stream option \<times> Peer \<times> bytes list) option list \<Rightarrow> syncResult list" where
  "worker cd budget [] = []"
| "worker cd budget (None # reqs) = []"
| "worker cd budget (Some (stream, peer, hashes) # reqs) =
     (let result = (case fst (RequestChunks cd stream peer hashes) of
                      Inl e \<Rightarrow> \<lparr>sx_chunks = [], sx_notFound = [], sx_err = Some e\<rparr>
                    | Inr resp \<Rightarrow> \<lparr>sx_chunks = cs_Chunks resp, sx_notFound = cs_NotFound resp, sx_err = None\<rparr>)
      in case budget of 0 \<Rightarrow> [] | Suc k \<Rightarrow> result # worker cd k reqs)"


section \<open>Lemmas\<close>

lemma manifest_wire_roundtrip: "manifestToNode (nodeToManifest n) = n"
proof (induction n rule: nodeToManifest.induct)
  case (1 name ty hash mode sz children chunks)
  then show ?case by (cases ty) (auto intro: map_idI)
qed

definition pchunk :: "bytes \<Rightarrow> bytes \<Rightarrow> PChunk" where
  "pchunk h d = \<lparr>pc_Hash = h, pc_Data = d, pc_Size = of_nat (length d)\<rparr>"

text \<open>The answer of a store to a request: the chunks it has, in order, and the hashes it has not.\<close>

lemma HandleChunkRequest_spec:
  assumes "store_inv s fs" "\<forall>h \<in> set hs. length h = 32"
  shows "HandleChunkRequest s fs \<lparr>cr_ChunkHashes = hs, cr_Priority = p\<rparr> =
    \<lparr>cs_Chunks = map (\<lambda>h. pchunk h (the (store_content s fs h))) (filter (\<lambda>h. h \<in> dom (store_content s fs)) hs),
     cs_NotFound = filter (\<lambda>h. h \<notin> dom (store_content s fs)) hs\<rparr>"
proof -
  let ?f = "\<lambda>resp hash. case Get s hash fs of
              Inl e \<Rightarrow> resp\<lparr>cs_NotFound := cs_NotFound resp @ [hash]\<rparr>
            | Inr chunk \<Rightarrow> resp\<lparr>cs_Chunks := cs_Chunks resp @
                [\<lparr>pc_Hash = ch_Hash chunk, pc_Data = ch_Data chunk, pc_Size = ch_Size chunk\<rparr>]\<rparr>"
  have "foldl ?f r hs = r\<lparr>cs_Chunks := cs_Chunks r @ map (\<lambda>h. pchunk h (the (store_content s fs h))) (filter (\<lambda>h. h \<in> dom (store_content s fs)) hs),
     cs_NotFound := cs_NotFound r @ filter (\<lambda>h. h \<notin> dom (store_content s fs)) hs\<rparr>" for r :: ChunkResponse
    using assms(2)
  proof (induction hs arbitrary: r)
    case (Cons h hs)
    then show ?case
      using blobs.get_law [OF assms(1), of h] by (cases "store_content s fs h") (simp_all add: pchunk_def domIff)
  qed simp
  from this [of "\<lparr>cs_Chunks = [], cs_NotFound = []\<rparr>"] show ?thesis by (simp add: HandleChunkRequest_def)
qed

text \<open>Storing chunks without faults.\<close>

lemma store_chunks_spec:
  assumes "store_inv s fs" "\<forall>c \<in> set cs. length (pc_Hash c) = 32"
  shows "\<exists>fs'. store_chunks (\<lambda>n. no_faults) s cs res fs =
      (res\<lparr>sr_ChunksFetched := sr_ChunksFetched res + int (length cs),
           sr_BytesFetched := sr_BytesFetched res + (\<Sum>c \<leftarrow> cs. int (length (pc_Data c)))\<rparr>, None, fs') \<and>
    store_inv s fs' \<and>
    store_content s fs' = foldl (\<lambda>m c. if m (pc_Hash c) = None then m(pc_Hash c \<mapsto> pc_Data c) else m) (store_content s fs) cs"
  using assms
proof (induction cs arbitrary: res fs)
  case Nil
  then show ?case by simp
next
  case (Cons c cs)
  let ?c = "\<lparr>ch_Hash = pc_Hash c, ch_Size = pc_Size c, ch_Data = pc_Data c\<rparr>"
  obtain fs1 b where fs1: "Put no_faults s ?c fs = (Inr b, fs1)" "store_inv s fs1"
      "store_content s fs1 = (if store_content s fs (pc_Hash c) = None
        then (store_content s fs)(pc_Hash c \<mapsto> pc_Data c) else store_content s fs)"
    using blobs.put_law [OF Cons.prems(1), of ?c] Cons.prems(2) by auto
  let ?res = "res\<lparr>sr_ChunksFetched := sr_ChunksFetched res + 1,
    sr_BytesFetched := sr_BytesFetched res + int (length (pc_Data c))\<rparr>"
  from Cons.IH [OF fs1(2), of ?res] Cons.prems(2) show ?case
    using fs1 by (simp add: add.assoc)
qed

text \<open>A stream to a remote that serves its requests with \<open>handleStream\<close>.\<close>

definition served :: "codec \<Rightarrow> Transport \<Rightarrow> Peer \<Rightarrow> stream option" where
  "served cd t p = Some \<lparr>sm_out = new_writer,
     sm_reply = (\<lambda>sent. reader_of (wr_bytes (handleStream cd t p (reader_of sent) new_writer)))\<rparr>"

text \<open>What fetching a batch from a store \<open>R\<close> does to the local contents \<open>m\<close>.\<close>

definition fetched :: "(bytes \<rightharpoonup> bytes) \<Rightarrow> bytes list \<Rightarrow> (bytes \<rightharpoonup> bytes) \<Rightarrow> (bytes \<rightharpoonup> bytes)" where
  "fetched R hs m h = (case m h of Some d \<Rightarrow> Some d | None \<Rightarrow> if h \<in> set hs then R h else None)"

lemma fetched_append: "fetched R (hs @ ks) m = fetched R ks (fetched R hs m)"
  by (auto simp: fetched_def fun_eq_iff split: option.split)

lemma fold_fetched:
  "foldl (\<lambda>m c. if m (pc_Hash c) = None then m(pc_Hash c \<mapsto> pc_Data c) else m) m
     (map (\<lambda>h. pchunk h (the (R h))) (filter (\<lambda>h. h \<in> dom R) hs)) = fetched R hs m"
proof (induction hs arbitrary: m)
  case Nil
  then show ?case by (auto simp: fetched_def fun_eq_iff split: option.split)
next
  case (Cons h hs)
  let ?m = "if h \<in> dom R \<and> m h = None then m(h \<mapsto> the (R h)) else m"
  have "fetched R (h # hs) m x = fetched R hs ?m x" for x
    by (cases "m x"; cases "R h") (auto simp: fetched_def domIff)
  then have "fetched R (h # hs) m = fetched R hs ?m" by (rule ext)
  then have "fetched R (h # hs) m =
      foldl (\<lambda>m c. if m (pc_Hash c) = None then m(pc_Hash c \<mapsto> pc_Data c) else m) ?m
        (map (\<lambda>h. pchunk h (the (R h))) (filter (\<lambda>h. h \<in> dom R) hs))"
    using Cons.IH [of ?m] by metis
  then show ?case by (auto simp: pchunk_def simp del: fun_upd_apply)
qed

lemma fetch_batches_spec:
  assumes "codec_ok cd"
    and remote: "cf_OnChunkRequest (tp_config tR) = Some (\<lambda>p req. Some (HandleChunkRequest sR fsR req))" "store_inv sR fsR"
    and "store_inv s fs" "\<forall>h \<in> set (concat batches). length h = 32"
    and "\<forall>hs \<in> set batches. \<forall>i. fits cd MESSAGE_TYPE_CHUNK_REQUEST i (MsgChunkRequest \<lparr>cr_ChunkHashes = hs, cr_Priority = 1\<rparr>) \<and>
      fits cd MESSAGE_TYPE_CHUNK_RESPONSE i (MsgChunkResponse (HandleChunkRequest sR fsR \<lparr>cr_ChunkHashes = hs, cr_Priority = 1\<rparr>))"
  shows "\<exists>res' fs'. fetch_batches cd (\<lambda>n. no_faults) s (\<lambda>k. served cd tR p) k batches peer res fs = (res', None, fs') \<and>
    store_inv s fs' \<and> store_content s fs' = fetched (store_content sR fsR) (concat batches) (store_content s fs) \<and>
    sr_ChunksNeeded res' = sr_ChunksNeeded res \<and>
    sr_ChunksFetched res' + sr_ChunksNotFound res' =
      sr_ChunksFetched res + sr_ChunksNotFound res + int (length (concat batches))"
  using assms(4-)
proof (induction batches arbitrary: k peer res fs)
  case Nil
  then show ?case by (auto simp: fetched_def fun_eq_iff split: option.split)
next
  case (Cons hs batches)
  let ?R = "store_content sR fsR"
  let ?resp = "HandleChunkRequest sR fsR \<lparr>cr_ChunkHashes = hs, cr_Priority = 1\<rparr>"
  have len: "\<forall>h \<in> set hs. length h = 32" using Cons.prems(2) by simp
  note resp = HandleChunkRequest_spec [OF remote(2) len, of 1]
  have req: "RequestChunks cd (served cd tR p) peer hs = (Inr ?resp, peer\<lparr>pr_nextReqID := pr_nextReqID peer + 1\<rparr>)"
    unfolding served_def
    by (rule RequestChunks_served [OF assms(1) remote(1)]) (use Cons.prems(3) in auto)
  have "\<forall>c \<in> set (cs_Chunks ?resp). length (pc_Hash c) = 32" using len by (auto simp: resp pchunk_def)
  from store_chunks_spec [OF Cons.prems(1) this, of res] obtain fs1 where
    fs1: "store_chunks (\<lambda>n. no_faults) s (cs_Chunks ?resp) res fs =
        (res\<lparr>sr_ChunksFetched := sr_ChunksFetched res + int (length (cs_Chunks ?resp)),
           sr_BytesFetched := sr_BytesFetched res + (\<Sum>c \<leftarrow> cs_Chunks ?resp. int (length (pc_Data c)))\<rparr>, None, fs1)"
      "store_inv s fs1" "store_content s fs1 = fetched ?R hs (store_content s fs)"
    unfolding resp by (auto simp: fold_fetched)
  let ?res = "res\<lparr>sr_ChunksFetched := sr_ChunksFetched res + int (length (cs_Chunks ?resp)),
      sr_BytesFetched := sr_BytesFetched res + (\<Sum>c \<leftarrow> cs_Chunks ?resp. int (length (pc_Data c))),
      sr_ChunksNotFound := sr_ChunksNotFound res + int (length (cs_NotFound ?resp))\<rparr>"
  obtain res' fs' where IH: "fetch_batches cd (\<lambda>n. no_faults) s (\<lambda>k. served cd tR p) (Suc k) batches
        (peer\<lparr>pr_nextReqID := pr_nextReqID peer + 1\<rparr>) ?res fs1 = (res', None, fs')"
      "store_inv s fs'" "store_content s fs' = fetched ?R (concat batches) (store_content s fs1)"
      "sr_ChunksNeeded res' = sr_ChunksNeeded ?res"
      "sr_ChunksFetched res' + sr_ChunksNotFound res' =
        sr_ChunksFetched ?res + sr_ChunksNotFound ?res + int (length (concat batches))"
    using Cons.IH [OF fs1(2), of "Suc k" "peer\<lparr>pr_nextReqID := pr_nextReqID peer + 1\<rparr>" ?res] Cons.prems(2,3) by auto
  have "int (length (cs_Chunks ?resp)) + int (length (cs_NotFound ?resp)) = int (length hs)"
    using sum_length_filter_compl [of "\<lambda>h. h \<in> dom ?R" hs] by (simp add: resp flip: of_nat_add)
  then show ?case
    using IH req fs1 by (simp add: fetched_append)
qed

lemma requestManifest_served:
  assumes "codec_ok cd" "cf_OnManifestRequest (tp_config t) = Some f"
    and "f p \<lparr>mr_SubtreePath = [], mr_MaxDepth = -1, mr_IncludeChunks = True\<rparr> = Some resp"
    and "fits cd MESSAGE_TYPE_MANIFEST_REQUEST 1
      (MsgManifestRequest \<lparr>mr_SubtreePath = [], mr_MaxDepth = -1, mr_IncludeChunks = True\<rparr>)"
    and "fits cd MESSAGE_TYPE_MANIFEST_RESPONSE 1 (MsgManifestResponse resp)"
  shows "requestManifest cd (served cd t p) = Inr (Some resp)"
proof -
  let ?req = "MsgManifestRequest \<lparr>mr_SubtreePath = [], mr_MaxDepth = -1, mr_IncludeChunks = True\<rparr>"
  from assms(1,4) obtain b env where b: "WriteEnvelope cd new_writer MESSAGE_TYPE_MANIFEST_REQUEST 1 ?req =
      (Inr (), new_writer\<lparr>wr_bytes := b\<rparr>)" "ReadEnvelope cd (reader_of b) = (Inr env, reader_of [])"
      "ev_Type env = MESSAGE_TYPE_MANIFEST_REQUEST" "ev_RequestId env = 1"
      "unmarshal_msg cd (kind_of ?req) (ev_Payload env) = Some ?req" by (rule send_receive)
  from assms(1,5) obtain a env' where a: "WriteEnvelope cd new_writer MESSAGE_TYPE_MANIFEST_RESPONSE 1 (MsgManifestResponse resp) =
      (Inr (), new_writer\<lparr>wr_bytes := a\<rparr>)" "ReadEnvelope cd (reader_of a) = (Inr env', reader_of [])"
      "ev_Type env' = MESSAGE_TYPE_MANIFEST_RESPONSE"
      "unmarshal_msg cd (kind_of (MsgManifestResponse resp)) (ev_Payload env') = Some (MsgManifestResponse resp)"
    by (rule send_receive)
  have "handleStream cd t p (reader_of b) new_writer = new_writer\<lparr>wr_bytes := a\<rparr>"
    using b a(1) assms(2,3) ReadEnvelope_end [of "reader_of []" cd]
    by (simp add: handleStream.simps [of cd t p "reader_of b"] handleStream.simps [of cd t p "reader_of []"]
        handleManifestRequest_def SendManifestResponse_def message_types)
  then show ?thesis
    using a(2-4) b(1) by (simp add: requestManifest_def served_def SendManifestRequest_def UnmarshalPayload_def)
qed

lemma chunks_to_fetch_set:
  "set (chunks_to_fetch ds) =
     (\<Union>d \<in> {d \<in> set ds. df_Type d \<in> {DiffTypeDeleted, DiffTypeModified}}. set (df_Chunks d))"
  by (auto simp: chunks_to_fetch_def)


section \<open>Properties\<close>

text \<open>
  C6. Synchronising with a remote that serves its tree and its store fetches every chunk of the
  differences. The manager computes the comparison with the remote's own tree, and afterwards its store
  holds, for every chunk of a result of kind deleted or modified, what it held before or else what the
  remote has; other entries are unchanged, no error is returned, and each needed chunk is counted
  either as fetched or as not found. Messages fit in an envelope, and hashes have 32 bytes.
\<close>

theorem sync_fetches_differences:
  fixes ord sm tree
  defines "needed \<equiv> chunks_to_fetch (Diff ord (sy_tree sm) (Some tree))"
  assumes "codec_ok cd" "store_inv s fs" "store_inv sR fsR"
    and "cf_OnManifestRequest (tp_config tR) = Some (\<lambda>p req. Some (HandleManifestRequest (NewSyncManager (Some tree) 0) req))"
    and "cf_OnChunkRequest (tp_config tR) = Some (\<lambda>p req. Some (HandleChunkRequest sR fsR req))"
    and "\<forall>root. Option.bind (sy_tree sm) tr_Root = Some root \<longrightarrow> nd_Hash root \<noteq> pr_MerkleRoot peer"
    and "\<forall>h \<in> set needed. length h = 32"
    and "fits cd MESSAGE_TYPE_MANIFEST_REQUEST 1
      (MsgManifestRequest \<lparr>mr_SubtreePath = [], mr_MaxDepth = -1, mr_IncludeChunks = True\<rparr>)"
    and "fits cd MESSAGE_TYPE_MANIFEST_RESPONSE 1
      (MsgManifestResponse \<lparr>ms_Root = map_option nodeToManifest (tr_Root tree), ms_NodeCount = 0\<rparr>)"
    and "\<forall>hs \<in> set (blocks 16 needed). \<forall>i.
      fits cd MESSAGE_TYPE_CHUNK_REQUEST i (MsgChunkRequest \<lparr>cr_ChunkHashes = hs, cr_Priority = 1\<rparr>) \<and>
      fits cd MESSAGE_TYPE_CHUNK_RESPONSE i (MsgChunkResponse (HandleChunkRequest sR fsR \<lparr>cr_ChunkHashes = hs, cr_Priority = 1\<rparr>))"
  shows "\<exists>res fs'. SyncWithPeer ord cd (\<lambda>n. no_faults) sm s (served cd tR p) (\<lambda>k. served cd tR p) peer fs =
      (Some res, None, fs') \<and> store_inv s fs' \<and>
    (\<forall>h. store_content s fs' h =
      (case store_content s fs h of
         Some d \<Rightarrow> Some d
       | None \<Rightarrow> if h \<in> set needed then store_content sR fsR h else None)) \<and>
    sr_ChunksFetched res + sr_ChunksNotFound res = int (length needed) \<and> sr_ChunksNeeded res = int (length needed)"
proof -
  have "requestManifest cd (served cd tR p) =
      Inr (Some \<lparr>ms_Root = map_option nodeToManifest (tr_Root tree), ms_NodeCount = 0\<rparr>)"
    by (rule requestManifest_served [OF assms(2,5) _ assms(9,10)])
       (simp add: HandleManifestRequest_def NewSyncManager_def)
  moreover have "\<lparr>tr_Root = map_option manifestToNode (map_option nodeToManifest (tr_Root tree))\<rparr> = tree"
    by (simp add: option.map_comp comp_def manifest_wire_roundtrip option.map_ident)
  moreover have "\<not> (case Option.bind (sy_tree sm) tr_Root of None \<Rightarrow> False
      | Some root \<Rightarrow> pr_MerkleRoot peer \<noteq> [] \<and> nd_Hash root = pr_MerkleRoot peer)"
    using assms(7) by (auto split: option.split)
  ultimately have run: "SyncWithPeer ord cd (\<lambda>n. no_faults) sm s (served cd tR p) (\<lambda>k. served cd tR p) peer fs =
    (let result = \<lparr>sr_PeerID = pr_ID peer, sr_AlreadyInSync = False,
        sr_Diffs = int (length (Diff ord (sy_tree sm) (Some tree))), sr_ChunksNeeded = int (length needed),
        sr_ChunksFetched = 0, sr_ChunksNotFound = 0, sr_BytesFetched = 0\<rparr>
     in if needed = [] then (Some result, None, fs)
        else case fetch_batches cd (\<lambda>n. no_faults) s (\<lambda>k. served cd tR p) 0 (blocks 16 needed) peer result fs of
          (result, err, fs') \<Rightarrow> (Some result, err, fs'))"
    unfolding SyncWithPeer_def needed_def by (simp add: Let_def)
  show ?thesis
  proof (cases "needed = []")
    case True
    then show ?thesis using run assms(3) by (auto simp: Let_def split: option.split)
  next
    case False
    have len: "\<forall>h \<in> set (concat (blocks 16 needed)). length h = 32" using assms(8) by simp
    let ?r = "\<lparr>sr_PeerID = pr_ID peer, sr_AlreadyInSync = False,
        sr_Diffs = int (length (Diff ord (sy_tree sm) (Some tree))), sr_ChunksNeeded = int (length needed),
        sr_ChunksFetched = 0, sr_ChunksNotFound = 0, sr_BytesFetched = 0\<rparr>"
    from fetch_batches_spec [OF assms(2,6,4,3) len assms(11), of p 0 peer ?r] obtain res' fs' where
      "fetch_batches cd (\<lambda>n. no_faults) s (\<lambda>k. served cd tR p) 0 (blocks 16 needed) peer ?r fs = (res', None, fs')"
      "store_inv s fs'" "store_content s fs' = fetched (store_content sR fsR) needed (store_content s fs)"
      "sr_ChunksNeeded res' = int (length needed)"
      "sr_ChunksFetched res' + sr_ChunksNotFound res' = int (length needed)"
      by auto
    then show ?thesis using run False by (intro exI [of _ res'] exI [of _ fs']) (simp add: Let_def fetched_def)
  qed
qed

text \<open>A remote with one file of one chunk, for an instance.\<close>

definition tree3 :: Tree where
  "tree3 = \<lparr>tr_Root = Some (NewDirNode pad_hash ''r'' 0 [NewFileNode pad_hash ''a'' 0 [pad_hash [1]]])\<rparr>"

definition fs_sample :: fs where
  "fs_sample = snd (Put no_faults fresh_store (chunk_of pad_hash [1]) fresh_fs)"

definition transport3 :: Transport where
  "transport3 = transport1\<lparr>tp_config := (tp_config transport1)
     \<lparr>cf_OnManifestRequest := Some (\<lambda>p req. Some (HandleManifestRequest (NewSyncManager (Some tree3) 0) req)),
      cf_OnChunkRequest := Some (\<lambda>p req. Some (HandleChunkRequest fresh_store fs_sample req))\<rparr>\<rparr>"

definition codec3 :: codec where
  "codec3 = list_codec
     [MsgManifestRequest \<lparr>mr_SubtreePath = [], mr_MaxDepth = -1, mr_IncludeChunks = True\<rparr>,
      MsgManifestResponse \<lparr>ms_Root = map_option nodeToManifest (tr_Root tree3), ms_NodeCount = 0\<rparr>,
      MsgChunkRequest \<lparr>cr_ChunkHashes = [pad_hash [1]], cr_Priority = 1\<rparr>,
      MsgChunkResponse (HandleChunkRequest fresh_store fs_sample \<lparr>cr_ChunkHashes = [pad_hash [1]], cr_Priority = 1\<rparr>)]"

lemma fs_sample: "store_inv fresh_store fs_sample" "store_content fresh_store fs_sample = [pad_hash [1] \<mapsto> [1]]"
  using blobs.put_law [OF fresh_store_inv, of "chunk_of pad_hash [1]"]
  by (auto simp: fs_sample_def fresh_store_content chunk_of_def)

lemma needed3: "chunks_to_fetch (Diff ord None (Some tree3)) = [pad_hash [1]]"
  by (simp add: tree3_def Diff_def NewDirNode_def NewFileNode_def chunks_to_fetch_def collect_result_def Let_def)

lemma sync_fetches_differences_witness:
  "\<exists>res fs'. SyncWithPeer (\<lambda>p b ns. ns) codec3 (\<lambda>n. no_faults) (NewSyncManager None 0) fresh_store
      (served codec3 transport3 peer1) (\<lambda>k. served codec3 transport3 peer1) peer1 fresh_fs = (Some res, None, fs') \<and>
    store_content fresh_store fs' (pad_hash [1]) = Some [1] \<and> sr_ChunksNeeded res = 1"
proof -
  let ?sm = "NewSyncManager None 0"
  have needed: "chunks_to_fetch (Diff (\<lambda>p b ns. ns) (sy_tree ?sm) (Some tree3)) = [pad_hash [1]]"
    by (simp add: NewSyncManager_def needed3)
  have "blocks 16 [pad_hash [1]] = [[pad_hash [1]]]" by (simp add: blocks_step)
  then have "\<exists>res fs'. SyncWithPeer (\<lambda>p b ns. ns) codec3 (\<lambda>n. no_faults) ?sm fresh_store
      (served codec3 transport3 peer1) (\<lambda>k. served codec3 transport3 peer1) peer1 fresh_fs = (Some res, None, fs') \<and>
      store_inv fresh_store fs' \<and>
      (\<forall>h. store_content fresh_store fs' h = (case store_content fresh_store fresh_fs h of Some d \<Rightarrow> Some d
       | None \<Rightarrow> if h \<in> set (chunks_to_fetch (Diff (\<lambda>p b ns. ns) (sy_tree ?sm) (Some tree3)))
           then store_content fresh_store fs_sample h else None)) \<and>
      sr_ChunksFetched res + sr_ChunksNotFound res = int (length (chunks_to_fetch (Diff (\<lambda>p b ns. ns) (sy_tree ?sm) (Some tree3)))) \<and>
      sr_ChunksNeeded res = int (length (chunks_to_fetch (Diff (\<lambda>p b ns. ns) (sy_tree ?sm) (Some tree3))))"
    by (intro sync_fetches_differences)
       (simp_all add: needed codec3_def list_codec_ok fresh_store_inv fs_sample(1) transport3_def,
        simp_all add: NewSyncManager_def fits_def frame_def list_codec_def message_types MaxMessage_def)
  then show ?thesis by (auto simp: needed fresh_store_content fs_sample(2))
qed



text \<open>
  C36. What a peer sends is stored under the hash it claims: after a response with one chunk, the local
  store holds the data under that hash whatever its digest is, and verification of that entry fails
  when the digest differs.
\<close>

theorem sync_stores_unverified:
  assumes "store_inv s fs" "length (pc_Hash c) = 32" "store_content s fs (pc_Hash c) = None"
    and "H (pc_Data c) \<noteq> pc_Hash c"
  shows "\<exists>res' fs'. store_chunks (\<lambda>n. no_faults) s [c] res fs = (res', None, fs') \<and>
    store_content s fs' (pc_Hash c) = Some (pc_Data c) \<and>
    Verify H s (pc_Hash c) fs' = Inl (ErrHash ''corruption detected'' (H (pc_Data c)))"
proof -
  obtain fs' where f: "store_chunks (\<lambda>n. no_faults) s [c] res fs =
      (res\<lparr>sr_ChunksFetched := sr_ChunksFetched res + int (length [c]),
           sr_BytesFetched := sr_BytesFetched res + (\<Sum>c \<leftarrow> [c]. int (length (pc_Data c)))\<rparr>, None, fs')"
      "store_inv s fs'" "store_content s fs' (pc_Hash c) = Some (pc_Data c)"
    using store_chunks_spec [OF assms(1), of "[c]" res] assms(2,3) by auto
  then have "fs' (chunk_file s (pc_Hash c)) = Some (File (pc_Data c))"
    using assms(2) by (auto simp: store_content_def split: option.splits inode.splits)
  then show ?thesis
    using f Verify_file [of "pc_Hash c" fs' s "pc_Data c" H] assms(2,4) by auto
qed

lemma sync_stores_unverified_witness:
  "\<forall>res. \<exists>res' fs'. store_chunks (\<lambda>n. no_faults) fresh_store [pchunk (replicate 32 0) [1]] res fresh_fs = (res', None, fs') \<and>
    store_content fresh_store fs' (replicate 32 0) = Some [1] \<and>
    Verify pad_hash fresh_store (replicate 32 0) fs' = Inl (ErrHash ''corruption detected'' (pad_hash [1]))"
proof
  fix res
  have "hd (pad_hash [1]) \<noteq> hd (replicate 32 0)" by (simp add: pad_hash_def)
  then have "pad_hash [1] \<noteq> replicate 32 0" by metis
  then show "\<exists>res' fs'. store_chunks (\<lambda>n. no_faults) fresh_store [pchunk (replicate 32 0) [1]] res fresh_fs = (res', None, fs') \<and>
    store_content fresh_store fs' (replicate 32 0) = Some [1] \<and>
    Verify pad_hash fresh_store (replicate 32 0) fs' = Inl (ErrHash ''corruption detected'' (pad_hash [1]))"
    using sync_stores_unverified [OF fresh_store_inv, of "pchunk (replicate 32 0) [1]" pad_hash res]
    by (simp add: pchunk_def fresh_store_content del: store_chunks.simps)
qed

text \<open>
  A tree survives the conversion to the manifest of the wire and back, with no condition on it.
\<close>

theorem wire_manifest_roundtrip: "manifestToNode (nodeToManifest n) = n"
  by (rule manifest_wire_roundtrip)

end
