(* ===== verification/Filepath.thy ===== *)
theory Filepath
  imports Fs
begin

text \<open>
  Package \<open>path/filepath\<close> as the program uses it on names that need not be single components: \<open>Clean\<close>
  and \<open>Join\<close> on strings, and \<open>Rel\<close>, \<open>Base\<close> and the joining of a relative path on paths that are
  already split into components.
\<close>

section \<open>Definitions\<close>

fun split_slash :: "string \<Rightarrow> string list" where
  "split_slash [] = [[]]"
| "split_slash (c # cs) =
     (if c = CHR ''/'' then [] # split_slash cs
      else (c # hd (split_slash cs)) # tl (split_slash cs))"

fun join_slash :: "string list \<Rightarrow> string" where
  "join_slash [] = []"
| "join_slash [c] = c"
| "join_slash (c # d # cs) = c @ CHR ''/'' # join_slash (d # cs)"

text \<open>One element of a path, after the cleaned elements \<open>acc\<close>.\<close>

definition clean_step :: "bool \<Rightarrow> path \<Rightarrow> string \<Rightarrow> path" where
  "clean_step rooted acc c =
     (if c = [] \<or> c = ''.'' then acc
      else if c = ''..'' then
        (if acc \<noteq> [] \<and> last acc \<noteq> ''..'' then butlast acc else if rooted then acc else acc @ [c])
      else acc @ [c])"

definition Clean :: "string \<Rightarrow> string" where
  "Clean s =
     (let rooted = (s \<noteq> [] \<and> hd s = CHR ''/'');
          cs = foldl (clean_step rooted) [] (split_slash s)
      in if rooted then CHR ''/'' # join_slash cs else if cs = [] then ''.'' else join_slash cs)"

definition filepath_Join :: "string list \<Rightarrow> string" where
  "filepath_Join els = (case dropWhile (\<lambda>e. e = []) els of [] \<Rightarrow> [] | es \<Rightarrow> Clean (join_slash es))"

text \<open>\<open>Join\<close> of an absolute path, a cleaned relative path and a name, and of a relative path and a name.\<close>

definition abs_join :: "path \<Rightarrow> path \<Rightarrow> string \<Rightarrow> path" where
  "abs_join base rel name = foldl (clean_step True) base (rel @ split_slash name)"

definition rel_join :: "path \<Rightarrow> string \<Rightarrow> path" where
  "rel_join rel name = foldl (clean_step False) rel (split_slash name)"

text \<open>A cleaned relative path as the string the database stores, and \<open>filepath.Rel\<close> and \<open>filepath.Join\<close> on paths.\<close>

fun rel_string :: "path \<Rightarrow> string" where
  "rel_string [] = ''.''"
| "rel_string [c] = c"
| "rel_string (c # cs) = c @ CHR ''/'' # rel_string cs"

fun Rel :: "path \<Rightarrow> path \<Rightarrow> path option" where
  "Rel (b # bs) (t # ts) =
     (if b = t then Rel bs ts
      else if ''..'' \<in> set (b # bs) then None else Some (replicate (length (b # bs)) ''..'' @ t # ts))"
| "Rel bs ts = (if ''..'' \<in> set bs then None else Some (replicate (length bs) ''..'' @ ts))"

definition Join_rel :: "path \<Rightarrow> path \<Rightarrow> path" where
  "Join_rel root p =
     foldl (\<lambda>acc c. if c = ''..'' \<and> acc \<noteq> [] \<and> last acc \<noteq> ''..'' then butlast acc else acc @ [c]) root p"

definition Base :: "path \<Rightarrow> string" where
  "Base p = (if p = [] then ''.'' else last p)"

text \<open>A name that starts with a dot.\<close>

definition hidden_name :: "string \<Rightarrow> bool" where
  "hidden_name name \<longleftrightarrow> (case name of [] \<Rightarrow> False | c # cs \<Rightarrow> c = CHR ''.'')"


section \<open>Lemmas\<close>

text \<open>Components of a cleaned relative path; on such paths the stored string determines the path.\<close>

definition comp_ok :: "string \<Rightarrow> bool" where
  "comp_ok c \<longleftrightarrow> c \<noteq> [] \<and> CHR ''/'' \<notin> set c \<and> c \<noteq> ''.''"

lemma takeWhile_rel:
  "comp_ok c \<Longrightarrow> takeWhile (\<lambda>x. x \<noteq> CHR ''/'') (rel_string (c # cs)) = c"
  by (cases cs) (auto simp: comp_ok_def takeWhile_append)

lemma dropWhile_rel:
  "comp_ok c \<Longrightarrow> dropWhile (\<lambda>x. x \<noteq> CHR ''/'') (rel_string (c # cs)) = (if cs = [] then [] else CHR ''/'' # rel_string cs)"
  by (cases cs) (auto simp: comp_ok_def dropWhile_append)

lemma rel_string_dot: "list_all comp_ok p \<Longrightarrow> rel_string p = ''.'' \<longleftrightarrow> p = []"
proof (cases p)
  case (Cons c cs)
  assume "list_all comp_ok p"
  then have "comp_ok c" by (simp add: Cons)
  then show ?thesis using takeWhile_rel [of c cs] by (auto simp: Cons comp_ok_def)
qed simp

lemma rel_string_inj:
  "list_all comp_ok p \<Longrightarrow> list_all comp_ok q \<Longrightarrow> rel_string p = rel_string q \<Longrightarrow> p = q"
proof (induction p arbitrary: q)
  case Nil
  then show ?case using rel_string_dot [of q] by simp
next
  case (Cons c cs)
  have "q \<noteq> []" using Cons.prems rel_string_dot [of "c # cs"] by auto
  then obtain d ds where q: "q = d # ds" by (cases q) auto
  have ok: "comp_ok c" "comp_ok d" using Cons.prems by (simp_all add: q)
  have "c = d" using Cons.prems(3) takeWhile_rel [OF ok(1), of cs] takeWhile_rel [OF ok(2), of ds] by (simp add: q)
  moreover have "(if cs = [] then [] else CHR ''/'' # rel_string cs) = (if ds = [] then [] else CHR ''/'' # rel_string ds)"
    using Cons.prems(3) dropWhile_rel [OF ok(1), of cs] dropWhile_rel [OF ok(2), of ds] unfolding q by argo
  moreover have "list_all comp_ok cs" "list_all comp_ok ds" using Cons.prems by (simp_all add: q)
  ultimately show ?case using Cons.IH [of ds] by (simp add: q split: if_splits)
qed

text \<open>Plain components are those that cleaning leaves alone.\<close>

definition plain :: "string \<Rightarrow> bool" where
  "plain c \<longleftrightarrow> comp_ok c \<and> c \<noteq> ''..''"

lemma split_slash_plain: "CHR ''/'' \<notin> set c \<Longrightarrow> split_slash c = [c]"
  by (induction c) auto

lemma split_slash_app:
  "CHR ''/'' \<notin> set c \<Longrightarrow> split_slash (c @ CHR ''/'' # s) = c # split_slash s"
  by (induction c) auto

lemma split_join: "cs \<noteq> [] \<Longrightarrow> list_all (\<lambda>c. CHR ''/'' \<notin> set c) cs \<Longrightarrow> split_slash (join_slash cs) = cs"
  by (induction cs rule: join_slash.induct) (simp_all add: split_slash_plain split_slash_app)

lemma clean_step_plain: "plain c \<Longrightarrow> clean_step rooted acc c = acc @ [c]"
  by (simp add: clean_step_def plain_def comp_ok_def)

lemma clean_plain: "list_all plain cs \<Longrightarrow> foldl (clean_step rooted) acc cs = acc @ cs"
  by (induction cs arbitrary: acc) (simp_all add: clean_step_plain)

lemma abs_join_plain: "list_all plain rel \<Longrightarrow> plain name \<Longrightarrow> abs_join base rel name = base @ rel @ [name]"
  by (simp add: abs_join_def clean_plain clean_step_plain split_slash_plain plain_def comp_ok_def)

lemma rel_join_plain: "plain name \<Longrightarrow> rel_join rel name = rel @ [name]"
  by (simp add: rel_join_def clean_step_plain split_slash_plain plain_def comp_ok_def)

lemma join_slash_append:
  "cs \<noteq> [] \<Longrightarrow> ds \<noteq> [] \<Longrightarrow> join_slash (cs @ ds) = join_slash cs @ CHR ''/'' # join_slash ds"
proof (induction cs rule: join_slash.induct)
  case (2 c)
  then show ?case by (cases ds) simp_all
qed simp_all

lemma join_slash_hd: "cs \<noteq> [] \<Longrightarrow> hd cs \<noteq> [] \<Longrightarrow> join_slash cs \<noteq> [] \<and> hd (join_slash cs) = hd (hd cs)"
  by (induction cs rule: join_slash.induct) auto

lemma filepath_Join_plain:
  assumes "cs \<noteq> []" "list_all plain cs" "plain name"
  shows "filepath_Join [join_slash cs, name] = join_slash (cs @ [name])"
proof -
  obtain c ds where cs: "cs = c # ds" using assms(1) by (cases cs) auto
  have "c \<noteq> []" "CHR ''/'' \<notin> set c" using assms(2) by (simp_all add: cs plain_def comp_ok_def)
  then have hd: "join_slash cs \<noteq> []" "hd (join_slash cs) \<noteq> CHR ''/''"
    using join_slash_hd [of cs] by (auto simp: cs dest: hd_in_set)
  have eq: "join_slash [join_slash cs, name] = join_slash (cs @ [name])"
    using join_slash_append [OF assms(1), of "[name]"] by simp
  have "split_slash (join_slash (cs @ [name])) = cs @ [name]"
    using assms by (intro split_join) (auto simp: list_all_iff plain_def comp_ok_def)
  moreover have "foldl (clean_step False) [] (cs @ [name]) = cs @ [name]"
    using assms by (subst clean_plain) simp_all
  moreover have "join_slash (cs @ [name]) \<noteq> []" "hd (join_slash (cs @ [name])) \<noteq> CHR ''/''"
    using hd join_slash_append [OF assms(1), of "[name]"] by simp_all
  ultimately have "Clean (join_slash (cs @ [name])) = join_slash (cs @ [name])" by (simp add: Clean_def Let_def)
  then show ?thesis using hd(1) eq by (simp add: filepath_Join_def)
qed

end
