(* ===== verification/TreeDiff.thy ===== *)
theory TreeDiff
  imports Proto Filepath
begin

text \<open>
  Model of \<open>internal/diff/diff.go\<close>: the comparison of two manifest trees that the command line uses. The
  result it fills is passed along; a nil dereference is an error value. The order in which Go visits
  the set of child names is the argument \<open>ord\<close>.
\<close>

section \<open>Definitions\<close>

record TreesDiff =
  td_Added :: "PManifestNode list"
  td_Modified :: "PManifestNode list"
  td_Deleted :: "string list"

definition mchild :: "PManifestNode \<Rightarrow> string \<Rightarrow> PManifestNode option" where
  "mchild n = map_of (rev (map (\<lambda>c. (pn_Name c, c)) (pn_Children n)))"

definition all_names :: "PManifestNode \<Rightarrow> PManifestNode \<Rightarrow> string list" where
  "all_names l r = remdups (map pn_Name (pn_Children l) @ map pn_Name (pn_Children r))"

definition child_path :: "string \<Rightarrow> string \<Rightarrow> string" where
  "child_path path name = (if path = [] then name else filepath_Join [path, name])"

lemma mchild_size: "mchild n x = Some c \<Longrightarrow> size c < size n"
proof -
  assume "mchild n x = Some c"
  then have "c \<in> set (pn_Children n)" by (auto simp: mchild_def dest: map_of_SomeD)
  then show ?thesis
    using size_list_estimation' [of c "pn_Children n" "size c" size] by (cases n) (auto simp: less_Suc_eq_le)
qed

lemma bind_r_cong [fundef_cong]:
  "x = y \<Longrightarrow> (\<And>z. y = Inr z \<Longrightarrow> f z = g z) \<Longrightarrow> bind_r x f = bind_r y g"
  by (cases y) auto

function diffNode ::
  "(string \<Rightarrow> string list \<Rightarrow> string list) \<Rightarrow> PManifestNode option \<Rightarrow> PManifestNode option \<Rightarrow> string \<Rightarrow> TreesDiff \<Rightarrow> TreesDiff res" where
  "diffNode ord None (Some remote) path result = Inr (result\<lparr>td_Added := td_Added result @ [remote]\<rparr>)"
| "diffNode ord (Some local) None path result = Inr (result\<lparr>td_Deleted := td_Deleted result @ [path]\<rparr>)"
| "diffNode ord None None path result = Inl (Panic ''nil pointer dereference'')"
| "diffNode ord (Some local) (Some remote) path result =
     (if pn_Hash local = pn_Hash remote then Inr result
      else if \<not> pn_IsDir local \<and> \<not> pn_IsDir remote then Inr (result\<lparr>td_Modified := td_Modified result @ [remote]\<rparr>)
      else foldl (\<lambda>acc name. bind_r acc (\<lambda>res.
               diffNode ord (mchild local name) (mchild remote name) (child_path path name) res))
             (Inr result) (ord path (all_names local remote)))"
  by pat_completeness auto
termination
proof (relation "measure (\<lambda>(ord, l, r, p, res). (case l of None \<Rightarrow> 0 | Some n \<Rightarrow> size n) + (case r of None \<Rightarrow> 0 | Some n \<Rightarrow> size n))",
    goal_cases)
  case (2 ord local remote path result acc name z)
  have "0 < size local" "0 < size remote" by (cases local, simp, cases remote, simp)
  then show ?case
    using mchild_size [of local name] mchild_size [of remote name] by (fastforce split: option.split)
qed simp

declare diffNode.simps(4) [simp del]

definition DiffTrees ::
  "(string \<Rightarrow> string list \<Rightarrow> string list) \<Rightarrow> PManifestNode option \<Rightarrow> PManifestNode option \<Rightarrow> TreesDiff res" where
  "DiffTrees ord local remote = diffNode ord local remote [] \<lparr>td_Added = [], td_Modified = [], td_Deleted = []\<rparr>"


section \<open>Specification\<close>

text \<open>
  A path of names is reached when on the way to it both trees have a node, the two hashes differ, and
  not both are files. At a reached path at least one tree has a node.
\<close>

fun reached :: "PManifestNode option \<Rightarrow> PManifestNode option \<Rightarrow> string list \<Rightarrow> bool" where
  "reached l r [] = (l \<noteq> None \<or> r \<noteq> None)"
| "reached l r (x # xs) =
     (case (l, r) of
        (Some a, Some b) \<Rightarrow> pn_Hash a \<noteq> pn_Hash b \<and> (pn_IsDir a \<or> pn_IsDir b) \<and> reached (mchild a x) (mchild b x) xs
      | _ \<Rightarrow> False)"

fun mnode_at :: "PManifestNode option \<Rightarrow> string list \<Rightarrow> PManifestNode option" where
  "mnode_at n [] = n"
| "mnode_at n (x # xs) = mnode_at (Option.bind n (\<lambda>m. mchild m x)) xs"

definition added :: "PManifestNode option \<Rightarrow> PManifestNode option \<Rightarrow> PManifestNode set" where
  "added l r = {b. \<exists>xs. reached l r xs \<and> mnode_at l xs = None \<and> mnode_at r xs = Some b}"

definition modified :: "PManifestNode option \<Rightarrow> PManifestNode option \<Rightarrow> PManifestNode set" where
  "modified l r = {b. \<exists>xs a. reached l r xs \<and> mnode_at l xs = Some a \<and> mnode_at r xs = Some b \<and>
     pn_Hash a \<noteq> pn_Hash b \<and> \<not> pn_IsDir a \<and> \<not> pn_IsDir b}"

definition deleted :: "string \<Rightarrow> PManifestNode option \<Rightarrow> PManifestNode option \<Rightarrow> string set" where
  "deleted path l r = {foldl child_path path xs | xs. reached l r xs \<and> mnode_at l xs \<noteq> None \<and> mnode_at r xs = None}"

lemma mnode_at_None [simp]: "mnode_at None xs = None"
  by (induction xs) simp_all

lemma reached_None: "reached None r xs \<longleftrightarrow> r \<noteq> None \<and> xs = []" "reached l None xs \<longleftrightarrow> l \<noteq> None \<and> xs = []"
  by (cases xs; auto split: option.split)+

lemma spec_one_side:
  "added None (Some b) = {b}" "modified None r = {}" "deleted p None r = {}"
  "added (Some a) None = {}" "modified l None = {}" "deleted p (Some a) None = {p}"
  by (auto simp: added_def modified_def deleted_def reached_None)

lemma ex_list: "(\<exists>xs. P xs) \<longleftrightarrow> P [] \<or> (\<exists>x xs. P (x # xs))" for P :: "'a list \<Rightarrow> bool"
  by (metis list.exhaust)

abbreviation open_pair :: "PManifestNode \<Rightarrow> PManifestNode \<Rightarrow> bool" where
  "open_pair a b \<equiv> pn_Hash a \<noteq> pn_Hash b \<and> (pn_IsDir a \<or> pn_IsDir b)"

lemma spec_both:
  "added (Some a) (Some b) = (if open_pair a b then (\<Union>x. added (mchild a x) (mchild b x)) else {})"
  "modified (Some a) (Some b) =
     (if open_pair a b then (\<Union>x. modified (mchild a x) (mchild b x)) else if pn_Hash a \<noteq> pn_Hash b then {b} else {})"
  "deleted p (Some a) (Some b) = (if open_pair a b then (\<Union>x. deleted (child_path p x) (mchild a x) (mchild b x)) else {})"
proof -
  show "added (Some a) (Some b) = (if open_pair a b then (\<Union>x. added (mchild a x) (mchild b x)) else {})"
    unfolding added_def by (subst ex_list) auto
  show "modified (Some a) (Some b) =
     (if open_pair a b then (\<Union>x. modified (mchild a x) (mchild b x)) else if pn_Hash a \<noteq> pn_Hash b then {b} else {})"
    unfolding modified_def by (subst ex_list) auto
  have "z \<in> deleted p (Some a) (Some b) \<longleftrightarrow> open_pair a b \<and> (\<exists>x. z \<in> deleted (child_path p x) (mchild a x) (mchild b x))" for z
    unfolding deleted_def mem_Collect_eq by (subst ex_list) auto
  then show "deleted p (Some a) (Some b) = (if open_pair a b then (\<Union>x. deleted (child_path p x) (mchild a x) (mchild b x)) else {})"
    by auto
qed

lemma spec_no_side: "added None None = {}" "deleted p None None = {}"
  by (auto simp: added_def deleted_def reached_None)

lemma all_names_set: "x \<in> set (all_names a b) \<longleftrightarrow> mchild a x \<noteq> None \<or> mchild b x \<noteq> None"
proof -
  have "x \<in> pn_Name ` set (pn_Children n) \<longleftrightarrow> mchild n x \<noteq> None" for n
    by (force simp: mchild_def map_of_eq_None_iff)
  then show ?thesis by (simp add: all_names_def)
qed

definition extend :: "TreesDiff \<Rightarrow> PManifestNode list \<Rightarrow> PManifestNode list \<Rightarrow> string list \<Rightarrow> TreesDiff" where
  "extend res A M D = \<lparr>td_Added = td_Added res @ A, td_Modified = td_Modified res @ M, td_Deleted = td_Deleted res @ D\<rparr>"

lemma extend_extend [simp]: "extend (extend res A M D) A' M' D' = extend res (A @ A') (M @ M') (D @ D')"
  by (simp add: extend_def)

text \<open>Visiting names one after the other collects what each visit adds.\<close>

lemma fold_visits:
  assumes "\<And>x res. x \<in> set ns \<Longrightarrow> \<exists>A M D. f x res = Inr (extend res A M D) \<and> set A = a x \<and> set M = m x \<and> set D = d x"
  shows "\<exists>A M D. foldl (\<lambda>acc x. bind_r acc (f x)) (Inr res) ns = Inr (extend res A M D) \<and>
    set A = (\<Union>x \<in> set ns. a x) \<and> set M = (\<Union>x \<in> set ns. m x) \<and> set D = (\<Union>x \<in> set ns. d x)"
  using assms
proof (induction ns arbitrary: res)
  case Nil
  then show ?case by (auto simp: extend_def)
next
  case (Cons x ns)
  obtain A M D where one: "f x res = Inr (extend res A M D)" "set A = a x" "set M = m x" "set D = d x"
    using Cons.prems [of x res] by auto
  obtain A' M' D' where rest: "foldl (\<lambda>acc x. bind_r acc (f x)) (Inr (extend res A M D)) ns = Inr (extend (extend res A M D) A' M' D')"
      "set A' = (\<Union>x \<in> set ns. a x)" "set M' = (\<Union>x \<in> set ns. m x)" "set D' = (\<Union>x \<in> set ns. d x)"
    using Cons.IH [of "extend res A M D"] Cons.prems by auto
  show ?case
    by (rule exI [of _ "A @ A'"], rule exI [of _ "M @ M'"], rule exI [of _ "D @ D'"]) (simp add: one rest)
qed

lemma union_names:
  assumes "\<And>x. F None None x = {}" "set ns = {x. l x \<noteq> None \<or> r x \<noteq> None}"
  shows "(\<Union>x \<in> set ns. F (l x) (r x) x) = (\<Union>x. F (l x) (r x) x)"
proof (rule set_eqI)
  fix z
  have "F (l x) (r x) x = {}" if "x \<notin> set ns" for x using assms that by simp
  then show "z \<in> (\<Union>x \<in> set ns. F (l x) (r x) x) \<longleftrightarrow> z \<in> (\<Union>x. F (l x) (r x) x)" by blast
qed

lemma diffNode_spec:
  assumes "\<And>p ns. set (ord p ns) = set ns" "l \<noteq> None \<or> r \<noteq> None"
  shows "\<exists>A M D. diffNode ord l r path res = Inr (extend res A M D) \<and>
    set A = added l r \<and> set M = modified l r \<and> set D = deleted path l r"
  using assms
proof (induction ord l r path res rule: diffNode.induct)
  case (1 ord remote path result)
  show ?case
    by (rule exI [of _ "[remote]"], rule exI [of _ "[]"], rule exI [of _ "[]"]) (simp add: extend_def spec_one_side)
next
  case (2 ord local path result)
  show ?case
    by (rule exI [of _ "[]"], rule exI [of _ "[]"], rule exI [of _ "[path]"]) (simp add: extend_def spec_one_side)
next
  case (4 ord local remote path result)
  show ?case
  proof (cases "open_pair local remote")
    case False
    show ?thesis
    proof (cases "pn_Hash local = pn_Hash remote")
      case True
      show ?thesis
        by (rule exI [of _ "[]"], rule exI [of _ "[]"], rule exI [of _ "[]"])
           (simp add: diffNode.simps(4) spec_both extend_def True)
    next
      case hash: False
      show ?thesis
        by (rule exI [of _ "[]"], rule exI [of _ "[remote]"], rule exI [of _ "[]"])
           (use hash False in \<open>simp add: diffNode.simps(4) spec_both extend_def\<close>)
    qed
  next
    case True
    let ?ns = "ord path (all_names local remote)"
    let ?f = "\<lambda>name res. diffNode ord (mchild local name) (mchild remote name) (child_path path name) res"
    have names: "set ?ns = {x. mchild local x \<noteq> None \<or> mchild remote x \<noteq> None}"
      by (simp only: "4.prems"(1) all_names_set set_eq_iff mem_Collect_eq simp_thms)
    have step: "\<exists>A M D. ?f x res = Inr (extend res A M D) \<and> set A = added (mchild local x) (mchild remote x) \<and>
        set M = modified (mchild local x) (mchild remote x) \<and>
        set D = deleted (child_path path x) (mchild local x) (mchild remote x)" if "x \<in> set ?ns" for x res
    proof -
      have "mchild local x \<noteq> None \<or> mchild remote x \<noteq> None" using names that by blast
      moreover have "pn_Hash local \<noteq> pn_Hash remote" "\<not> (\<not> pn_IsDir local \<and> \<not> pn_IsDir remote)" using True by auto
      ultimately show ?thesis using "4.IH" [OF _ _ that refl "4.prems"(1)] by blast
    qed
    have "\<exists>A M D. foldl (\<lambda>acc x. bind_r acc (?f x)) (Inr result) ?ns = Inr (extend result A M D) \<and>
      set A = (\<Union>x \<in> set ?ns. added (mchild local x) (mchild remote x)) \<and>
      set M = (\<Union>x \<in> set ?ns. modified (mchild local x) (mchild remote x)) \<and>
      set D = (\<Union>x \<in> set ?ns. deleted (child_path path x) (mchild local x) (mchild remote x))"
      by (rule fold_visits [of ?ns ?f "\<lambda>x. added (mchild local x) (mchild remote x)"
        "\<lambda>x. modified (mchild local x) (mchild remote x)"
        "\<lambda>x. deleted (child_path path x) (mchild local x) (mchild remote x)" result]) (rule step)
    then obtain A M D where
      "foldl (\<lambda>acc x. bind_r acc (?f x)) (Inr result) ?ns = Inr (extend result A M D)"
      "set A = (\<Union>x \<in> set ?ns. added (mchild local x) (mchild remote x))"
      "set M = (\<Union>x \<in> set ?ns. modified (mchild local x) (mchild remote x))"
      "set D = (\<Union>x \<in> set ?ns. deleted (child_path path x) (mchild local x) (mchild remote x))"
      by (elim exE conjE) (rule that)
    moreover note union_names [of "\<lambda>l r x. added l r", OF spec_no_side(1) names]
      union_names [of "\<lambda>l r x. modified l r", OF spec_one_side(2) names]
      union_names [of "\<lambda>l r x. deleted (child_path path x) l r", OF spec_no_side(2) names]
    ultimately have all: "foldl (\<lambda>acc x. bind_r acc (?f x)) (Inr result) ?ns = Inr (extend result A M D)"
      "set A = added (Some local) (Some remote)" "set M = modified (Some local) (Some remote)"
      "set D = deleted path (Some local) (Some remote)"
      using True unfolding spec_both by simp_all
    have "\<not> (\<not> pn_IsDir local \<and> \<not> pn_IsDir remote)" "pn_Hash local \<noteq> pn_Hash remote" using True by auto
    then have "diffNode ord (Some local) (Some remote) path result = Inr (extend result A M D)"
      unfolding diffNode.simps(4) using all(1) by (simp only: if_False)
    then show ?thesis using all(2-4) by blast
  qed
qed simp


section \<open>Properties\<close>

text \<open>
  C7. \<open>DiffTrees\<close> returns whenever one of the trees is there, and its three lists hold exactly: the remote
  nodes at reached paths without a local node, the remote files at reached paths where both sides
  have files with different hashes, and the paths reached that only the local side has. A path is
  reached when on the way to it both trees have nodes with different hashes, not both files. The
  order in which names are visited does not matter.
\<close>

theorem diff_trees_exact:
  assumes "\<And>p ns. set (ord p ns) = set ns" "local \<noteq> None \<or> remote \<noteq> None"
  shows "\<exists>res. DiffTrees ord local remote = Inr res \<and> set (td_Added res) = added local remote \<and>
    set (td_Modified res) = modified local remote \<and> set (td_Deleted res) = deleted [] local remote"
  using diffNode_spec [of ord local remote "[]" "\<lparr>td_Added = [], td_Modified = [], td_Deleted = []\<rparr>", OF assms]
  by (auto simp: DiffTrees_def extend_def)

text \<open>A directory that has become a file on the remote side.\<close>

definition local_dir :: PManifestNode where
  "local_dir = PManifestNode ''r'' True [1] 0 0 [PManifestNode ''x'' True [2] 0 0 [PManifestNode ''y'' False [3] 0 1 [] [[3]]] []] []"

definition remote_file :: PManifestNode where
  "remote_file = PManifestNode ''r'' True [4] 0 0 [PManifestNode ''x'' False [5] 0 1 [] [[5]]] []"

lemma diff_trees_exact_witness:
  "\<exists>res. DiffTrees (\<lambda>p. rev) (Some local_dir) (Some remote_file) = Inr res \<and> ''x/y'' \<in> set (td_Deleted res)"
proof -
  have "reached (Some local_dir) (Some remote_file) [''x'', ''y'']"
    "mnode_at (Some local_dir) [''x'', ''y''] \<noteq> None" "mnode_at (Some remote_file) [''x'', ''y''] = None"
    by (simp_all add: local_dir_def remote_file_def mchild_def)
  moreover have "filepath_Join [join_slash [''x''], ''y''] = join_slash [''x'', ''y'']"
    by (subst filepath_Join_plain) (simp_all add: plain_def comp_ok_def)
  then have "foldl child_path [] [''x'', ''y''] = ''x/y''" by (simp add: child_path_def)
  ultimately have "''x/y'' \<in> deleted [] (Some local_dir) (Some remote_file)"
    unfolding deleted_def by (intro CollectI exI [of _ "[''x'', ''y'']"]) simp
  then show ?thesis
    using diff_trees_exact [of "\<lambda>p. rev" "Some local_dir" "Some remote_file"] by auto
qed

text \<open>
  A directory that became a file is not reported: when the only entry of a directory is a directory on
  the local side and a file of the same name with another hash on the remote side, nothing is
  added or modified, so the chunks of the remote file are never requested.
\<close>

theorem type_change_not_reported:
  assumes "pn_IsDir a" "\<not> pn_IsDir b" "pn_Children b = []" "pn_Name a = pn_Name b" "h \<noteq> h'"
    and "\<And>p ns. set (ord p ns) = set ns"
  shows "\<exists>res. DiffTrees ord (Some (PManifestNode name True h m sz [a] [])) (Some (PManifestNode name True h' m' sz' [b] [])) =
    Inr res \<and> td_Added res = [] \<and> td_Modified res = []"
proof -
  let ?l = "PManifestNode name True h m sz [a] []" and ?r = "PManifestNode name True h' m' sz' [b] []"
  have b: "mchild b = Map.empty" using assms(3) by (simp add: mchild_def)
  have none: "added l None = {}" "modified l None = {}" for l
    by (cases l) (auto simp: spec_no_side spec_one_side)
  have ab: "added (Some a) (Some b) = {}" "modified (Some a) (Some b) = {}"
    using assms(1,2) by (simp_all add: spec_both b none)
  have "mchild ?l x = (if x = pn_Name b then Some a else None)" "mchild ?r x = (if x = pn_Name b then Some b else None)" for x
    by (simp_all add: mchild_def assms(4))
  then have "added (Some ?l) (Some ?r) = {}" "modified (Some ?l) (Some ?r) = {}"
    using assms(5) unfolding spec_both(1,2) [of ?l ?r] by (simp_all add: ab spec_no_side spec_one_side)
  moreover obtain res where "DiffTrees ord (Some ?l) (Some ?r) = Inr res" "set (td_Added res) = added (Some ?l) (Some ?r)"
      "set (td_Modified res) = modified (Some ?l) (Some ?r)"
    using diffNode_spec [of ord "Some ?l" "Some ?r" "[]" "\<lparr>td_Added = [], td_Modified = [], td_Deleted = []\<rparr>", OF assms(6)]
    by (auto simp: DiffTrees_def extend_def)
  ultimately show ?thesis by auto
qed

lemma type_change_not_reported_witness:
  "\<exists>res. DiffTrees (\<lambda>p. rev) (Some local_dir) (Some remote_file) = Inr res \<and> td_Added res = [] \<and> td_Modified res = []"
  unfolding local_dir_def remote_file_def by (rule type_change_not_reported) simp_all

end
