(* ===== verification/Cli.thy ===== *)
theory Cli
  imports Sync TreeDiff
begin

text \<open>
  Model of \<open>cmd/p2p-file-sync/main.go\<close>: the commands, with the helpers that index a directory, convert
  trees, collect missing chunks and rebuild files. A command takes the file system and returns it
  changed. The directory as \<open>merkle.BuildFromFS\<close> and \<open>filepath.Walk\<close> see it is an argument (an
  \<open>entry\<close> of theory \<open>Merkle\<close>), and so are the connection, its streams, and the faults of the system
  calls. Flag parsing, printing, logging and file modes are left out.
\<close>

section \<open>Helpers\<close>

text \<open>
  \<open>indexDirectory\<close>. The callback of \<open>filepath.Walk\<close> swallows every error, so the walk never fails. The
  state counts files, chunks and calls of \<open>Put\<close>; \<open>flts n\<close> are the faults of the \<open>n\<close>-th.
\<close>

record index_state =
  ix_files :: int
  ix_chunks :: int
  ix_puts :: nat
  ix_fs :: fs

function index_file :: "(bytes \<Rightarrow> bytes) \<Rightarrow> (nat \<Rightarrow> faults) \<Rightarrow> BlobStore \<Rightarrow> reader \<Rightarrow> index_state \<Rightarrow> bool \<times> index_state" where
  "index_file H flts s r st =
     (case Next H r of
        (Inl e, r') \<Rightarrow> (e = EOF, st)
      | (Inr chunk, r') \<Rightarrow>
          (case Put (flts (ix_puts st)) s chunk (ix_fs st) of
             (Inl e, fs') \<Rightarrow> (False, st\<lparr>ix_puts := ix_puts st + 1, ix_fs := fs'\<rparr>)
           | (Inr b, fs') \<Rightarrow>
               index_file H flts s r' (st\<lparr>ix_chunks := ix_chunks st + 1, ix_puts := ix_puts st + 1, ix_fs := fs'\<rparr>)))"
  by pat_completeness auto
termination
  by (relation "measure (\<lambda>(H, flts, s, r, st). length (rd_bytes r))") (auto dest: Next_decreases [OF sym])

declare index_file.simps [simp del]

fun index_walk :: "(bytes \<Rightarrow> bytes) \<Rightarrow> (nat \<Rightarrow> faults) \<Rightarrow> BlobStore \<Rightarrow> entry \<Rightarrow> index_state \<Rightarrow> index_state"
and index_walks :: "(bytes \<Rightarrow> bytes) \<Rightarrow> (nat \<Rightarrow> faults) \<Rightarrow> BlobStore \<Rightarrow> entry list \<Rightarrow> index_state \<Rightarrow> index_state" where
  "index_walk H flts s (FileEntry name mode info opens sz r) st =
     (if hidden_name name \<or> \<not> opens then st
      else case index_file H flts s r st of
             (ok, st') \<Rightarrow> if ok then st'\<lparr>ix_files := ix_files st' + 1\<rparr> else st')"
| "index_walk H flts s (DirEntry name mode info opens entries) st =
     (if \<not> opens \<or> hidden_name name then st else index_walks H flts s entries st)"
| "index_walks H flts s [] st = st"
| "index_walks H flts s (e # es) st = index_walks H flts s es (if en_Info e then index_walk H flts s e st else st)"

definition indexDirectory :: "(bytes \<Rightarrow> bytes) \<Rightarrow> (nat \<Rightarrow> faults) \<Rightarrow> BlobStore \<Rightarrow> entry option \<Rightarrow> fs \<Rightarrow> int \<times> int \<times> fs" where
  "indexDirectory H flts s dir fs =
     (let st = \<lparr>ix_files = 0, ix_chunks = 0, ix_puts = 0, ix_fs = fs\<rparr>;
          st' = (case dir of None \<Rightarrow> st | Some e \<Rightarrow> index_walk H flts s e st)
      in (ix_files st', ix_chunks st', ix_fs st'))"

fun convertTreeToManifest :: "Node \<Rightarrow> PManifestNode" where
  "convertTreeToManifest (Node name ty hash mode sz children chunks) =
     PManifestNode name (ty = NodeTypeDir) hash mode sz (map convertTreeToManifest children)
       (if ty = NodeTypeFile then chunks else [])"

text \<open>Unlike the sync manager's, this \<open>requestManifest\<close> does not look at the type of the response.\<close>

definition cli_requestManifest :: "codec \<Rightarrow> stream option \<Rightarrow> ManifestResponse res" where
  "cli_requestManifest cd stream =
     (case stream of
        None \<Rightarrow> Inl (Err ''open stream'')
      | Some s \<Rightarrow>
          (case SendManifestRequest cd (sm_out s) 1
                  \<lparr>mr_SubtreePath = [], mr_MaxDepth = -1, mr_IncludeChunks = True\<rparr> of
             (Inl e, w) \<Rightarrow> Inl e
           | (Inr u, w) \<Rightarrow>
               (case ReadEnvelope cd (sm_reply s (wr_bytes w)) of
                  (Inl e, r) \<Rightarrow> Inl e
                | (Inr env, r) \<Rightarrow>
                    (case UnmarshalPayload cd env KManifestResponse of
                       Some (MsgManifestResponse resp) \<Rightarrow> Inr resp
                     | _ \<Rightarrow> Inl (Err ''decode manifest'')))))"

fun collectMissingChunks :: "PManifestNode \<Rightarrow> BlobStore \<Rightarrow> fs \<Rightarrow> bytes list" where
  "collectMissingChunks (PManifestNode name isDir hash mode sz children chunks) s fs =
     filter (\<lambda>h. \<not> Has s h fs) chunks @ concat (map (\<lambda>c. collectMissingChunks c s fs) children)"

text \<open>
  Rebuilding files. The faults are given per path: the \<open>mkdir\<close> calls that succeed, whether \<open>os.Create\<close>
  fails, and how many bytes can be written. The message of a missing chunk slices its hash, which
  panics on an empty one.
\<close>

record recon_faults =
  rf_mkdir :: "path \<Rightarrow> nat option"
  rf_create :: "path \<Rightarrow> bool"
  rf_write :: "path \<Rightarrow> nat option"

fun write_chunks :: "nat option \<Rightarrow> BlobStore \<Rightarrow> path \<Rightarrow> bytes list \<Rightarrow> fs \<Rightarrow> go_error option \<times> fs" where
  "write_chunks room s cur [] fs = (None, fs)"
| "write_chunks room s cur (hash # hashes) fs =
     (case Get s hash fs of
        Inl e \<Rightarrow> (Some (if hash = [] then Panic ''slice bounds out of range''
                        else ErrMsg ''missing chunk'' (EncodeToString (take 8 hash))), fs)
      | Inr chunk \<Rightarrow>
          let old = (case fs cur of Some (File d) \<Rightarrow> d | _ \<Rightarrow> []);
              data = ch_Data chunk
          in case room of
               Some k \<Rightarrow>
                 if k < length data then (Some (Err ''write''), fs(cur \<mapsto> File (old @ take k data)))
                 else write_chunks (Some (k - length data)) s cur hashes (fs(cur \<mapsto> File (old @ data)))
             | None \<Rightarrow> write_chunks None s cur hashes (fs(cur \<mapsto> File (old @ data))))"

fun reconstructFilesRecursive :: "recon_faults \<Rightarrow> BlobStore \<Rightarrow> path \<Rightarrow> path \<Rightarrow> PManifestNode \<Rightarrow> fs \<Rightarrow> int \<times> go_error option \<times> fs"
and reconstruct_children :: "recon_faults \<Rightarrow> BlobStore \<Rightarrow> path \<Rightarrow> path \<Rightarrow> PManifestNode list \<Rightarrow> int \<Rightarrow> fs \<Rightarrow> int \<times> go_error option \<times> fs" where
  "reconstructFilesRecursive flt s baseDir relPath (PManifestNode name isDir hash mode sz children chunks) fs =
     (let currentPath = abs_join baseDir relPath name in
      if isDir then
        (case os_MkdirAll (rf_mkdir flt currentPath) fs currentPath of
           (Some e, fs1) \<Rightarrow> (0, Some (Err ''mkdir''), fs1)
         | (None, fs1) \<Rightarrow> reconstruct_children flt s baseDir (rel_join relPath name) children 0 fs1)
      else if chunks = [] then (0, None, fs)
      else
        (case os_MkdirAll (rf_mkdir flt currentPath) fs (butlast currentPath) of
           (Some e, fs1) \<Rightarrow> (0, Some (Err ''mkdir''), fs1)
         | (None, fs1) \<Rightarrow>
             (case (if rf_create flt currentPath then (Some EIO, fs1) else os_Create fs1 currentPath) of
                (Some e, fs2) \<Rightarrow> (0, Some (Err ''create''), fs2)
              | (None, fs2) \<Rightarrow>
                  (case write_chunks (rf_write flt currentPath) s currentPath chunks fs2 of
                     (Some e, fs3) \<Rightarrow> (0, Some e, fs3)
                   | (None, fs3) \<Rightarrow> (1, None, fs3)))))"
| "reconstruct_children flt s baseDir relPath [] filesWritten fs = (filesWritten, None, fs)"
| "reconstruct_children flt s baseDir relPath (child # children) filesWritten fs =
     (case reconstructFilesRecursive flt s baseDir relPath child fs of
        (n, Some e, fs') \<Rightarrow> (filesWritten, Some e, fs')
      | (n, None, fs') \<Rightarrow> reconstruct_children flt s baseDir relPath children (filesWritten + n) fs')"

definition reconstructFiles :: "recon_faults \<Rightarrow> BlobStore \<Rightarrow> path \<Rightarrow> PManifestNode option \<Rightarrow> fs \<Rightarrow> int \<times> go_error option \<times> fs" where
  "reconstructFiles flt s baseDir node fs =
     (case node of
        None \<Rightarrow> (0, None, fs)
      | Some n \<Rightarrow> reconstruct_children flt s baseDir [] (pn_Children n) 0 fs)"

fun calculateTreeDepth :: "Node \<Rightarrow> int" where
  "calculateTreeDepth (Node name ty hash mode sz children chunks) =
     (if children = [] then 1 else foldl max 0 (map calculateTreeDepth children) + 1)"

fun countNodes :: "Node \<Rightarrow> int" where
  "countNodes (Node name ty hash mode sz children chunks) = foldl (+) 1 (map countNodes children)"

fun countFiles :: "Node \<Rightarrow> int" where
  "countFiles (Node name ty hash mode sz children chunks) =
     (if ty = NodeTypeFile then 1 else foldl (+) 0 (map countFiles children))"


section \<open>Commands\<close>

definition storage_dir :: "path \<Rightarrow> path" where
  "storage_dir absDir = Join absDir [''.storage'', ''chunks'']"

text \<open>The directory is \<open>None\<close> when \<open>filepath.Abs\<close> fails.\<close>

definition initCmd :: "nat option \<Rightarrow> path option \<Rightarrow> fs \<Rightarrow> unit res \<times> fs" where
  "initCmd budget dir fs =
     (case dir of
        None \<Rightarrow> (Inl (Err ''invalid directory''), fs)
      | Some absDir \<Rightarrow>
          (case os_MkdirAll budget fs (storage_dir absDir) of
             (Some e, fs') \<Rightarrow> (Inl (Err ''creating storage directory''), fs')
           | (None, fs') \<Rightarrow> (Inr (), fs')))"

definition initialized :: "path \<Rightarrow> fs \<Rightarrow> bool" where
  "initialized absDir fs = (case os_Stat fs (storage_dir absDir) of Inl e \<Rightarrow> \<not> IsNotExist e | Inr i \<Rightarrow> True)"

record status_report =
  st_fileCount :: int
  st_nodeCount :: int
  st_depth :: int
  st_chunkCount :: int
  st_totalSize :: int

text \<open>\<open>walk\<close> are the paths that \<open>filepath.Walk\<close> visits below the storage directory.\<close>

definition statusCmd :: "(bytes \<Rightarrow> bytes) \<Rightarrow> path \<Rightarrow> entry option \<Rightarrow> path list \<Rightarrow> fs \<Rightarrow> status_report res" where
  "statusCmd H absDir dir walk fs =
     (if \<not> initialized absDir fs then Inl (Err ''directory not initialized'')
      else case BuildFromFS H dir of
             Inl e \<Rightarrow> Inl (Err ''building tree'')
           | Inr tree \<Rightarrow>
               let files = filter (\<lambda>p. is_file (fs p)) walk in
               Inr \<lparr>st_fileCount = (case tr_Root tree of None \<Rightarrow> 0 | Some n \<Rightarrow> countFiles n),
                    st_nodeCount = (case tr_Root tree of None \<Rightarrow> 0 | Some n \<Rightarrow> countNodes n),
                    st_depth = (case tr_Root tree of None \<Rightarrow> 1 | Some n \<Rightarrow> calculateTreeDepth n),
                    st_chunkCount = int (length files),
                    st_totalSize = (\<Sum>p \<leftarrow> files. case fs p of Some (File d) \<Rightarrow> int (length d) | _ \<Rightarrow> 0)\<rparr>)"

text \<open>The two handlers of the daemon, and its configuration.\<close>

definition serve_chunks :: "BlobStore \<Rightarrow> fs \<Rightarrow> ChunkRequest \<Rightarrow> ChunkResponse" where
  "serve_chunks s fs req =
     foldl (\<lambda>resp hash. case Get s hash fs of
              Inl e \<Rightarrow> resp\<lparr>cs_NotFound := cs_NotFound resp @ [hash]\<rparr>
            | Inr chunk \<Rightarrow> resp\<lparr>cs_Chunks := cs_Chunks resp @
                [\<lparr>pc_Hash = hash, pc_Data = ch_Data chunk, pc_Size = of_nat (length (ch_Data chunk))\<rparr>]\<rparr>)
       \<lparr>cs_Chunks = [], cs_NotFound = []\<rparr> (cr_ChunkHashes req)"

definition tree_manifest :: "Tree \<Rightarrow> ManifestResponse" where
  "tree_manifest tree =
     \<lparr>ms_Root = map_option convertTreeToManifest (tr_Root tree),
      ms_NodeCount = of_int (case tr_Root tree of None \<Rightarrow> 0 | Some n \<Rightarrow> countNodes n)\<rparr>"

definition serve_manifest :: "(bytes \<Rightarrow> bytes) \<Rightarrow> (nat \<Rightarrow> faults) \<Rightarrow> BlobStore \<Rightarrow> Tree \<Rightarrow> entry option \<Rightarrow> fs \<Rightarrow> ManifestResponse \<times> fs" where
  "serve_manifest H flts s tree dir fs =
     (case indexDirectory H flts s dir fs of
        (files, chunks, fs') \<Rightarrow>
          (case BuildFromFS H dir of
             Inl e \<Rightarrow> (tree_manifest tree, fs')
           | Inr freshTree \<Rightarrow> (tree_manifest freshTree, fs')))"

text \<open>
  \<open>serveCmd\<close> up to the point where it listens: the transport it creates, whose handlers answer from the
  file system at the time of the request, here the one after the initial indexing.
\<close>

definition serveCmd :: "(bytes \<Rightarrow> bytes) \<Rightarrow> (string \<Rightarrow> bytes list option) \<Rightarrow> (nat \<Rightarrow> faults) \<Rightarrow> nat option \<Rightarrow> string \<Rightarrow> path \<Rightarrow>
    entry option \<Rightarrow> fs \<Rightarrow> Transport res \<times> fs" where
  "serveCmd H gen flts budget peerName absDir dir fs =
     (if \<not> initialized absDir fs then (Inl (Err ''directory not initialized''), fs)
      else case NewBlobStore budget (storage_dir absDir) fs of
             (Inl e, fs1) \<Rightarrow> (Inl (Err ''creating blob store''), fs1)
           | (Inr store, fs1) \<Rightarrow>
               (case indexDirectory H flts store dir fs1 of
                  (fileCount, chunkCount, fs2) \<Rightarrow>
                    (case BuildFromFS H dir of
                       Inl e \<Rightarrow> (Inl (Err ''building merkle tree''), fs2)
                     | Inr tree \<Rightarrow>
                         (NewTransport H gen
                            \<lparr>cf_PeerName = peerName, cf_MerkleRoot = (case tr_Root tree of None \<Rightarrow> [] | Some n \<Rightarrow> nd_Hash n),
                             cf_FileCount = of_int fileCount, cf_TotalSize = 0, cf_Certificate = None,
                             cf_OnManifestRequest = Some (\<lambda>p req. Some (fst (serve_manifest H flts store tree dir fs2))),
                             cf_OnChunkRequest = Some (\<lambda>p req. Some (serve_chunks store fs2 req))\<rparr>, fs2))))"

text \<open>
  The download loop of \<open>syncCmd\<close>: received chunks are stored under the digest of their data, and a
  failing \<open>Put\<close> is only logged. \<open>cancelled k\<close> says that the context is done before batch \<open>k\<close>.
\<close>

fun store_received :: "(bytes \<Rightarrow> bytes) \<Rightarrow> (nat \<Rightarrow> faults) \<Rightarrow> BlobStore \<Rightarrow> nat \<Rightarrow> PChunk list \<Rightarrow> fs \<Rightarrow> nat \<times> fs" where
  "store_received H flts s n [] fs = (n, fs)"
| "store_received H flts s n (c # cs) fs =
     store_received H flts s (n + 1) cs
       (snd (Put (flts n) s \<lparr>ch_Hash = H (pc_Data c), ch_Size = 0, ch_Data = pc_Data c\<rparr> fs))"

fun download :: "(bytes \<Rightarrow> bytes) \<Rightarrow> codec \<Rightarrow> (nat \<Rightarrow> faults) \<Rightarrow> (nat \<Rightarrow> bool) \<Rightarrow> BlobStore \<Rightarrow> (nat \<Rightarrow> stream option) \<Rightarrow> nat \<Rightarrow> nat \<Rightarrow>
    bytes list list \<Rightarrow> Peer \<Rightarrow> fs \<Rightarrow> go_error option \<times> fs" where
  "download H cd flts cancelled s streams k n [] peer fs = (None, fs)"
| "download H cd flts cancelled s streams k n (batch # batches) peer fs =
     (if cancelled k then (Some (Err ''context canceled''), fs)
      else case RequestChunks cd (streams k) peer batch of
             (Inl e, peer') \<Rightarrow> (Some (Err ''chunk download failed''), fs)
           | (Inr resp, peer') \<Rightarrow>
               (case store_received H flts s n (cs_Chunks resp) fs of
                  (n', fs') \<Rightarrow> download H cd flts cancelled s streams (Suc k) n' batches peer' fs'))"

text \<open>Deleting what the remote side no longer has; failures are only logged. \<open>below\<close> lists a directory.\<close>

definition delete_paths :: "(fs \<Rightarrow> path \<Rightarrow> string list) \<Rightarrow> path \<Rightarrow> string list \<Rightarrow> fs \<Rightarrow> fs" where
  "delete_paths below absDir paths fs =
     foldl (\<lambda>fs p. let fullPath = abs_join absDir [] p in snd (os_Remove (below fs fullPath) fs fullPath)) fs paths"

definition needed_chunks :: "TreesDiff \<Rightarrow> BlobStore \<Rightarrow> fs \<Rightarrow> bytes list" where
  "needed_chunks d s fs =
     concat (map (\<lambda>n. collectMissingChunks n s fs) (td_Added d)) @
     concat (map (\<lambda>n. collectMissingChunks n s fs) (td_Modified d))"

record sync_env =
  se_H :: "bytes \<Rightarrow> bytes"
  se_ord :: "string \<Rightarrow> string list \<Rightarrow> string list"
  se_codec :: codec
  se_mkdir :: "nat option"
  se_index :: "nat \<Rightarrow> faults"
  se_put :: "nat \<Rightarrow> faults"
  se_cancelled :: "nat \<Rightarrow> bool"
  se_recon :: recon_faults
  se_below :: "fs \<Rightarrow> path \<Rightarrow> string list"

text \<open>
  The part of \<open>syncCmd\<close> after the manifest has arrived, and the whole command. \<open>connect\<close> is the outcome
  of creating the transport and connecting. The result is the number of files written.
\<close>

definition sync_apply :: "sync_env \<Rightarrow> path \<Rightarrow> BlobStore \<Rightarrow> Tree \<Rightarrow> PManifestNode \<Rightarrow> (nat \<Rightarrow> stream option) \<Rightarrow> Peer \<Rightarrow> fs \<Rightarrow> int res \<times> fs" where
  "sync_apply env absDir s localTree root streams peer fs =
     (case DiffTrees (se_ord env) (map_option convertTreeToManifest (tr_Root localTree)) (Some root) of
        Inl e \<Rightarrow> (Inl e, fs)
      | Inr d \<Rightarrow>
          (case download (se_H env) (se_codec env) (se_put env) (se_cancelled env) s streams 0 0
                  (blocks 10 (needed_chunks d s fs)) peer fs of
             (Some e, fs1) \<Rightarrow> (Inl e, fs1)
           | (None, fs1) \<Rightarrow>
               (case reconstructFiles (se_recon env) s absDir (Some root) fs1 of
                  (n, Some e, fs2) \<Rightarrow> (Inl (Err ''reconstructing files''), fs2)
                | (n, None, fs2) \<Rightarrow> (Inr n, delete_paths (se_below env) absDir (td_Deleted d) fs2))))"

definition syncCmd :: "sync_env \<Rightarrow> path \<Rightarrow> entry option \<Rightarrow> Peer res \<Rightarrow> stream option \<Rightarrow> (nat \<Rightarrow> stream option) \<Rightarrow> fs \<Rightarrow> int res \<times> fs" where
  "syncCmd env absDir dir connect mstream streams fs =
     (if \<not> initialized absDir fs then (Inl (Err ''directory not initialized''), fs)
      else case NewBlobStore (se_mkdir env) (storage_dir absDir) fs of
             (Inl e, fs1) \<Rightarrow> (Inl (Err ''creating blob store''), fs1)
           | (Inr store, fs1) \<Rightarrow>
               (case indexDirectory (se_H env) (se_index env) store dir fs1 of
                  (files, chunks, fs2) \<Rightarrow>
                    (case BuildFromFS (se_H env) dir of
                       Inl e \<Rightarrow> (Inl (Err ''building merkle tree''), fs2)
                     | Inr localTree \<Rightarrow>
                         (case connect of
                            Inl e \<Rightarrow> (Inl (Err ''connecting to peer''), fs2)
                          | Inr peer \<Rightarrow>
                              (case cli_requestManifest (se_codec env) mstream of
                                 Inl e \<Rightarrow> (Inl (Err ''requesting manifest''), fs2)
                               | Inr manifest \<Rightarrow>
                                   (case ms_Root manifest of
                                      None \<Rightarrow> (Inr 0, fs2)
                                    | Some root \<Rightarrow> sync_apply env absDir store localTree root streams peer fs2))))))"

section \<open>Rebuilding files\<close>

text \<open>
  Rebuilding a tree visits its nodes in preorder. \<open>flatten\<close> lists them with their paths, and
  \<open>recon_items\<close> handles such a list.
\<close>

fun flatten :: "path \<Rightarrow> path \<Rightarrow> PManifestNode \<Rightarrow> (path \<times> bool \<times> bytes list) list" where
  "flatten base rel (PManifestNode name isDir hash mode sz children chunks) =
     (abs_join base rel name, isDir, chunks) #
     (if isDir then concat (map (flatten base (rel_join rel name)) children) else [])"

definition recon_item :: "recon_faults \<Rightarrow> BlobStore \<Rightarrow> path \<times> bool \<times> bytes list \<Rightarrow> fs \<Rightarrow> int \<times> go_error option \<times> fs" where
  "recon_item flt s item fs =
     (case item of (cur, isDir, chunks) \<Rightarrow>
        reconstructFilesRecursive flt s cur [] (PManifestNode [] isDir [] 0 0 [] chunks) fs)"

fun recon_items :: "recon_faults \<Rightarrow> BlobStore \<Rightarrow> (path \<times> bool \<times> bytes list) list \<Rightarrow> int \<Rightarrow> fs \<Rightarrow> int \<times> go_error option \<times> fs" where
  "recon_items flt s [] n fs = (n, None, fs)"
| "recon_items flt s (item # items) n fs =
     (case recon_item flt s item fs of
        (k, Some e, fs') \<Rightarrow> (n, Some e, fs')
      | (k, None, fs') \<Rightarrow> recon_items flt s items (n + k) fs')"

lemma abs_join_empty [simp]: "abs_join cur [] [] = cur"
  by (simp add: abs_join_def clean_step_def)

lemma recon_items_append:
  "recon_items flt s (xs @ ys) n fs =
    (case recon_items flt s xs n fs of (m, Some e, fs') \<Rightarrow> (m, Some e, fs') | (m, None, fs') \<Rightarrow> recon_items flt s ys m fs')"
  by (induction xs arbitrary: n fs) (auto split: prod.split option.split)

lemma recon_items_shift: "recon_items flt s items (n + k) fs = apfst ((+) n) (recon_items flt s items k fs)"
  by (induction items arbitrary: k fs) (auto simp: add.assoc split: prod.split option.split)

text \<open>The two ways agree on the error and the file system, and without an error on the count.\<close>

definition agree :: "int \<times> go_error option \<times> fs \<Rightarrow> int \<times> go_error option \<times> fs \<Rightarrow> bool" where
  "agree x y \<longleftrightarrow> snd x = snd y \<and> (fst (snd x) = None \<longrightarrow> fst x = fst y)"

lemma flatten_recon:
  "agree (apfst ((+) n) (reconstructFilesRecursive flt s base rel node fs)) (recon_items flt s (flatten base rel node) n fs)"
  "agree (reconstruct_children flt s base rel nodes n fs) (recon_items flt s (concat (map (flatten base rel) nodes)) n fs)"
proof (induction flt s base rel node fs and flt s base rel nodes n fs arbitrary: n and
    rule: reconstructFilesRecursive_reconstruct_children.induct)
  case (1 flt s baseDir relPath name isDir hash mode sz children chunks fs)
  let ?cur = "abs_join baseDir relPath name"
  show ?case
  proof (cases isDir)
    case False
    then show ?thesis
      by (auto simp: agree_def recon_item_def Let_def split: prod.split option.split)
  next
    case True
    obtain e fs1 where m: "os_MkdirAll (rf_mkdir flt ?cur) fs ?cur = (e, fs1)" by force
    show ?thesis
    proof (cases e)
      case None
      have "recon_item flt s (?cur, True, chunks) fs = (0, None, fs1)" using m None by (simp add: recon_item_def)
      moreover have "agree (apfst ((+) n) (reconstruct_children flt s baseDir (rel_join relPath name) children 0 fs1))
          (recon_items flt s (concat (map (flatten baseDir (rel_join relPath name)) children)) n fs1)"
        using "1.IH" [OF refl True m [symmetric] None] recon_items_shift [of flt s _ n 0 fs1]
        by (simp add: agree_def)
      ultimately show ?thesis using True m None by (simp add: Let_def)
    next
      case (Some x)
      then show ?thesis using True m by (simp add: agree_def recon_item_def)
    qed
  qed
next
  case (3 flt s baseDir relPath child children filesWritten fs)
  obtain k e fs1 where k: "reconstructFilesRecursive flt s baseDir relPath child fs = (k, e, fs1)"
    by (metis prod_cases3)
  obtain m where m: "recon_items flt s (flatten baseDir relPath child) filesWritten fs = (m, e, fs1)" "e = None \<longrightarrow> m = filesWritten + k"
    using "3.IH"(1) [of filesWritten]
    by (cases "recon_items flt s (flatten baseDir relPath child) filesWritten fs") (auto simp: agree_def k)
  show ?case
  proof (cases e)
    case None
    then show ?thesis using "3.IH"(2) [OF k [symmetric] _ None] k m by (simp add: recon_items_append)
  next
    case (Some x)
    then show ?thesis using k m by (simp add: recon_items_append agree_def)
  qed
qed (simp_all add: agree_def)

text \<open>
  Rebuilding under \<open>base\<close> from a store in \<open>base/.storage/chunks\<close>. The store holds the chunks \<open>M\<close>, and an
  item whose path does not start with \<open>.storage\<close> leaves them alone.
\<close>

definition store_of :: "path \<Rightarrow> BlobStore" where
  "store_of base = \<lparr>bst_baseDir = storage_dir base\<rparr>"

definition holds :: "path \<Rightarrow> fs \<Rightarrow> (bytes \<rightharpoonup> bytes) \<Rightarrow> bool" where
  "holds base fs M \<longleftrightarrow> (\<forall>h d. M h = Some d \<longrightarrow> fs (chunkPath (store_of base) (EncodeToString h)) = Some (File d))"

definition no_recon_faults :: recon_faults where
  "no_recon_faults = \<lparr>rf_mkdir = (\<lambda>_. None), rf_create = (\<lambda>_. False), rf_write = (\<lambda>_. None)\<rparr>"

definition outside :: "path \<Rightarrow> bool" where
  "outside p \<longleftrightarrow> p \<noteq> [] \<and> hd p \<noteq> ''.storage''"

lemma storage_dir_simp: "storage_dir base = base @ [''.storage'', ''chunks'']"
  by (simp add: storage_dir_def Join_def)

lemma outside_chunkPath: "outside p \<Longrightarrow> prefix q (base @ p) \<Longrightarrow> q \<noteq> chunkPath (store_of base) x"
  by (cases p) (auto simp: outside_def chunkPath_def store_of_def Join_def storage_dir_simp prefix_def append_eq_append_conv2)

lemma holds_Get: "holds base fs M \<Longrightarrow> M h = Some d \<Longrightarrow> \<exists>c. Get (store_of base) h fs = Inr c \<and> ch_Data c = d"
  by (auto simp: holds_def Get_def os_Stat_def Let_def)

lemma holds_upd: "holds base fs M \<Longrightarrow> outside p \<Longrightarrow> holds base (fs(base @ p \<mapsto> File x)) M"
proof -
  assume a: "holds base fs M" "outside p"
  have "chunkPath (store_of base) y \<noteq> base @ p" for y using outside_chunkPath [OF a(2), of "base @ p" base y] by simp
  then show ?thesis using a(1) by (simp add: holds_def)
qed

definition data_of :: "(bytes \<rightharpoonup> bytes) \<Rightarrow> bytes list \<Rightarrow> bytes" where
  "data_of M hs = concat (map (\<lambda>h. the (M h)) hs)"

lemma write_chunks_spec:
  assumes "outside p" "holds base fs M" "set hs \<subseteq> dom M" "fs (base @ p) = Some (File old)"
  shows "write_chunks None (store_of base) (base @ p) hs fs = (None, fs(base @ p \<mapsto> File (old @ data_of M hs)))"
  using assms(2-)
proof (induction hs arbitrary: fs old)
  case Nil
  then show ?case by (auto simp: data_of_def)
next
  case (Cons h hs)
  then obtain d where d: "M h = Some d" by auto
  then obtain c where c: "Get (store_of base) h fs = Inr c" "ch_Data c = d" using holds_Get Cons.prems(1) by blast
  let ?fs = "fs(base @ p \<mapsto> File (old @ d))"
  have "write_chunks None (store_of base) (base @ p) hs ?fs = (None, ?fs(base @ p \<mapsto> File ((old @ d) @ data_of M hs)))"
    by (rule Cons.IH [OF holds_upd [OF Cons.prems(1) assms(1)]]) (use Cons.prems(2) in simp_all)
  then show ?case using c d Cons.prems(3) by (simp add: Let_def data_of_def del: fun_upd_apply)
qed

text \<open>What is in the way of an item: a file above it, a file at a directory, a directory at a file.\<close>

definition clear :: "path \<Rightarrow> fs \<Rightarrow> path \<Rightarrow> bool \<Rightarrow> bool" where
  "clear base fs p isDir \<longleftrightarrow> (\<forall>n < length p. \<not> is_file (fs (base @ take n p))) \<and>
     (if isDir then \<not> is_file (fs (base @ p)) else fs (base @ p) \<noteq> Some Dir)"

lemma mkdirs_below:
  assumes "fs_wf fs" "fs base = Some Dir" "\<forall>n \<le> length p. \<not> is_file (fs (base @ take n p))"
  obtains fs' where "os_MkdirAll None fs (base @ p) = (None, fs')" "fs_wf fs'" "fs' (base @ p) = Some Dir"
    "\<And>q. fs' q = fs q \<or> fs q = None \<and> fs' q = Some Dir \<and> prefix q (base @ p)"
proof -
  obtain e fs' where m: "mkdirs None fs [] (base @ p) = (e, fs')" by force
  have "\<not> is_file (fs ([] @ take n (base @ p)))" if "n \<le> length (base @ p)" for n
  proof (cases "n \<le> length base")
    case True
    then have "fs (take n base) = Some Dir" using fs_wf_prefix [OF assms(1,2), of "take n base"] by (simp add: take_is_prefix)
    then show ?thesis using True by simp
  next
    case False
    then show ?thesis using assms(3) that by simp
  qed
  from mkdirs_ok [of "base @ p" fs "[]", OF this] m have e: "e = None" by simp
  have "fs [] = Some Dir" using assms(1) by (simp add: fs_wf_def)
  from mkdirs_wf [OF m assms(1) this] e have "fs_wf fs'" "fs' (base @ p) = Some Dir" by simp_all
  moreover have "fs' q = fs q \<or> fs q = None \<and> fs' q = Some Dir \<and> prefix q (base @ p)" for q
    using mkdirs_frame [OF m, of q] by auto
  ultimately show ?thesis using that m e by (simp add: os_MkdirAll_def)
qed

lemma holds_frame:
  assumes "holds base fs M" "outside p" "\<And>q. fs' q = fs q \<or> fs q = None \<and> prefix q (base @ p)"
  shows "holds base fs' M"
  unfolding holds_def
proof (intro allI impI)
  fix h d assume "M h = Some d"
  then have "fs (chunkPath (store_of base) (EncodeToString h)) = Some (File d)" using assms(1) by (simp add: holds_def)
  then show "fs' (chunkPath (store_of base) (EncodeToString h)) = Some (File d)"
    using assms(3) [of "chunkPath (store_of base) (EncodeToString h)"] by simp
qed

text \<open>One item: a file gets the data of its chunks, and otherwise only missing directories above it are created.\<close>

lemma recon_item_spec:
  assumes "fs_wf fs" "fs base = Some Dir" "outside p" "holds base fs M" "clear base fs p isDir" "set chunks \<subseteq> dom M"
  obtains fs' where
    "recon_item no_recon_faults (store_of base) (base @ p, isDir, chunks) fs = (if isDir \<or> chunks = [] then 0 else 1, None, fs')"
    "fs_wf fs'" "fs' base = Some Dir" "holds base fs' M"
    "\<not> isDir \<Longrightarrow> chunks \<noteq> [] \<Longrightarrow> fs' (base @ p) = Some (File (data_of M chunks))"
    "\<And>q. (q = base @ p \<longrightarrow> isDir \<or> chunks = []) \<Longrightarrow> fs' q = fs q \<or> fs q = None \<and> fs' q = Some Dir \<and> prefix q (base @ p)"
proof -
  have pne: "p \<noteq> []" using assms(3) by (simp add: outside_def)
  consider (dir) isDir | (empty) "\<not> isDir" "chunks = []" | (regular) "\<not> isDir" "chunks \<noteq> []" by blast
  then show ?thesis
  proof cases
    case dir
    have "\<forall>n \<le> length p. \<not> is_file (fs (base @ take n p))"
      using assms(5) dir by (auto simp: clear_def le_less)
    from mkdirs_below [OF assms(1,2) this] obtain fs' where fs': "os_MkdirAll None fs (base @ p) = (None, fs')" "fs_wf fs'"
      "fs' (base @ p) = Some Dir" "\<And>q. fs' q = fs q \<or> fs q = None \<and> fs' q = Some Dir \<and> prefix q (base @ p)" by blast
    have "fs' base = Some Dir" using fs'(4) [of base] assms(2) by auto
    moreover have "holds base fs' M" using holds_frame [OF assms(4,3), of fs'] fs'(4) by blast
    ultimately show ?thesis
      using that [of fs'] dir fs' by (simp add: recon_item_def no_recon_faults_def)
  next
    case empty
    then show ?thesis using that [of fs] assms(1,2,4) by (simp add: recon_item_def)
  next
    case regular
    obtain par x where p: "p = par @ [x]" using pne by (metis append_butlast_last_id)
    have nf: "\<not> is_file (fs (base @ take n par))" if "n \<le> length par" for n
      using assms(5) that by (auto simp: clear_def p dest!: spec [of _ n])
    then have "\<forall>n \<le> length par. \<not> is_file (fs (base @ take n par))" by blast
    from mkdirs_below [OF assms(1,2) this] obtain fs1 where fs1: "os_MkdirAll None fs (base @ par) = (None, fs1)" "fs_wf fs1"
      "fs1 (base @ par) = Some Dir" "\<And>q. fs1 q = fs q \<or> fs q = None \<and> fs1 q = Some Dir \<and> prefix q (base @ par)" by blast
    have "\<not> prefix (base @ p) (base @ par)" by (auto simp: p dest: prefix_length_le)
    then have nd: "fs1 (base @ p) \<noteq> Some Dir" using fs1(4) [of "base @ p"] assms(5) regular by (auto simp: clear_def)
    let ?fs2 = "fs1(base @ p \<mapsto> File [])"
    have create: "os_Create fs1 (base @ p) = (None, ?fs2)" using nd fs1(3) by (simp add: os_Create_def p butlast_append)
    have pre: "prefix q (base @ p)" if "prefix q (base @ par)" for q
      using prefix_prefix [OF that, of "[x]"] by (simp add: p)
    have "holds base fs1 M" using holds_frame [OF assms(4,3), of fs1] fs1(4) pre by blast
    then have h2: "holds base ?fs2 M" using holds_upd assms(3) by blast
    have "write_chunks None (store_of base) (base @ p) chunks ?fs2 = (None, ?fs2(base @ p \<mapsto> File ([] @ data_of M chunks)))"
      by (rule write_chunks_spec [OF assms(3) h2 assms(6)]) simp
    then have run: "recon_item no_recon_faults (store_of base) (base @ p, isDir, chunks) fs =
        (1, None, fs1(base @ p \<mapsto> File (data_of M chunks)))"
      using regular fs1(1) create by (simp add: recon_item_def no_recon_faults_def p butlast_append del: fun_upd_apply)
    have wf: "fs_wf (fs1(base @ p \<mapsto> File (data_of M chunks)))"
      using fs_wf_file [OF fs1(2,3), of x] nd by (simp add: p)
    have "fs1 base = Some Dir" using fs1(4) [of base] assms(2) by auto
    then show ?thesis
      using that [of "fs1(base @ p \<mapsto> File (data_of M chunks))"] run wf regular pne fs1(4) pre
        holds_upd [OF \<open>holds base fs1 M\<close> assms(3)] by auto
  qed
qed

text \<open>
  A list of items with distinct paths, of which no file lies above another item. Rebuilding it writes
  every file and creates directories above items, and changes nothing else.
\<close>

definition items_ok :: "path \<Rightarrow> fs \<Rightarrow> (bytes \<rightharpoonup> bytes) \<Rightarrow> (path \<times> bool \<times> bytes list) list \<Rightarrow> bool" where
  "items_ok base fs M items \<longleftrightarrow>
     (\<forall>p isDir chunks. (p, isDir, chunks) \<in> set items \<longrightarrow> outside p \<and> clear base fs p isDir \<and> set chunks \<subseteq> dom M) \<and>
     distinct (map fst items) \<and>
     (\<forall>p isDir cs q d ds. (p, isDir, cs) \<in> set items \<longrightarrow> (q, d, ds) \<in> set items \<longrightarrow> \<not> isDir \<longrightarrow> q \<noteq> p \<longrightarrow> \<not> prefix p q)"

definition files_of :: "(path \<times> bool \<times> bytes list) list \<Rightarrow> (path \<times> bytes list) list" where
  "files_of items = map (\<lambda>(p, isDir, chunks). (p, chunks)) (filter (\<lambda>(p, isDir, chunks). \<not> isDir \<and> chunks \<noteq> []) items)"

lemma clear_frame:
  assumes "clear base fs q d" "\<And>r. (r = base @ p \<longrightarrow> isDir \<or> chunks = []) \<Longrightarrow>
      fs' r = fs r \<or> fs r = None \<and> fs' r = Some Dir \<and> prefix r (base @ p)"
    and "p \<noteq> q" "\<not> isDir \<longrightarrow> \<not> prefix p q" "\<not> d \<longrightarrow> \<not> prefix q p"
  shows "clear base fs' q d"
proof -
  have nf: "\<not> is_file (fs' (base @ take n q))" if "\<not> is_file (fs (base @ take n q))" for n
  proof -
    have "take n q = p \<longrightarrow> isDir" using assms(4) take_is_prefix [of n q] by auto
    then show ?thesis using assms(2) [of "base @ take n q"] that by auto
  qed
  moreover have "fs' (base @ q) \<noteq> Some Dir" if "fs (base @ q) \<noteq> Some Dir" "\<not> d"
    using assms(2) [of "base @ q"] that assms(3,5) by auto
  moreover have "\<not> is_file (fs' (base @ q))" if "\<not> is_file (fs (base @ q))" using nf [of "length q"] that by simp
  ultimately show ?thesis using assms(1) by (auto simp: clear_def)
qed

lemma recon_items_spec:
  assumes "fs_wf fs" "fs base = Some Dir" "holds base fs M" "items_ok base fs M items"
  shows "\<exists>fs'. recon_items no_recon_faults (store_of base) (map (\<lambda>(p, d). (base @ p, d)) items) n fs =
      (n + int (length (files_of items)), None, fs') \<and> fs_wf fs' \<and>
    (\<forall>(p, chunks) \<in> set (files_of items). fs' (base @ p) = Some (File (data_of M chunks))) \<and>
    (\<forall>q. q \<notin> (\<lambda>(p, _). base @ p) ` set (files_of items) \<longrightarrow>
      fs' q = fs q \<or> fs q = None \<and> fs' q = Some Dir \<and> (\<exists>(p, _) \<in> set items. prefix q (base @ p)))"
  using assms
proof (induction items arbitrary: n fs)
  case Nil
  then show ?case by (simp add: files_of_def)
next
  case (Cons item items)
  obtain p isDir chunks where item: "item = (p, isDir, chunks)" by (metis prod_cases3)
  have ok: "\<And>p isDir chunks. (p, isDir, chunks) \<in> set (item # items) \<Longrightarrow> outside p \<and> clear base fs p isDir \<and> set chunks \<subseteq> dom M"
    "distinct (map fst (item # items))"
    "\<And>p isDir cs q d ds. (p, isDir, cs) \<in> set (item # items) \<Longrightarrow> (q, d, ds) \<in> set (item # items) \<Longrightarrow>
      \<not> isDir \<Longrightarrow> q \<noteq> p \<Longrightarrow> \<not> prefix p q"
    using Cons.prems(4) unfolding items_ok_def by blast+
  have it: "outside p" "clear base fs p isDir" "set chunks \<subseteq> dom M" using ok(1) [of p isDir chunks] by (simp_all add: item)
  obtain fs1 where fs1:
    "recon_item no_recon_faults (store_of base) (base @ p, isDir, chunks) fs = (if isDir \<or> chunks = [] then 0 else 1, None, fs1)"
    "fs_wf fs1" "fs1 base = Some Dir" "holds base fs1 M"
    "\<not> isDir \<Longrightarrow> chunks \<noteq> [] \<Longrightarrow> fs1 (base @ p) = Some (File (data_of M chunks))"
    "\<And>q. (q = base @ p \<longrightarrow> isDir \<or> chunks = []) \<Longrightarrow> fs1 q = fs q \<or> fs q = None \<and> fs1 q = Some Dir \<and> prefix q (base @ p)"
    using recon_item_spec [OF Cons.prems(1,2) it(1) Cons.prems(3) it(2,3)] by blast
  have sep: "p \<noteq> q" "\<not> isDir \<longrightarrow> \<not> prefix p q" "\<not> d \<longrightarrow> \<not> prefix q p" if "(q, d, cs) \<in> set items" for q d cs
  proof -
    show ne: "p \<noteq> q" using ok(2) that by (auto simp: item rev_image_eqI)
    have mem: "(p, isDir, chunks) \<in> set (item # items)" "(q, d, cs) \<in> set (item # items)" using that by (simp_all add: item)
    show "\<not> isDir \<longrightarrow> \<not> prefix p q" using ok(3) [OF mem] ne by blast
    show "\<not> d \<longrightarrow> \<not> prefix q p" using ok(3) [OF mem(2,1)] ne by blast
  qed
  have "clear base fs1 q d" if "(q, d, cs) \<in> set items" for q d cs
    by (rule clear_frame [OF _ fs1(6) sep [OF that]]) (use ok(1) [of q d cs] that in auto)
  moreover have "outside q" "set cs \<subseteq> dom M" if "(q, d, cs) \<in> set items" for q d cs
    using ok(1) [of q d cs] that by auto
  moreover have "distinct (map fst items)" using ok(2) by simp
  moreover have "\<not> prefix q r" if "(q, d, cs) \<in> set items" "(r, d', cs') \<in> set items" "\<not> d" "r \<noteq> q" for q d cs r d' cs'
    using ok(3) [of q d cs r d' cs'] that by simp
  ultimately have "items_ok base fs1 M items" unfolding items_ok_def by blast
  from Cons.IH [OF fs1(2,3,4) this, of "n + (if isDir \<or> chunks = [] then 0 else 1)"] obtain fs' where fs':
    "recon_items no_recon_faults (store_of base) (map (\<lambda>(p, d). (base @ p, d)) items) (n + (if isDir \<or> chunks = [] then 0 else 1)) fs1 =
      (n + (if isDir \<or> chunks = [] then 0 else 1) + int (length (files_of items)), None, fs')" "fs_wf fs'"
    "\<forall>(p, chunks) \<in> set (files_of items). fs' (base @ p) = Some (File (data_of M chunks))"
    "\<And>q. q \<notin> (\<lambda>(p, _). base @ p) ` set (files_of items) \<Longrightarrow>
      fs' q = fs1 q \<or> fs1 q = None \<and> fs' q = Some Dir \<and> (\<exists>(p, _) \<in> set items. prefix q (base @ p))" by blast
  have len: "files_of (item # items) = (if isDir \<or> chunks = [] then [] else [(p, chunks)]) @ files_of items"
    by (simp add: files_of_def item)
  have notin: "base @ p \<notin> (\<lambda>(p, _). base @ p) ` set (files_of items)"
    using sep(1) by (force simp: files_of_def)
  have "fs' (base @ p) = Some (File (data_of M chunks))" if "\<not> isDir" "chunks \<noteq> []"
    using fs'(4) [OF notin] fs1(5) [OF that] by auto
  then have "\<forall>(p, chunks) \<in> set (files_of (item # items)). fs' (base @ p) = Some (File (data_of M chunks))"
    using fs'(3) unfolding len by auto
  moreover have "fs' q = fs q \<or> fs q = None \<and> fs' q = Some Dir \<and> (\<exists>(p, _) \<in> set (item # items). prefix q (base @ p))"
    if "q \<notin> (\<lambda>(p, _). base @ p) ` set (files_of (item # items))" for q
  proof -
    have "q \<notin> (\<lambda>(p, _). base @ p) ` set (files_of items)" "q = base @ p \<longrightarrow> isDir \<or> chunks = []"
      using that unfolding len by auto
    from fs'(4) [OF this(1)] fs1(6) [OF this(2)] show ?thesis by (auto simp: item)
  qed
  moreover have "recon_items no_recon_faults (store_of base) (map (\<lambda>(p, d). (base @ p, d)) (item # items)) n fs =
      (n + int (length (files_of (item # items))), None, fs')"
    using fs1(1) fs'(1) by (simp add: item len [unfolded item] add.assoc)
  ultimately show ?case using fs'(2) by blast
qed

text \<open>
  Manifest trees whose names are plain and distinct among siblings, and the items they flatten to,
  with paths relative to the base directory.
\<close>

fun man_ok :: "PManifestNode \<Rightarrow> bool" where
  "man_ok (PManifestNode name isDir hash mode sz children chunks) \<longleftrightarrow>
     distinct (map pn_Name children) \<and> list_all (\<lambda>c. plain (pn_Name c)) children \<and> list_all man_ok children"

fun rel_items :: "path \<Rightarrow> PManifestNode \<Rightarrow> (path \<times> bool \<times> bytes list) list" where
  "rel_items rel (PManifestNode name isDir hash mode sz children chunks) =
     (rel @ [name], isDir, chunks) # (if isDir then concat (map (rel_items (rel @ [name])) children) else [])"

lemma flatten_plain:
  "list_all plain rel \<Longrightarrow> plain (pn_Name node) \<Longrightarrow> man_ok node \<Longrightarrow>
   flatten base rel node = map (\<lambda>(p, d). (base @ p, d)) (rel_items rel node)"
proof (induction rel node rule: rel_items.induct)
  case (1 rel name isDir hash mode sz children chunks)
  have "flatten base (rel @ [name]) c = map (\<lambda>(p, d). (base @ p, d)) (rel_items (rel @ [name]) c)"
    if isDir "c \<in> set children" for c
    using that 1 by (simp add: list_all_iff)
  then show ?case
    using "1.prems" by (auto simp: abs_join_plain rel_join_plain map_concat comp_def cong: map_cong)
qed

lemma rel_items_prefix: "(p, d, cs) \<in> set (rel_items rel node) \<Longrightarrow> prefix (rel @ [pn_Name node]) p"
proof (induction rel node arbitrary: p d cs rule: rel_items.induct)
  case (1 rel name isDir hash mode sz children chunks)
  then consider "p = rel @ [name]" | c where isDir "c \<in> set children" "(p, d, cs) \<in> set (rel_items (rel @ [name]) c)"
    by (auto split: if_splits)
  then show ?case
  proof cases
    case (2 c)
    from "1.IH" [OF 2] have "prefix ((rel @ [name]) @ [pn_Name c]) p" .
    from append_prefixD [OF this] show ?thesis by simp
  qed simp
qed

definition separate :: "(path \<times> bool \<times> bytes list) list \<Rightarrow> bool" where
  "separate items \<longleftrightarrow> distinct (map fst items) \<and>
     (\<forall>p isDir cs q d ds. (p, isDir, cs) \<in> set items \<longrightarrow> (q, d, ds) \<in> set items \<longrightarrow> \<not> isDir \<longrightarrow> q \<noteq> p \<longrightarrow> \<not> prefix p q)"

lemma separate_append:
  assumes "separate xs" "separate ys"
    and "\<And>p d cs q e es. (p, d, cs) \<in> set xs \<Longrightarrow> (q, e, es) \<in> set ys \<Longrightarrow> \<not> prefix p q \<and> \<not> prefix q p"
  shows "separate (xs @ ys)"
proof -
  have "fst x \<noteq> fst y" if "x \<in> set xs" "y \<in> set ys" for x y
    using assms(3) [of "fst x" "fst (snd x)" "snd (snd x)" "fst y" "fst (snd y)" "snd (snd y)"] that by auto
  then have "distinct (map fst (xs @ ys))" using assms(1,2) by (auto simp: separate_def)
  moreover have "\<not> prefix p q" if "(p, isDir, cs) \<in> set (xs @ ys)" "(q, d, ds) \<in> set (xs @ ys)" "\<not> isDir" "q \<noteq> p"
    for p isDir cs q d ds
  proof -
    have sub: "\<not> prefix p q" if "separate zs" "(p, isDir, cs) \<in> set zs" "(q, d, ds) \<in> set zs" for zs
      using that \<open>\<not> isDir\<close> \<open>q \<noteq> p\<close> unfolding separate_def by blast
    from that(1,2) consider "(p, isDir, cs) \<in> set xs" "(q, d, ds) \<in> set xs" | "(p, isDir, cs) \<in> set ys" "(q, d, ds) \<in> set ys"
      | "(p, isDir, cs) \<in> set xs" "(q, d, ds) \<in> set ys" | "(p, isDir, cs) \<in> set ys" "(q, d, ds) \<in> set xs" by auto
    then show ?thesis using sub [OF assms(1)] sub [OF assms(2)] assms(3) by cases blast+
  qed
  ultimately show ?thesis unfolding separate_def by blast
qed

lemma prefix_names: "prefix (rel @ [x]) p \<Longrightarrow> prefix (rel @ [y]) q \<Longrightarrow> x \<noteq> y \<Longrightarrow> \<not> prefix p q"
  by (auto simp: prefix_def)

lemma separate_nodes:
  assumes "\<And>c. c \<in> set nodes \<Longrightarrow> separate (rel_items rel c)" "distinct (map pn_Name nodes)"
  shows "separate (concat (map (rel_items rel) nodes))"
  using assms
proof (induction nodes)
  case (Cons c nodes)
  have "\<not> prefix p q \<and> \<not> prefix q p" if mem: "(p, d, cs) \<in> set (rel_items rel c)"
      "(q, e, es) \<in> set (concat (map (rel_items rel) nodes))" for p d cs q e es
  proof -
    obtain c' where c': "c' \<in> set nodes" "(q, e, es) \<in> set (rel_items rel c')" using mem(2) by auto
    then have "pn_Name c \<noteq> pn_Name c'" using Cons.prems(2) by (auto simp: rev_image_eqI)
    then show ?thesis
      using prefix_names [OF rel_items_prefix [OF mem(1)] rel_items_prefix [OF c'(2)]]
        prefix_names [OF rel_items_prefix [OF c'(2)] rel_items_prefix [OF mem(1)]] by metis
  qed
  then have
    "separate (rel_items rel c) \<Longrightarrow> separate (concat (map (rel_items rel) nodes)) \<Longrightarrow>
      separate (rel_items rel c @ concat (map (rel_items rel) nodes))" by (intro separate_append)
  then show ?case using Cons by simp
qed (simp add: separate_def)

lemma rel_items_separate: "man_ok node \<Longrightarrow> separate (rel_items rel node)"
proof (induction rel node rule: rel_items.induct)
  case (1 rel name isDir hash mode sz children chunks)
  show ?case
  proof (cases isDir)
    case True
    let ?items = "concat (map (rel_items (rel @ [name])) children)"
    have sep: "separate ?items"
      by (rule separate_nodes) (use "1.IH" "1.prems" True in \<open>auto simp: list_all_iff\<close>)
    have longer: "\<not> prefix p (rel @ [name])" "p \<noteq> rel @ [name]" if mem: "(p, d, cs) \<in> set ?items" for p d cs
    proof -
      obtain c where "(p, d, cs) \<in> set (rel_items (rel @ [name]) c)" using mem by auto
      from prefix_length_le [OF rel_items_prefix [OF this]] have "length (rel @ [name]) < length p" by simp
      then show "\<not> prefix p (rel @ [name])" "p \<noteq> rel @ [name]" by (auto dest: prefix_length_le)
    qed
    have "rel @ [name] \<notin> fst ` set ?items"
    proof
      assume "rel @ [name] \<in> fst ` set ?items"
      then obtain d cs where "(rel @ [name], d, cs) \<in> set ?items" by force
      then show False using longer(2) by blast
    qed
    then show ?thesis
      using sep longer(1) True unfolding separate_def by simp
  qed (simp add: separate_def)
qed

text \<open>Rebuilding a whole tree.\<close>

lemma reconstruct_tree:
  assumes "fs_wf fs" "fs base = Some Dir" "holds base fs M" "man_ok root" "''.storage'' \<notin> pn_Name ` set (pn_Children root)"
    and "\<forall>(p, isDir, chunks) \<in> set (concat (map (rel_items []) (pn_Children root))). clear base fs p isDir \<and> set chunks \<subseteq> dom M"
  shows "\<exists>fs'. reconstructFiles no_recon_faults (store_of base) base (Some root) fs =
      (int (length (files_of (concat (map (rel_items []) (pn_Children root))))), None, fs') \<and> fs_wf fs' \<and>
    (\<forall>(p, chunks) \<in> set (files_of (concat (map (rel_items []) (pn_Children root)))).
       fs' (base @ p) = Some (File (data_of M chunks))) \<and>
    (\<forall>q. q \<notin> (\<lambda>(p, _). base @ p) ` set (files_of (concat (map (rel_items []) (pn_Children root)))) \<longrightarrow>
      fs' q = fs q \<or> fs q = None \<and> fs' q = Some Dir \<and>
        (\<exists>(p, _) \<in> set (concat (map (rel_items []) (pn_Children root))). prefix q (base @ p)))"
proof -
  let ?cs = "pn_Children root" and ?items = "concat (map (rel_items []) (pn_Children root))"
  have cs: "distinct (map pn_Name ?cs)" "\<forall>c \<in> set ?cs. plain (pn_Name c) \<and> man_ok c"
    using assms(4) by (cases root; auto simp: list_all_iff)+
  have "concat (map (flatten base []) ?cs) = map (\<lambda>(p, d). (base @ p, d)) ?items"
    using cs(2) flatten_plain [of "[]" _ base] by (auto simp: map_concat comp_def cong: map_cong)
  moreover have "separate ?items" by (rule separate_nodes) (use cs rel_items_separate in auto)
  moreover have "outside p" if mem: "(p, d, ks) \<in> set ?items" for p d ks
  proof -
    obtain c where "c \<in> set ?cs" "(p, d, ks) \<in> set (rel_items [] c)" using mem by auto
    then show ?thesis
      using rel_items_prefix [of p d ks "[]" c] assms(5) by (cases p) (auto simp: outside_def rev_image_eqI)
  qed
  ultimately have "items_ok base fs M ?items" using assms(6) unfolding items_ok_def separate_def by blast
  from recon_items_spec [OF assms(1,2,3) this, of 0] obtain fs' where fs':
    "recon_items no_recon_faults (store_of base) (concat (map (flatten base []) ?cs)) 0 fs = (int (length (files_of ?items)), None, fs')"
    "fs_wf fs'" "\<forall>(p, chunks) \<in> set (files_of ?items). fs' (base @ p) = Some (File (data_of M chunks))"
    "\<forall>q. q \<notin> (\<lambda>(p, _). base @ p) ` set (files_of ?items) \<longrightarrow>
      fs' q = fs q \<or> fs q = None \<and> fs' q = Some Dir \<and> (\<exists>(p, _) \<in> set ?items. prefix q (base @ p))"
    unfolding \<open>concat (map (flatten base []) ?cs) = map (\<lambda>(p, d). (base @ p, d)) ?items\<close> by auto
  then have "reconstruct_children no_recon_faults (store_of base) base [] ?cs 0 fs = (int (length (files_of ?items)), None, fs')"
    using flatten_recon(2) [of no_recon_faults "store_of base" base "[]" ?cs 0 fs]
    by (simp add: agree_def) (metis fst_conv prod.collapse snd_conv)
  then show ?thesis using fs'(2-4) by (simp add: reconstructFiles_def)
qed


section \<open>Well-formed manifests\<close>

text \<open>
  The type of a manifest node: a 32-byte hash, 32-byte chunk hashes, a file without children and a
  directory without chunks, children in the order of their names, none of them empty or hidden.
\<close>

fun man_typed :: "PManifestNode \<Rightarrow> bool" where
  "man_typed (PManifestNode name isDir hash mode sz children chunks) \<longleftrightarrow>
     length hash = 32 \<and> list_all (\<lambda>h. length h = 32) chunks \<and>
     (if isDir then chunks = [] else children = []) \<and> sorted (map pn_Name children) \<and>
     list_all (\<lambda>c. pn_Name c \<noteq> [] \<and> \<not> hidden_name (pn_Name c)) children \<and> list_all man_typed children"

lemma convert_name: "pn_Name (convertTreeToManifest n) = nd_Name n"
  by (cases n) simp

lemma buildNode_typed:
  "buildNode H e = Inr n \<Longrightarrow> \<forall>x. length (H x) = 32 \<Longrightarrow> man_typed (convertTreeToManifest n) \<and> nd_Name n = en_Name e"
  "build_children H es = Inr cs \<Longrightarrow> \<forall>x. length (H x) = 32 \<Longrightarrow>
    list_all (\<lambda>c. man_typed (convertTreeToManifest c) \<and> nd_Name c \<noteq> [] \<and> \<not> hidden_name (nd_Name c)) cs"
proof (induction H e and H es arbitrary: n and cs rule: buildNode_build_children.induct)
  case (1 H name mode info opens sz r)
  then obtain chunks where "ChunkAll H r = Inr chunks" "n = set_Size sz (NewFileNode H name mode (map ch_Hash chunks))"
    by (auto split: if_splits sum.splits)
  moreover from this have "list_all (\<lambda>c. length (ch_Hash c) = 32) chunks"
    using 1 by (auto simp: ChunkAll_def chunk_loop_spec list_all_iff split: sum.splits if_splits)
  ultimately show ?case using 1 by (simp add: NewFileNode_def list_all_iff)
next
  case (2 H name mode info opens es)
  then obtain cs where cs: "build_children H es = Inr cs" "n = NewDirNode H name mode cs"
    by (cases "build_children H es") (auto split: if_splits)
  have "sorted (map (pn_Name \<circ> convertTreeToManifest) (sort_key nd_Name cs))" by (simp add: comp_def convert_name)
  then show ?case using 2 cs by (auto simp: NewDirNode_def list_all_iff convert_name split: if_splits)
next
  case (3 H)
  then show ?case by simp
next
  case (4 H e es)
  show ?case
  proof (cases "en_Name e = [] \<or> hd (en_Name e) = CHR ''.''")
    case True
    then show ?thesis using 4 by (auto split: if_splits)
  next
    case False
    then obtain c ds where "buildNode H e = Inr c" "build_children H es = Inr ds" "cs = c # ds" "en_Info e"
      using "4.prems"(1) by (cases "buildNode H e"; cases "build_children H es") (auto split: if_splits)
    moreover have "\<not> hidden_name (en_Name e)" using False by (cases "en_Name e") (simp_all add: hidden_name_def)
    ultimately show ?thesis using 4 False by auto
  qed
qed


section \<open>Properties\<close>

text \<open>
  C13. The manifest of a directory is well-typed. Whatever the directory holds, a tree that \<open>BuildFromFS\<close>
  returns has a root, and its conversion for the wire has 32-byte hashes throughout, chunks only at
  files and children only at directories, and children sorted by names that are neither empty nor
  hidden.
\<close>

theorem build_manifest_typed:
  assumes "\<forall>x. length (H x) = 32" and "BuildFromFS H dir = Inr t"
  shows "\<exists>root m. tr_Root t = Some root \<and> ms_Root (tree_manifest t) = Some m \<and> m = convertTreeToManifest root \<and>
    pn_IsDir m \<and> man_typed m"
proof -
  obtain name mode info opens es where dir: "dir = Some (DirEntry name mode info opens es)"
    using assms(2) by (cases "(H, dir)" rule: BuildFromFS.cases) auto
  then obtain root where root: "buildNode H (DirEntry name mode info opens es) = Inr root" "t = \<lparr>tr_Root = Some root\<rparr>"
    using assms(2) by (cases "buildNode H (DirEntry name mode info opens es)") (auto simp del: buildNode.simps)
  have "pn_IsDir (convertTreeToManifest root)"
    using root(1) by (cases "build_children H es") (auto simp: NewDirNode_def split: if_splits)
  then show ?thesis using buildNode_typed(1) [OF root(1) assms(1)] by (simp add: root(2) tree_manifest_def)
qed

lemma build_manifest_typed_witness:
  "\<exists>t root m. BuildFromFS pad_hash (Some dir2) = Inr t \<and> tr_Root t = Some root \<and> ms_Root (tree_manifest t) = Some m \<and>
    m = convertTreeToManifest root \<and> pn_IsDir m \<and> man_typed m"
proof -
  obtain t where t: "BuildFromFS pad_hash (Some dir2) = Inr t"
    by (simp add: dir2_def ChunkAll_reader_of)
  from build_manifest_typed [OF _ t] show ?thesis using t by auto
qed

text \<open>
  C39. Names in a manifest are not checked. A remote root with a file called \<open>../x\<close> makes \<open>reconstructFiles\<close>
  write the file \<open>x\<close> beside the synchronised directory, with data the remote chose, replacing a file
  that is there.
\<close>

theorem reconstruct_escapes_directory:
  assumes "fs_wf fs" "fs (base @ [d]) = Some Dir" "holds (base @ [d]) fs M" "M h = Some data"
    and "plain d" "plain x" "x \<noteq> d" "fs (base @ [x]) \<noteq> Some Dir"
  shows "\<exists>fs'. reconstructFiles no_recon_faults (store_of (base @ [d])) (base @ [d])
      (Some (PManifestNode [] True hash 0 0 [PManifestNode (''../'' @ x) False hash' 0 0 [] [h]] [])) fs = (1, None, fs') \<and>
    fs' (base @ [x]) = Some (File data)"
proof -
  let ?s = "store_of (base @ [d])" and ?p = "base @ [x]"
  have split: "split_slash (''../'' @ x) = [''..'', x]"
    using split_slash_app [of "''..''" x] split_slash_plain [of x] assms(6) by (simp add: plain_def comp_ok_def)
  have path: "abs_join (base @ [d]) [] (''../'' @ x) = ?p"
    using assms(5,6) unfolding abs_join_def split by (simp add: clean_step_plain) (simp add: clean_step_def plain_def)
  have base: "fs base = Some Dir" using fs_wf_prefix [OF assms(1,2), of base] by simp
  have mk: "os_MkdirAll None fs base = (None, fs)" using mkdirs_existing [of fs "[]" base] assms(1) base by (simp add: os_MkdirAll_def)
  have cp: "chunkPath ?s y \<noteq> ?p" for y
    using assms(7) by (auto simp: chunkPath_def store_of_def Join_def storage_dir_simp)
  have "holds (base @ [d]) (fs(?p \<mapsto> File [])) M" using assms(3) cp by (simp add: holds_def)
  from holds_Get [OF this assms(4)] obtain c where "Get ?s h (fs(?p \<mapsto> File [])) = Inr c" "ch_Data c = data" by blast
  moreover have "os_Create fs ?p = (None, fs(?p \<mapsto> File []))" using assms(8) base by (simp add: os_Create_def)
  ultimately show ?thesis
    using mk by (simp add: reconstructFiles_def path [simplified] no_recon_faults_def Let_def)
qed

definition escape_fs :: fs where
  "escape_fs = [[] \<mapsto> Dir, [''d''] \<mapsto> Dir, [''d'', ''.storage''] \<mapsto> Dir, [''d'', ''.storage'', ''chunks''] \<mapsto> Dir,
     [''d'', ''.storage'', ''chunks'', ''01''] \<mapsto> File [7], [''x''] \<mapsto> File [9]]"

lemma reconstruct_escapes_directory_witness:
  "\<exists>fs'. reconstructFiles no_recon_faults (store_of [''d'']) [''d'']
      (Some (PManifestNode [] True [] 0 0 [PManifestNode ''../x'' False [] 0 0 [] [[1]]] [])) escape_fs = (1, None, fs') \<and>
    escape_fs [''x''] = Some (File [9]) \<and> fs' [''x''] = Some (File [7])"
proof -
  have "holds [''d''] escape_fs [[1] \<mapsto> [7]]"
    by (auto simp: holds_def escape_fs_def chunkPath_def store_of_def Join_def storage_dir_simp EncodeToString_def hex_byte_def hex_digit_def
        PrefixLength_def split: if_splits)
  moreover have "fs_wf escape_fs" by (auto simp: fs_wf_def escape_fs_def append_eq_Cons_conv split: if_splits)
  moreover have "escape_fs [''d''] = Some Dir" "escape_fs [''x''] = Some (File [9])" by (simp_all add: escape_fs_def)
  ultimately show ?thesis
    using reconstruct_escapes_directory [of escape_fs "[]" "''d''" "[[1] \<mapsto> [7]]" "[1]" "[7]" "''x''" "[]" "[]"]
    by (simp add: plain_def comp_ok_def)
qed

end
