(* ===== verification/SyncSteps.thy ===== *)
theory SyncSteps
  imports Cli
begin

text \<open>
  What the steps of \<open>syncCmd\<close> and \<open>serveCmd\<close> do, one after the other: indexing a directory fills the store
  and changes nothing outside it, the comparison of the manifests reports every remote chunk that is
  not local, the download stores what is reported, and deleting removes exactly the paths that only
  the local tree has. The last section puts the download and the comparison together.
\<close>

section \<open>Indexing\<close>

lemma put_all_append: "blobs.put_all s (xs @ ys) fs = blobs.put_all s ys (blobs.put_all s xs fs)"
  by (simp add: blobs.put_all_def)

lemma index_file_spec:
  assumes "store_inv s (ix_fs st)" "\<forall>x. length (H x) = 32" "rd_fail r = None"
  shows "\<exists>st'. index_file H (\<lambda>n. no_faults) s r st = (True, st') \<and>
    ix_fs st' = blobs.put_all s (map (chunk_of H) (blocks ChunkSize (rd_bytes r))) (ix_fs st)"
proof -
  have "\<exists>st'. index_file H (\<lambda>n. no_faults) s r st = (True, st') \<and>
    ix_fs st' = blobs.put_all s (map (chunk_of H) (stream_data r)) (ix_fs st)"
    using assms
  proof (induction H "\<lambda>n :: nat. no_faults" s r st rule: index_file.induct)
    case (1 H s r st)
    show ?case
    proof (cases rule: stream_cases [of H r])
      case (more d)
      obtain fs1 b where fs1: "Put no_faults s (chunk_of H d) (ix_fs st) = (Inr b, fs1)" "store_inv s fs1"
        using blobs.put_law [OF 1(2), of "chunk_of H d"] 1(3) by auto
      then show ?thesis
        using 1 more by (simp add: index_file.simps [of H _ s r] blobs.put_all_Cons)
    next
      case (stop r')
      then show ?thesis
        using 1(4) by (simp add: index_file.simps [of H _ s r] blobs.put_all_def stream_end_def)
    qed
  qed
  then show ?thesis using assms(3) by (simp add: stream_data_def)
qed

text \<open>The blocks of the files an indexing walk reads.\<close>

fun entry_blocks :: "entry \<Rightarrow> bytes list" where
  "entry_blocks (FileEntry name mode info opens sz r) = blocks ChunkSize (rd_bytes r)"
| "entry_blocks (DirEntry name mode info opens es) = concat (map entry_blocks (filter (\<lambda>e. \<not> hidden e) es))"

lemma entry_blocks_visible: "set (entry_blocks e) = set (view_blocks (visible e))"
  by (induction e rule: entry_blocks.induct) auto

lemma hidden_entry: "en_Name e \<noteq> [] \<Longrightarrow> hidden e \<longleftrightarrow> hidden_name (en_Name e)"
  by (cases "en_Name e") (simp_all add: hidden_def hidden_name_def)

lemma put_blocks:
  assumes "store_inv s fs" "\<forall>x. length (H x) = 32"
  shows "store_inv s (blobs.put_all s (map (chunk_of H) bs) fs)"
    and "store_content s fs \<subseteq>\<^sub>m store_content s (blobs.put_all s (map (chunk_of H) bs) fs)"
    and "H ` set bs \<subseteq> dom (store_content s (blobs.put_all s (map (chunk_of H) bs) fs))"
    and "ran (store_content s (blobs.put_all s (map (chunk_of H) bs) fs)) \<subseteq> ran (store_content s fs) \<union> set bs"
    and "blobs.sound s H fs \<Longrightarrow> blobs.sound s H (blobs.put_all s (map (chunk_of H) bs) fs)"
proof -
  let ?fs = "blobs.put_all s (map (chunk_of H) bs) fs"
  have "\<forall>c \<in> set (map (chunk_of H) bs). length (ch_Hash c) = 32" using assms(2) by simp
  note * = blobs.put_all_content [OF assms(1) this]
  show "store_inv s ?fs" "store_content s fs \<subseteq>\<^sub>m store_content s ?fs" using * by blast+
  show "H ` set bs \<subseteq> dom (store_content s ?fs)" using * by auto
  have new: "store_content s fs h = Some d \<or> d \<in> set bs \<and> H d = h" if "store_content s ?fs h = Some d" for h d
    using * that by fastforce
  show "ran (store_content s ?fs) \<subseteq> ran (store_content s fs) \<union> set bs"
    using new by (fastforce simp: ran_def)
  show "blobs.sound s H ?fs" if "blobs.sound s H fs" using that new unfolding blobs.sound_def by blast
qed

lemma index_walk_spec:
  "entry_ok e \<Longrightarrow> \<not> hidden_name (en_Name e) \<Longrightarrow> store_inv s (ix_fs st) \<Longrightarrow> \<forall>x. length (H x) = 32 \<Longrightarrow>
    ix_fs (index_walk H (\<lambda>n. no_faults) s e st) = blobs.put_all s (map (chunk_of H) (entry_blocks e)) (ix_fs st)"
  "list_all (\<lambda>e. en_Name e \<noteq> [] \<and> (hidden e \<or> en_Info e \<and> entry_ok e)) es \<Longrightarrow> store_inv s (ix_fs st) \<Longrightarrow>
    \<forall>x. length (H x) = 32 \<Longrightarrow>
    ix_fs (index_walks H (\<lambda>n. no_faults) s es st) =
      blobs.put_all s (map (chunk_of H) (concat (map entry_blocks (filter (\<lambda>e. \<not> hidden e) es)))) (ix_fs st)"
proof (induction H "\<lambda>n :: nat. no_faults" s e st and H "\<lambda>n :: nat. no_faults" s es st rule: index_walk_index_walks.induct)
  case (1 H s name mode info opens sz r st)
  then show ?case using index_file_spec [of s st H r] by (auto split: prod.split)
next
  case (2 H s name mode info opens entries st)
  then show ?case by simp
next
  case (3 H s st)
  then show ?case by (simp add: blobs.put_all_def)
next
  case (4 H s e es st)
  show ?case
  proof (cases "hidden e")
    case True
    then have "hidden_name (en_Name e)" using 4 hidden_entry by simp
    then have "index_walk H (\<lambda>n. no_faults) s e st = st" by (cases e) simp_all
    then show ?thesis using 4 True by simp
  next
    case False
    then have e: "\<not> hidden_name (en_Name e)" "en_Info e" "entry_ok e" using 4 hidden_entry by auto
    then have w: "ix_fs (index_walk H (\<lambda>n. no_faults) s e st) = blobs.put_all s (map (chunk_of H) (entry_blocks e)) (ix_fs st)"
      using 4 by simp
    then have "store_inv s (ix_fs (index_walk H (\<lambda>n. no_faults) s e st))" using put_blocks(1) 4 by metis
    then show ?thesis using 4 False e w by (simp add: put_all_append)
  qed
qed

lemma indexDirectory_spec:
  assumes "entry_ok e" "\<not> hidden_name (en_Name e)" "store_inv s fs" "\<forall>x. length (H x) = 32"
  shows "\<exists>n m. indexDirectory H (\<lambda>n. no_faults) s (Some e) fs =
    (n, m, blobs.put_all s (map (chunk_of H) (entry_blocks e)) fs)"
  using index_walk_spec(1) [OF assms(1,2), of s "\<lparr>ix_files = 0, ix_chunks = 0, ix_puts = 0, ix_fs = fs\<rparr>" H] assms(3,4)
  by (simp add: indexDirectory_def Let_def)


section \<open>The store in its directory\<close>

text \<open>A store changes nothing outside its directory, and opening an existing one changes nothing at all.\<close>

lemma Put_outside:
  assumes "store_inv s fs" "length (ch_Hash c) = 32" "\<not> prefix (bst_baseDir s) q"
  shows "snd (Put no_faults s c fs) q = fs q"
proof -
  obtain r fs' where put: "Put no_faults s c fs = (r, fs')" by force
  have path: "chunkPath s (HashHex c) = chunk_file s (ch_Hash c)"
    using assms(2) by (simp add: HashHex_def chunkPath_file)
  have below: "prefix (bst_baseDir s) (chunk_file s h)" "prefix (bst_baseDir s) (chunk_tmp s h)" for h
    by (simp_all add: chunk_file_def chunk_tmp_def)
  have tmp: "add_suffix (chunk_file s (ch_Hash c)) ''.tmp'' = chunk_tmp s (ch_Hash c)"
    by (simp add: chunk_file_def chunk_tmp_def add_suffix_def butlast_append)
  have "fs q = Some Dir" if "prefix q (butlast (chunk_file s (ch_Hash c)))"
  proof -
    have "prefix q (bst_baseDir s)"
      using that assms(3) by (auto simp: chunk_file_def butlast_append prefix_append prefix_Cons)
    then show ?thesis using fs_wf_prefix [of fs "bst_baseDir s" q] assms(1) by (simp add: store_inv_def)
  qed
  then show ?thesis
    using Put_frame [OF put, of q] below assms(3) unfolding put path tmp snd_conv by (metis option.distinct(1))
qed

lemma put_all_outside:
  "store_inv s fs \<Longrightarrow> \<forall>c \<in> set cs. length (ch_Hash c) = 32 \<Longrightarrow> \<not> prefix (bst_baseDir s) q \<Longrightarrow>
    blobs.put_all s cs fs q = fs q"
proof (induction cs arbitrary: fs)
  case (Cons c cs)
  then have "store_inv s (snd (Put no_faults s c fs))" using blobs.put_law [of s fs c] by force
  then show ?case using Cons Put_outside [of s fs c q] by (simp add: blobs.put_all_Cons)
qed (simp add: blobs.put_all_def)

lemma open_store:
  assumes "store_inv (store_of base) fs"
  shows "NewBlobStore b (storage_dir base) fs = (Inr (store_of base), fs)" and "initialized base fs"
proof -
  have "fs_wf fs" "fs (storage_dir base) = Some Dir" using assms by (simp_all add: store_inv_def store_of_def)
  then show "NewBlobStore b (storage_dir base) fs = (Inr (store_of base), fs)" "initialized base fs"
    using mkdirs_existing [of fs "[]" "storage_dir base" b]
    by (simp_all add: NewBlobStore_def os_MkdirAll_def store_of_def storage_dir_simp initialized_def os_Stat_def)
qed

lemma store_base: "store_inv (store_of base) fs \<Longrightarrow> fs base = Some Dir"
  using fs_wf_prefix [of fs "storage_dir base" base] by (simp add: store_inv_def store_of_def storage_dir_simp)

lemma holds_content: "store_inv (store_of base) fs \<Longrightarrow> holds base fs (store_content (store_of base) fs)"
  by (auto simp: holds_def store_content_def chunkPath_file split: if_splits option.splits inode.splits)

lemma outside_storage: "outside p \<Longrightarrow> \<not> prefix (bst_baseDir (store_of base)) (base @ p)"
  by (cases p) (auto simp: outside_def store_of_def storage_dir_simp)


section \<open>Downloading\<close>

definition received :: "(bytes \<Rightarrow> bytes) \<Rightarrow> bytes \<Rightarrow> Chunk" where
  "received H d = \<lparr>ch_Hash = H d, ch_Size = 0, ch_Data = d\<rparr>"

lemma store_received_spec:
  "store_received H (\<lambda>n. no_faults) s n cs fs =
    (n + length cs, blobs.put_all s (map (\<lambda>c. received H (pc_Data c)) cs) fs)"
  by (induction cs arbitrary: n fs) (simp_all add: blobs.put_all_def received_def)

lemma serve_chunks_found:
  assumes "store_inv s fs" "\<forall>h \<in> set hs. length h = 32 \<and> h \<in> dom (store_content s fs)"
  shows "map pc_Data (cs_Chunks (serve_chunks s fs \<lparr>cr_ChunkHashes = hs, cr_Priority = p\<rparr>)) =
    map (\<lambda>h. the (store_content s fs h)) hs"
proof -
  let ?f = "\<lambda>resp hash. case Get s hash fs of
              Inl e \<Rightarrow> resp\<lparr>cs_NotFound := cs_NotFound resp @ [hash]\<rparr>
            | Inr chunk \<Rightarrow> resp\<lparr>cs_Chunks := cs_Chunks resp @
                [\<lparr>pc_Hash = hash, pc_Data = ch_Data chunk, pc_Size = of_nat (length (ch_Data chunk))\<rparr>]\<rparr>"
  have "map pc_Data (cs_Chunks (foldl ?f resp hs)) = map pc_Data (cs_Chunks resp) @ map (\<lambda>h. the (store_content s fs h)) hs"
    for resp :: ChunkResponse
    using assms(2)
  proof (induction hs arbitrary: resp)
    case (Cons h hs)
    then obtain d where "store_content s fs h = Some d" by auto
    then show ?case using Cons blobs.get_law [OF assms(1), of h] by simp
  qed simp
  then show ?thesis by (simp add: serve_chunks_def)
qed

lemma download_spec:
  assumes "codec_ok cd" "cf_OnChunkRequest (tp_config t) = Some (\<lambda>p req. Some (serve_chunks sR fsR req))"
    and "store_inv sR fsR" "\<forall>h \<in> set (concat batches). length h = 32 \<and> h \<in> dom (store_content sR fsR)"
    and "\<forall>hs \<in> set batches. \<forall>i. fits cd MESSAGE_TYPE_CHUNK_REQUEST i (MsgChunkRequest \<lparr>cr_ChunkHashes = hs, cr_Priority = 1\<rparr>) \<and>
      fits cd MESSAGE_TYPE_CHUNK_RESPONSE i (MsgChunkResponse (serve_chunks sR fsR \<lparr>cr_ChunkHashes = hs, cr_Priority = 1\<rparr>))"
  shows "download H cd (\<lambda>n. no_faults) (\<lambda>k. False) s (\<lambda>k. served cd t p) k n batches peer fs =
    (None, blobs.put_all s (map (\<lambda>h. received H (the (store_content sR fsR h))) (concat batches)) fs)"
  using assms(4,5)
proof (induction batches arbitrary: k n peer fs)
  case Nil
  then show ?case by (simp add: blobs.put_all_def)
next
  case (Cons hs batches)
  let ?resp = "serve_chunks sR fsR \<lparr>cr_ChunkHashes = hs, cr_Priority = 1\<rparr>"
  have req: "RequestChunks cd (served cd t p) peer hs = (Inr ?resp, peer\<lparr>pr_nextReqID := pr_nextReqID peer + 1\<rparr>)"
    unfolding served_def by (rule RequestChunks_served [OF assms(1,2)]) (use Cons.prems(2) in auto)
  have "map pc_Data (cs_Chunks ?resp) = map (\<lambda>h. the (store_content sR fsR h)) hs"
    by (rule serve_chunks_found [OF assms(3)]) (use Cons.prems(1) in auto)
  from arg_cong [OF this, of "map (received H)"]
  have "map (\<lambda>c. received H (pc_Data c)) (cs_Chunks ?resp) = map (\<lambda>h. received H (the (store_content sR fsR h))) hs"
    by (simp add: comp_def)
  then show ?case using Cons req by (simp add: store_received_spec put_all_append)
qed

lemma in_blocks: "ks \<in> set (blocks n xs) \<Longrightarrow> 0 < n \<Longrightarrow> set ks \<subseteq> set xs \<and> length ks \<le> n"
proof -
  assume "ks \<in> set (blocks n xs)" "0 < n"
  moreover from this have "set ks \<subseteq> set (concat (blocks n xs))" unfolding set_concat by blast
  ultimately show ?thesis using blocks_bounds [of ks n xs] by simp
qed

lemma download_needed:
  assumes "codec_ok cd" "cf_OnChunkRequest (tp_config t) = Some (\<lambda>p req. Some (serve_chunks sR fsR req))"
    and "store_inv sR fsR" "set needed \<subseteq> S" "\<forall>h \<in> S. length h = 32" "S \<subseteq> dom (store_content sR fsR)"
    and fits: "\<forall>hs i. set hs \<subseteq> S \<and> length hs \<le> 10 \<longrightarrow>
        fits cd MESSAGE_TYPE_CHUNK_REQUEST i (MsgChunkRequest \<lparr>cr_ChunkHashes = hs, cr_Priority = 1\<rparr>) \<and>
        fits cd MESSAGE_TYPE_CHUNK_RESPONSE i (MsgChunkResponse (serve_chunks sR fsR \<lparr>cr_ChunkHashes = hs, cr_Priority = 1\<rparr>))"
  shows "download H cd (\<lambda>n. no_faults) (\<lambda>k. False) s (\<lambda>k. served cd t p) 0 0 (blocks 10 needed) peer fs =
    (None, blobs.put_all s (map (\<lambda>h. received H (the (store_content sR fsR h))) needed) fs)"
proof (subst download_spec [OF assms(1-3)])
  have eq: "concat (blocks 10 needed) = needed" by simp
  show "\<forall>h \<in> set (concat (blocks 10 needed)). length h = 32 \<and> h \<in> dom (store_content sR fsR)"
    unfolding eq using assms(4-6) by blast
  show "\<forall>hs \<in> set (blocks 10 needed). \<forall>i. fits cd MESSAGE_TYPE_CHUNK_REQUEST i (MsgChunkRequest \<lparr>cr_ChunkHashes = hs, cr_Priority = 1\<rparr>) \<and>
      fits cd MESSAGE_TYPE_CHUNK_RESPONSE i (MsgChunkResponse (serve_chunks sR fsR \<lparr>cr_ChunkHashes = hs, cr_Priority = 1\<rparr>))"
  proof
    fix hs assume "hs \<in> set (blocks 10 needed)"
    then have "set hs \<subseteq> S \<and> length hs \<le> 10" using in_blocks [of hs 10 needed] assms(4) by auto
    then show "\<forall>i. fits cd MESSAGE_TYPE_CHUNK_REQUEST i (MsgChunkRequest \<lparr>cr_ChunkHashes = hs, cr_Priority = 1\<rparr>) \<and>
      fits cd MESSAGE_TYPE_CHUNK_RESPONSE i (MsgChunkResponse (serve_chunks sR fsR \<lparr>cr_ChunkHashes = hs, cr_Priority = 1\<rparr>))"
      using fits by blast
  qed
qed simp

lemma put_received:
  assumes "store_inv s fs" "\<forall>x. length (H x) = 32" "blobs.sound s H fs"
  defines "fs' ds \<equiv> blobs.put_all s (map (received H) ds) fs"
  shows "store_inv s (fs' ds)" "store_content s fs \<subseteq>\<^sub>m store_content s (fs' ds)"
    "H ` set ds \<subseteq> dom (store_content s (fs' ds))" "blobs.sound s H (fs' ds)"
    "ran (store_content s (fs' ds)) \<subseteq> ran (store_content s fs) \<union> set ds"
    "\<not> prefix (bst_baseDir s) q \<Longrightarrow> fs' ds q = fs q"
proof -
  have len: "\<forall>c \<in> set (map (received H) ds). length (ch_Hash c) = 32" using assms(2) by (simp add: received_def)
  note * = blobs.put_all_content [OF assms(1) this]
  show "store_inv s (fs' ds)" "store_content s fs \<subseteq>\<^sub>m store_content s (fs' ds)"
    "H ` set ds \<subseteq> dom (store_content s (fs' ds))"
    using * by (auto simp: fs'_def received_def)
  have new: "store_content s fs h = Some d \<or> d \<in> set ds \<and> H d = h" if "store_content s (fs' ds) h = Some d" for h d
    using * that unfolding fs'_def by (auto simp: received_def)
  show "blobs.sound s H (fs' ds)" using new assms(3) unfolding blobs.sound_def by blast
  show "ran (store_content s (fs' ds)) \<subseteq> ran (store_content s fs) \<union> set ds"
    using new by (fastforce simp: ran_def)
  show "fs' ds q = fs q" if "\<not> prefix (bst_baseDir s) q"
    unfolding fs'_def by (rule put_all_outside [OF assms(1) len that])
qed


section \<open>What the comparison reports\<close>

lemma DiffTrees_spec:
  assumes "\<And>p ns. set (ord p ns) = set ns" "l \<noteq> None \<or> r \<noteq> None"
  shows "\<exists>d. DiffTrees ord l r = Inr d \<and> set (td_Added d) = added l r \<and> set (td_Modified d) = modified l r \<and>
    set (td_Deleted d) = deleted [] l r"
  using diffNode_spec [of ord l r "[]" "\<lparr>td_Added = [], td_Modified = [], td_Deleted = []\<rparr>", OF assms]
  by (auto simp: DiffTrees_def TreeDiff.extend_def)

fun man_chunks :: "PManifestNode \<Rightarrow> bytes list" where
  "man_chunks (PManifestNode name isDir hash mode sz children chunks) = chunks @ concat (map man_chunks children)"

lemma collectMissingChunks_spec: "collectMissingChunks n s fs = filter (\<lambda>h. \<not> Has s h fs) (man_chunks n)"
  by (induction n s fs rule: collectMissingChunks.induct) (simp add: filter_concat comp_def cong: map_cong)

lemma mchild_Some:
  "distinct (map pn_Name (pn_Children n)) \<Longrightarrow> mchild n x = Some c \<longleftrightarrow> c \<in> set (pn_Children n) \<and> pn_Name c = x"
  by (auto simp: mchild_def rev_map [symmetric] comp_def map_of_eq_Some_iff)

lemma mchild_mem: "mchild n x = Some c \<Longrightarrow> c \<in> set (pn_Children n) \<and> pn_Name c = x"
  by (auto simp: mchild_def dest: map_of_SomeD)

text \<open>
  Two trees agree on kinds when no path is a file in one and a directory in the other, and their hashes
  tell when nodes with equal hashes have equal chunks.
\<close>

definition same_kinds :: "PManifestNode \<Rightarrow> PManifestNode \<Rightarrow> bool" where
  "same_kinds l r \<longleftrightarrow> (\<forall>xs a b. mnode_at (Some l) xs = Some a \<longrightarrow> mnode_at (Some r) xs = Some b \<longrightarrow> pn_IsDir a = pn_IsDir b)"

definition hashes_tell :: "PManifestNode \<Rightarrow> PManifestNode \<Rightarrow> bool" where
  "hashes_tell l r \<longleftrightarrow> (\<forall>xs a b. mnode_at (Some l) xs = Some a \<longrightarrow> mnode_at (Some r) xs = Some b \<longrightarrow>
     pn_Hash a = pn_Hash b \<longrightarrow> set (man_chunks a) = set (man_chunks b))"

lemma tells_child:
  assumes "mchild l x = Some a" "mchild r x = Some b"
  shows "same_kinds l r \<Longrightarrow> same_kinds a b" "hashes_tell l r \<Longrightarrow> hashes_tell a b"
proof -
  have at: "mnode_at (Some l) (x # xs) = mnode_at (Some a) xs" "mnode_at (Some r) (x # xs) = mnode_at (Some b) xs" for xs
    using assms by simp_all
  show "same_kinds a b" if "same_kinds l r" using that unfolding same_kinds_def at [symmetric] by blast
  show "hashes_tell a b" if "hashes_tell l r" using that unfolding hashes_tell_def at [symmetric] by blast
qed

fun dirs_plain :: "PManifestNode \<Rightarrow> bool" where
  "dirs_plain (PManifestNode name isDir hash mode sz children chunks) \<longleftrightarrow>
     (isDir \<longrightarrow> chunks = []) \<and> (\<not> isDir \<longrightarrow> children = []) \<and> distinct (map pn_Name children) \<and> list_all dirs_plain children"

lemma dirs_plainD:
  assumes "dirs_plain n"
  shows "pn_IsDir n \<Longrightarrow> man_chunks n = concat (map man_chunks (pn_Children n))" "distinct (map pn_Name (pn_Children n))"
    "c \<in> set (pn_Children n) \<Longrightarrow> dirs_plain c"
  using assms by (cases n; auto simp: list_all_iff)+

lemma man_chunks_child: "c \<in> set (pn_Children n) \<Longrightarrow> set (man_chunks c) \<subseteq> set (man_chunks n)"
  by (cases n) auto

text \<open>Every chunk of the remote tree is a chunk of the local tree or of a reported node.\<close>

lemma diff_covers:
  assumes "dirs_plain r" "same_kinds l r" "hashes_tell l r"
  shows "set (man_chunks r) \<subseteq> set (man_chunks l) \<union>
    (\<Union>n \<in> added (Some l) (Some r) \<union> modified (Some l) (Some r). set (man_chunks n))"
  using assms
proof (induction "size r" arbitrary: l r rule: less_induct)
  case less
  have root: "pn_IsDir l = pn_IsDir r" "pn_Hash l = pn_Hash r \<Longrightarrow> set (man_chunks l) = set (man_chunks r)"
  proof -
    have "mnode_at (Some l) [] = Some l" "mnode_at (Some r) [] = Some r" by simp_all
    then show "pn_IsDir l = pn_IsDir r" "pn_Hash l = pn_Hash r \<Longrightarrow> set (man_chunks l) = set (man_chunks r)"
      using less.prems(2,3) unfolding same_kinds_def hashes_tell_def by blast+
  qed
  consider "pn_Hash l = pn_Hash r" | "pn_Hash l \<noteq> pn_Hash r" "\<not> pn_IsDir r" | "pn_Hash l \<noteq> pn_Hash r" "pn_IsDir r" by blast
  then show ?case
  proof cases
    case 1
    then show ?thesis using root by blast
  next
    case 2
    then show ?thesis using root by (simp add: spec_both)
  next
    case 3
    then have op: "open_pair l r" by simp
    show ?thesis
    proof
      fix h assume "h \<in> set (man_chunks r)"
      then obtain c where c: "c \<in> set (pn_Children r)" "h \<in> set (man_chunks c)"
        using dirs_plainD(1) [OF less.prems(1) 3(2)] by auto
      let ?x = "pn_Name c"
      have mc: "mchild r ?x = Some c" using c(1) mchild_Some [OF dirs_plainD(2) [OF less.prems(1)]] by blast
      have up: "added (mchild l ?x) (Some c) \<subseteq> added (Some l) (Some r)" "modified (mchild l ?x) (Some c) \<subseteq> modified (Some l) (Some r)"
        unfolding spec_both if_P [OF op] mc [symmetric] by blast+
      show "h \<in> set (man_chunks l) \<union> (\<Union>n \<in> added (Some l) (Some r) \<union> modified (Some l) (Some r). set (man_chunks n))"
      proof (cases "mchild l ?x")
        case None
        then have "c \<in> added (Some l) (Some r)" using up(1) by (simp add: spec_one_side)
        then show ?thesis using c(2) by blast
      next
        case (Some a)
        have "set (man_chunks c) \<subseteq> set (man_chunks a) \<union>
            (\<Union>n \<in> added (Some a) (Some c) \<union> modified (Some a) (Some c). set (man_chunks n))"
          using less.hyps [OF mchild_size [OF mc]] dirs_plainD(3) [OF less.prems(1) c(1)]
            tells_child [OF Some mc] less.prems(2,3) by blast
        moreover have "set (man_chunks a) \<subseteq> set (man_chunks l)" using man_chunks_child mchild_mem [OF Some] by blast
        ultimately show ?thesis using c(2) up [unfolded Some] by blast
      qed
    qed
  qed
qed

text \<open>Nothing else is reported than nodes of the remote tree.\<close>

lemma mnode_chunks: "mnode_at n xs = Some b \<Longrightarrow> \<exists>m. n = Some m \<and> set (man_chunks b) \<subseteq> set (man_chunks m)"
proof (induction n xs rule: mnode_at.induct)
  case (2 n x xs)
  then obtain m c where m: "n = Some m" "mchild m x = Some c" "set (man_chunks b) \<subseteq> set (man_chunks c)"
    by (auto simp: bind_eq_Some_conv)
  then show ?case using man_chunks_child mchild_mem [OF m(2)] by blast
qed simp

lemma reported_chunks:
  "n \<in> added l (Some r) \<union> modified l (Some r) \<Longrightarrow> set (man_chunks n) \<subseteq> set (man_chunks r)"
  using mnode_chunks by (fastforce simp: added_def modified_def)


section \<open>Manifests of directories\<close>

lemma convert_fields [simp]:
  "pn_Name (convertTreeToManifest n) = nd_Name n" "pn_Hash (convertTreeToManifest n) = nd_Hash n"
  "pn_IsDir (convertTreeToManifest n) \<longleftrightarrow> nd_Type n = NodeTypeDir"
  "pn_Children (convertTreeToManifest n) = map convertTreeToManifest (nd_Children n)"
  "pn_Chunks (convertTreeToManifest n) = (if nd_Type n = NodeTypeFile then nd_Chunks n else [])"
  by (cases n; simp)+

lemma map_pointwise:
  "map f xs = map g ys \<Longrightarrow> (\<And>x y. x \<in> set xs \<Longrightarrow> y \<in> set ys \<Longrightarrow> f x = g y \<Longrightarrow> F x = G y) \<Longrightarrow> map F xs = map G ys"
proof (induction xs arbitrary: ys)
  case (Cons x xs)
  then show ?case by (cases ys) auto
qed simp

lemma dirs_plain_convert: "node_ok H n \<Longrightarrow> dirs_plain (convertTreeToManifest n)"
proof (induction n rule: convertTreeToManifest.induct)
  case (1 name ty hash mode sz children chunks)
  then show ?case by (cases ty) (auto simp: list_all_iff comp_def)
qed

fun content_chunks :: "tree_content \<Rightarrow> bytes list" where
  "content_chunks (CFile cs) = cs"
| "content_chunks (CDir xs) = concat (map (\<lambda>(n, c). content_chunks c) xs)"

lemma man_chunks_convert: "node_ok H n \<Longrightarrow> man_chunks (convertTreeToManifest n) = content_chunks (content n)"
  by (induction n rule: convertTreeToManifest.induct) (auto simp: list_all_iff comp_def split: if_splits intro!: arg_cong [of _ _ concat])

lemma content_chunks_view: "content_chunks (hash_view H v) = map H (view_blocks v)"
  by (induction v rule: view_blocks.induct) (auto simp: map_concat comp_def case_prod_beta intro!: arg_cong [of _ _ concat])

lemma mnode_convert:
  "node_ok H n \<Longrightarrow> mnode_at (Some (convertTreeToManifest n)) xs = Some a \<Longrightarrow>
    \<exists>m. a = convertTreeToManifest m \<and> set (subnodes m) \<subseteq> set (subnodes n) \<and> node_ok H m"
proof (induction xs arbitrary: n)
  case (Cons x xs)
  then obtain c where c: "mchild (convertTreeToManifest n) x = Some c" "mnode_at (Some c) xs = Some a"
    by (cases "mchild (convertTreeToManifest n) x") simp_all
  then obtain m where m: "m \<in> set (nd_Children n)" "c = convertTreeToManifest m" using mchild_mem [OF c(1)] by auto
  then show ?case using Cons.IH [of m] c(2) node_okD(5) [OF Cons.prems(1) m(1)] subnodes_child [OF m(1)] by blast
qed auto

lemma hashes_tell_convert:
  assumes "hash_faithful (set (subnodes l) \<union> set (subnodes r))" "node_ok H l" "node_ok H r"
  shows "hashes_tell (convertTreeToManifest l) (convertTreeToManifest r)"
  unfolding hashes_tell_def
proof (intro allI impI)
  fix xs a b
  assume "mnode_at (Some (convertTreeToManifest l)) xs = Some a" "mnode_at (Some (convertTreeToManifest r)) xs = Some b"
    "pn_Hash a = pn_Hash b"
  then obtain m n where mn: "a = convertTreeToManifest m" "set (subnodes m) \<subseteq> set (subnodes l)" "node_ok H m"
      "b = convertTreeToManifest n" "set (subnodes n) \<subseteq> set (subnodes r)" "node_ok H n"
    using mnode_convert assms(2,3) by metis
  then have "content m = content n"
    using hash_content [OF assms(1), of m n] \<open>pn_Hash a = pn_Hash b\<close> by auto
  then show "set (man_chunks a) = set (man_chunks b)" using mn man_chunks_convert by metis
qed

text \<open>The files of a directory, by their paths, and the condition that names are single components.\<close>

fun view_files :: "view \<Rightarrow> (path \<times> bytes) list" where
  "view_files (VFile b) = [([], b)]"
| "view_files (VDir xs) = concat (map (\<lambda>(n, v). map (\<lambda>(p, b). (n # p, b)) (view_files v)) xs)"

fun names_ok :: "view \<Rightarrow> bool" where
  "names_ok (VFile b) = True"
| "names_ok (VDir xs) = list_all (\<lambda>(n, v). plain n \<and> names_ok v) xs"

abbreviation nonempty_files :: "view \<Rightarrow> (path \<times> bytes) list" where
  "nonempty_files v \<equiv> filter (\<lambda>(p, b). b \<noteq> []) (view_files v)"

lemma content_dir:
  "content n = hash_view H (VDir xs) \<Longrightarrow> nd_Type n = NodeTypeDir \<and>
    map (\<lambda>c. (nd_Name c, content c)) (nd_Children n) = map (\<lambda>(n, v). (n, hash_view H v)) xs"
  by (cases "nd_Type n") (auto simp: content_eq [of n])

lemma content_file: "content n = hash_view H (VFile b) \<Longrightarrow> nd_Type n = NodeTypeFile \<and> nd_Chunks n = map H (blocks ChunkSize b)"
  by (cases "nd_Type n") (auto simp: content_eq [of n])


lemma files_of_concat: "files_of (concat xss) = concat (map files_of xss)"
  by (induction xss) (simp_all add: files_of_def)

lemma blocks_Nil_iff: "blocks ChunkSize b = [] \<longleftrightarrow> b = []"
  by (cases b) (simp_all add: ChunkSize_def blocks_step)

lemma files_of_convert:
  "node_ok H n \<Longrightarrow> content n = hash_view H v \<Longrightarrow> files_of (rel_items rel (convertTreeToManifest n)) =
    map (\<lambda>(p, b). (rel @ nd_Name n # p, map H (blocks ChunkSize b))) (nonempty_files v)"
proof (induction v arbitrary: n rel)
  case (VFile b)
  then have "nd_Type n = NodeTypeFile" "nd_Chunks n = map H (blocks ChunkSize b)" using content_file by blast+
  then show ?case by (cases n) (simp add: files_of_def blocks_Nil_iff)
next
  case (VDir xs)
  note d = content_dir [OF VDir.prems(2)]
  let ?f = "\<lambda>c. files_of (rel_items (rel @ [nd_Name n]) (convertTreeToManifest c))"
  let ?g = "\<lambda>(x, v). map (\<lambda>(p, b). ((rel @ [nd_Name n]) @ x # p, map H (blocks ChunkSize b))) (nonempty_files v)"
  have "map ?f (nd_Children n) = map ?g xs"
  proof (rule map_pointwise [OF conjunct2 [OF d]])
    fix c xv assume "c \<in> set (nd_Children n)" "xv \<in> set xs" "(nd_Name c, content c) = (\<lambda>(n, v). (n, hash_view H v)) xv"
    then show "?f c = ?g xv"
      using VDir.IH [of xv "snd xv" c "rel @ [nd_Name n]"] node_okD(5) [OF VDir.prems(1), of c]
      by (cases xv) (simp add: snds.intros)
  qed
  moreover have "files_of (rel_items rel (convertTreeToManifest n)) = concat (map ?f (nd_Children n))"
    using conjunct1 [OF d] files_of_concat by (cases n) (simp add: files_of_def [of "_ # _"] files_of_def [symmetric] comp_def)
  moreover have "map (\<lambda>(p, b). (rel @ nd_Name n # p, map H (blocks ChunkSize b))) (nonempty_files (VDir xs)) = concat (map ?g xs)"
    by (simp add: filter_concat map_concat comp_def case_prod_beta' filter_map)
  ultimately show ?case by argo
qed

text \<open>The root contributes no name: its files are those of its children.\<close>

abbreviation root_items :: "PManifestNode \<Rightarrow> (path \<times> bool \<times> bytes list) list" where
  "root_items m \<equiv> concat (map (rel_items []) (pn_Children m))"

lemma root_files:
  assumes "node_ok H n" "content n = hash_view H (VDir xs)"
  shows "files_of (root_items (convertTreeToManifest n)) =
    map (\<lambda>(p, b). (p, map H (blocks ChunkSize b))) (nonempty_files (VDir xs))"
proof -
  let ?f = "\<lambda>c. files_of (rel_items [] (convertTreeToManifest c))"
  let ?g = "\<lambda>(x, v). map (\<lambda>(p, b). (x # p, map H (blocks ChunkSize b))) (nonempty_files v)"
  have "map ?f (nd_Children n) = map ?g xs"
  proof (rule map_pointwise [OF conjunct2 [OF content_dir [OF assms(2)]]])
    fix c xv assume "c \<in> set (nd_Children n)" "xv \<in> set xs" "(nd_Name c, content c) = (\<lambda>(n, v). (n, hash_view H v)) xv"
    then show "?f c = ?g xv"
      using files_of_convert [of H c "snd xv" "[]"] node_okD(5) [OF assms(1), of c] by (cases xv) simp
  qed
  then have "concat (map ?f (nd_Children n)) = concat (map ?g xs)" by argo
  then show ?thesis by (simp add: files_of_concat comp_def filter_concat map_concat case_prod_beta' filter_map)
qed

lemma man_ok_convert:
  "node_ok H n \<Longrightarrow> content n = hash_view H v \<Longrightarrow> names_ok v \<Longrightarrow> man_ok (convertTreeToManifest n)"
proof (induction v arbitrary: n)
  case (VFile b)
  then show ?case using content_file [of n H b] by (cases n) auto
next
  case (VDir xs)
  note d = content_dir [OF VDir.prems(2)]
  have "plain (nd_Name c) \<and> man_ok (convertTreeToManifest c)" if "c \<in> set (nd_Children n)" for c
  proof -
    have "(nd_Name c, content c) \<in> set (map (\<lambda>(n, v). (n, hash_view H v)) xs)" unfolding conjunct2 [OF d, symmetric] using that by simp
    then obtain v where v: "(nd_Name c, v) \<in> set xs" "content c = hash_view H v" by auto
    then show ?thesis
      using VDir.IH [of "(nd_Name c, v)" v c] VDir.prems(3) node_okD(5) [OF VDir.prems(1) that]
      by (auto simp: list_all_iff)
  qed
  then show ?case using node_okD(4) [OF VDir.prems(1)] by (cases n) (auto simp: list_all_iff comp_def)
qed

text \<open>Paths of items and of files are paths of the tree.\<close>

lemma rel_items_mnode:
  "dirs_plain node \<Longrightarrow> (p, d, cs) \<in> set (rel_items rel node) \<Longrightarrow>
    \<exists>q m. p = rel @ pn_Name node # q \<and> mnode_at (Some node) q = Some m \<and> pn_IsDir m = d \<and> pn_Chunks m = cs"
proof (induction rel node arbitrary: p d cs rule: rel_items.induct)
  case (1 rel name isDir hash mode sz children chunks)
  let ?n = "PManifestNode name isDir hash mode sz children chunks"
  from "1.prems"(2) consider "p = rel @ [name]" "d = isDir" "cs = chunks"
    | c where isDir "c \<in> set children" "(p, d, cs) \<in> set (rel_items (rel @ [name]) c)" by (auto split: if_splits)
  then show ?case
  proof cases
    case 1
    then show ?thesis by (intro exI [of _ "[]"] exI [of _ ?n]) simp
  next
    case (2 c)
    have "dirs_plain c" "distinct (map pn_Name (pn_Children ?n))" using "1.prems"(1) 2(2) by (auto simp: list_all_iff)
    with "1.IH" [OF 2(1,2) _ 2(3)] obtain q m where "p = (rel @ [name]) @ pn_Name c # q" "mnode_at (Some c) q = Some m"
      "pn_IsDir m = d" "pn_Chunks m = cs" by blast
    moreover have "mchild ?n (pn_Name c) = Some c"
      using mchild_Some [OF \<open>distinct (map pn_Name (pn_Children ?n))\<close>] 2(2) by simp
    ultimately show ?thesis by (intro exI [of _ "pn_Name c # q"] exI [of _ m]) simp
  qed
qed

lemma root_items_mnode:
  assumes "dirs_plain root" "(p, d, cs) \<in> set (root_items root)"
  shows "\<exists>m. p \<noteq> [] \<and> mnode_at (Some root) p = Some m \<and> pn_IsDir m = d \<and> pn_Chunks m = cs"
proof -
  obtain c where c: "c \<in> set (pn_Children root)" "(p, d, cs) \<in> set (rel_items [] c)" using assms(2) by auto
  then obtain q m where "p = pn_Name c # q" "mnode_at (Some c) q = Some m" "pn_IsDir m = d" "pn_Chunks m = cs"
    using rel_items_mnode [OF dirs_plainD(3) [OF assms(1) c(1)] c(2)] by auto
  moreover have "mchild root (pn_Name c) = Some c" using mchild_Some [OF dirs_plainD(2) [OF assms(1)]] c(1) by blast
  ultimately show ?thesis by simp
qed

lemma mnode_plain: "man_ok m \<Longrightarrow> mnode_at (Some m) xs = Some c \<Longrightarrow> list_all plain xs"
proof (induction xs arbitrary: m)
  case (Cons x xs)
  then obtain k where k: "mchild m x = Some k" "mnode_at (Some k) xs = Some c" by (cases "mchild m x") simp_all
  have "plain x" "man_ok k" using mchild_mem [OF k(1)] Cons.prems(1) by (cases m; auto simp: list_all_iff)+
  then show ?case using Cons.IH k(2) by simp
qed simp


section \<open>Deleting\<close>

lemma child_path_plain: "list_all plain xs \<Longrightarrow> xs \<noteq> [] \<Longrightarrow> foldl child_path [] xs = join_slash xs"
proof (induction xs rule: rev_induct)
  case (snoc x xs)
  show ?case
  proof (cases "xs = []")
    case False
    then have "join_slash xs \<noteq> []"
      using join_slash_hd [of xs] snoc.prems(1) by (cases xs) (auto simp: plain_def comp_ok_def)
    then show ?thesis using snoc False filepath_Join_plain [of xs x] by (simp add: child_path_def)
  qed (simp add: child_path_def)
qed simp

lemma abs_join_path: "list_all plain xs \<Longrightarrow> xs \<noteq> [] \<Longrightarrow> abs_join base [] (join_slash xs) = base @ xs"
  by (subst abs_join_def, subst split_join) (auto simp: clean_plain list_all_iff plain_def comp_ok_def)

lemma os_Remove_frame: "q \<noteq> p \<Longrightarrow> snd (os_Remove ns fs p) q = fs q"
  "is_file (fs q) \<or> fs q = None \<Longrightarrow> snd (os_Remove ns fs q) q = None"
  by (auto simp: os_Remove_def split: option.split inode.split)

lemma delete_paths_spec:
  "q \<notin> abs_join base [] ` set paths \<Longrightarrow> delete_paths below base paths fs q = fs q"
  "fs q = None \<Longrightarrow> delete_paths below base paths fs q = None"
  "q \<in> abs_join base [] ` set paths \<Longrightarrow> is_file (fs q) \<Longrightarrow> delete_paths below base paths fs q = None"
proof -
  have step: "delete_paths below base (p # ps) fs =
    delete_paths below base ps (snd (os_Remove (below fs (abs_join base [] p)) fs (abs_join base [] p)))" for p ps fs
    by (simp add: delete_paths_def Let_def)
  show "q \<notin> abs_join base [] ` set paths \<Longrightarrow> delete_paths below base paths fs q = fs q"
    by (induction paths arbitrary: fs) (simp add: delete_paths_def, simp add: step os_Remove_frame)
  show none: "fs q = None \<Longrightarrow> delete_paths below base paths fs q = None" for fs paths
  proof (induction paths arbitrary: fs)
    case (Cons p ps)
    then show ?case by (cases "q = abs_join base [] p") (simp_all add: step os_Remove_frame)
  qed (simp add: delete_paths_def)
  show "q \<in> abs_join base [] ` set paths \<Longrightarrow> is_file (fs q) \<Longrightarrow> delete_paths below base paths fs q = None"
  proof (induction paths arbitrary: fs)
    case (Cons p ps)
    show ?case
    proof (cases "q = abs_join base [] p")
      case True
      then show ?thesis using Cons.prems(2) unfolding step True [symmetric] by (intro none os_Remove_frame(2)) simp
    next
      case False
      then show ?thesis using Cons by (auto simp: step os_Remove_frame(1))
    qed
  qed simp
qed

text \<open>The paths to delete are those of the tree; no remote node has one of them.\<close>

lemma deleted_paths:
  assumes "man_ok l"
  shows "abs_join base [] ` deleted [] (Some l) (Some r) =
    {base @ xs | xs. reached (Some l) (Some r) xs \<and> mnode_at (Some l) xs \<noteq> None \<and> mnode_at (Some r) xs = None}"
proof -
  let ?X = "{xs. reached (Some l) (Some r) xs \<and> mnode_at (Some l) xs \<noteq> None \<and> mnode_at (Some r) xs = None}"
  have "abs_join base [] (foldl child_path [] xs) = base @ xs"
    if "mnode_at (Some l) xs \<noteq> None" "mnode_at (Some r) xs = None" for xs
  proof -
    have "xs \<noteq> []" using that(2) by auto
    moreover have "list_all plain xs" using mnode_plain [OF assms] that(1) by auto
    ultimately show ?thesis by (simp add: child_path_plain abs_join_path)
  qed
  then have "(\<lambda>xs. abs_join base [] (foldl child_path [] xs)) ` ?X = (\<lambda>xs. base @ xs) ` ?X" by (intro image_cong) auto
  moreover have "deleted [] (Some l) (Some r) = foldl child_path [] ` ?X" by (auto simp: deleted_def)
  ultimately show ?thesis by (auto simp: image_image)
qed


section \<open>One synchronisation\<close>

lemma clear_outside:
  assumes "clear base fs p d" "outside p" "\<And>q. \<not> prefix (bst_baseDir (store_of base)) q \<Longrightarrow> fs' q = fs q"
  shows "clear base fs' p d"
proof -
  have "\<not> prefix (bst_baseDir (store_of base)) (base @ take n p)" for n
  proof (cases n)
    case 0
    then show ?thesis by (simp add: store_of_def storage_dir_simp)
  next
    case (Suc k)
    then have "outside (take n p)" using assms(2) by (cases p) (auto simp: outside_def)
    then show ?thesis by (rule outside_storage)
  qed
  then have "fs' (base @ take n p) = fs (base @ take n p)" for n using assms(3) by blast
  moreover have "fs' (base @ p) = fs (base @ p)" using assms(2,3) outside_storage by blast
  ultimately show ?thesis using assms(1) by (simp add: clear_def)
qed

text \<open>What has to be downloaded.\<close>

lemma needed_chunks_set:
  assumes "set (td_Added d) = added l (Some r)" "set (td_Modified d) = modified l (Some r)"
  shows "set (needed_chunks d s fs) = {h. \<not> Has s h fs \<and> (\<exists>n \<in> added l (Some r) \<union> modified l (Some r). h \<in> set (man_chunks n))}"
  by (auto simp: needed_chunks_def collectMissingChunks_spec assms)

lemma needed_enough:
  assumes "store_inv s fs" "dirs_plain r" "same_kinds l r" "hashes_tell l r"
    and "set (man_chunks l) \<subseteq> dom (store_content s fs)" "\<forall>h \<in> set (man_chunks r). length h = 32"
    and "set (td_Added d) = added (Some l) (Some r)" "set (td_Modified d) = modified (Some l) (Some r)"
  shows "set (needed_chunks d s fs) \<subseteq> set (man_chunks r)"
    and "set (man_chunks r) \<subseteq> dom (store_content s fs) \<union> set (needed_chunks d s fs)"
proof -
  note set = needed_chunks_set [OF assms(7,8), of s fs]
  show "set (needed_chunks d s fs) \<subseteq> set (man_chunks r)" unfolding set using reported_chunks by blast
  show "set (man_chunks r) \<subseteq> dom (store_content s fs) \<union> set (needed_chunks d s fs)"
  proof
    fix h assume h: "h \<in> set (man_chunks r)"
    then have "Has s h fs \<longleftrightarrow> h \<in> dom (store_content s fs)" using blobs.has_law [OF assms(1)] assms(6) by auto
    then show "h \<in> dom (store_content s fs) \<union> set (needed_chunks d s fs)"
      unfolding set using diff_covers [OF assms(2-4)] assms(5) h by blast
  qed
qed

text \<open>After the download the store has the data of every remote block under its hash.\<close>

lemma downloaded:
  assumes "store_inv s fs" "\<forall>x. length (H x) = 32" "blobs.sound s H fs" "blobs.sound sR H fsR"
    and "set needed \<subseteq> dom (store_content sR fsR)"
    and "H ` set bs \<subseteq> dom (store_content s fs) \<union> set needed"
    and "collision_free H (ran (store_content s fs) \<union> ran (store_content sR fsR) \<union> set bs)"
    and fs1: "fs1 = blobs.put_all s (map (\<lambda>h. received H (the (store_content sR fsR h))) needed) fs"
  shows "store_inv s fs1" and "b \<in> set bs \<Longrightarrow> store_content s fs1 (H b) = Some b"
    and "\<not> prefix (bst_baseDir s) q \<Longrightarrow> fs1 q = fs q"
proof -
  let ?ds = "map (\<lambda>h. the (store_content sR fsR h)) needed"
  have eq: "fs1 = blobs.put_all s (map (received H) ?ds) fs" by (simp add: fs1 comp_def)
  note put = put_received [OF assms(1-3), where ds = ?ds, folded eq]
  show "store_inv s fs1" "\<not> prefix (bst_baseDir s) q \<Longrightarrow> fs1 q = fs q" using put by blast+
  have R: "store_content sR fsR h = Some (the (store_content sR fsR h))" "H (the (store_content sR fsR h)) = h"
    if "h \<in> set needed" for h
    using assms(4,5) that unfolding blobs.sound_def by auto
  have "set ?ds \<subseteq> ran (store_content sR fsR)" using R(1) by (auto simp: ran_def)
  then have ran: "ran (store_content s fs1) \<subseteq> ran (store_content s fs) \<union> ran (store_content sR fsR)" using put(5) by blast
  assume b: "b \<in> set bs"
  have "H b \<in> dom (store_content s fs1)"
  proof (cases "H b \<in> set needed")
    case True
    then have "the (store_content sR fsR (H b)) \<in> set ?ds" by simp
    from imageI [OF this, of H] show ?thesis unfolding R(2) [OF True] using put(3) by blast
  next
    case False
    then have "H b \<in> dom (store_content s fs)" using assms(6) b by blast
    then show ?thesis using map_le_implies_dom_le [OF put(2)] by blast
  qed
  then obtain d where d: "store_content s fs1 (H b) = Some d" by auto
  then have "H d = H b" "d \<in> ran (store_content s fs1)" using put(4) by (auto simp: blobs.sound_def ran_def)
  then have "d = b" using ran b collision_freeD [OF assms(7), of d b] by blast
  then show "store_content s fs1 (H b) = Some b" using d by simp
qed

end
