(* ===== verification/Clone.thy ===== *)
theory Clone
  imports SyncSteps
begin

text \<open>
  One run of \<open>syncCmd\<close> against a daemon started by \<open>serveCmd\<close>: rebuilding and deleting after the download,
  the two ends of the connection, and the theorem that the run makes the local files those of the
  remote directory.
\<close>

section \<open>Rebuilding and deleting\<close>

text \<open>Rebuilding from a store that has every block, and deleting.\<close>

lemma data_of_blocks: "(\<And>d. d \<in> set (blocks ChunkSize b) \<Longrightarrow> M (H d) = Some d) \<Longrightarrow> data_of M (map H (blocks ChunkSize b)) = b"
proof -
  assume "\<And>d. d \<in> set (blocks ChunkSize b) \<Longrightarrow> M (H d) = Some d"
  then have "map (\<lambda>d. the (M (H d))) (blocks ChunkSize b) = blocks ChunkSize b" by (simp add: map_idI)
  then show ?thesis by (simp add: data_of_def comp_def ChunkSize_def)
qed

lemma view_files_blocks: "(p, b) \<in> set (view_files v) \<Longrightarrow> set (blocks ChunkSize b) \<subseteq> set (view_blocks v)"
proof (induction v arbitrary: p rule: view_files.induct)
  case (2 xs)
  then obtain n v q where "(n, v) \<in> set xs" "(q, b) \<in> set (view_files v)" by auto
  then have "set (blocks ChunkSize b) \<subseteq> set (view_blocks v)" "set (view_blocks v) \<subseteq> set (view_blocks (VDir xs))"
    using "2.IH" [of "(n, v)" n v q] by auto
  then show ?case by blast
qed simp

lemma not_below: "(\<And>p x. (p, x) \<in> S \<Longrightarrow> P p) \<Longrightarrow> \<not> P q \<Longrightarrow> base @ q \<notin> (\<lambda>(p, _). base @ p) ` S"
  by auto

lemma mirror_files:
  assumes "store_inv (store_of base) fs" "node_ok H r" "content r = hash_view H (VDir xs)" "names_ok (VDir xs)"
    and "\<forall>(n, v) \<in> set xs. n \<noteq> ''.storage''"
    and "\<forall>b \<in> set (view_blocks (VDir xs)). store_content (store_of base) fs (H b) = Some b"
    and "\<forall>p m. p \<noteq> [] \<and> mnode_at (Some (convertTreeToManifest r)) p = Some m \<longrightarrow> clear base fs p (pn_IsDir m)"
  shows "\<exists>fs'. reconstructFiles no_recon_faults (store_of base) base (Some (convertTreeToManifest r)) fs =
      (int (length (nonempty_files (VDir xs))), None, fs') \<and>
    (\<forall>(p, b) \<in> set (nonempty_files (VDir xs)). fs' (base @ p) = Some (File b) \<and> mnode_at (Some (convertTreeToManifest r)) p \<noteq> None) \<and>
    (\<forall>q. mnode_at (Some (convertTreeToManifest r)) q = None \<longrightarrow> is_file (fs (base @ q)) \<longrightarrow> fs' (base @ q) = fs (base @ q))"
proof -
  note view_files.simps [simp del] view_blocks.simps [simp del]
  let ?r = "convertTreeToManifest r" and ?M = "store_content (store_of base) fs"
  have dp: "dirs_plain ?r" using dirs_plain_convert [OF assms(2)] .
  have fw: "fs_wf fs" "fs base = Some Dir" using assms(1) store_base [OF assms(1)] by (simp_all add: store_inv_def)
  have names: "map nd_Name (nd_Children r) = map fst xs"
    using arg_cong [OF conjunct2 [OF content_dir [OF assms(3)]], of "map fst"] by (simp add: comp_def case_prod_beta')
  have "''.storage'' \<notin> fst ` set xs" using assms(5) by auto
  then have st: "''.storage'' \<notin> pn_Name ` set (pn_Children ?r)"
    using arg_cong [OF names, of set] by (simp add: image_image)
  have "set (man_chunks ?r) = H ` set (view_blocks (VDir xs))"
    by (simp only: man_chunks_convert [OF assms(2)] assms(3) content_chunks_view set_map)
  then have dom: "set (man_chunks ?r) \<subseteq> dom ?M" using assms(6) by (simp add: image_subset_iff domI)
  have items: "\<forall>(p, isDir, chunks) \<in> set (root_items ?r). clear base fs p isDir \<and> set chunks \<subseteq> dom ?M"
  proof clarify
    fix p d cs assume "(p, d, cs) \<in> set (root_items ?r)"
    then obtain m where m: "p \<noteq> []" "mnode_at (Some ?r) p = Some m" "pn_IsDir m = d" "pn_Chunks m = cs"
      using root_items_mnode [OF dp] by blast
    have "set cs \<subseteq> set (man_chunks m)" using m(4) by (cases m) auto
    then have "set cs \<subseteq> dom ?M" using mnode_chunks [OF m(2)] dom by blast
    moreover have "clear base fs p (pn_IsDir m)" using assms(7) m(1,2) by simp
    ultimately show "clear base fs p d \<and> set cs \<subseteq> dom ?M" unfolding m(3) by simp
  qed
  from reconstruct_tree [OF fw holds_content [OF assms(1)] man_ok_convert [OF assms(2-4)] st items]
  obtain fs' where fs': "reconstructFiles no_recon_faults (store_of base) base (Some ?r) fs =
        (int (length (files_of (root_items ?r))), None, fs')"
      "\<forall>(p, chunks) \<in> set (files_of (root_items ?r)). fs' (base @ p) = Some (File (data_of ?M chunks))"
      "\<forall>q. q \<notin> (\<lambda>(p, _). base @ p) ` set (files_of (root_items ?r)) \<longrightarrow>
        fs' q = fs q \<or> fs q = None \<and> fs' q = Some Dir \<and> (\<exists>(p, _) \<in> set (root_items ?r). prefix q (base @ p))"
    by (elim exE conjE) (rule that; assumption)
  note files = root_files [OF assms(2,3)]
  have at: "mnode_at (Some ?r) p \<noteq> None" if "(p, cs) \<in> set (files_of (root_items ?r))" for p cs
  proof -
    obtain d where "(p, d, cs) \<in> set (root_items ?r)" using \<open>(p, cs) \<in> _\<close> unfolding files_of_def by auto
    from root_items_mnode [OF dp this] show ?thesis by auto
  qed
  have written: "fs' (base @ p) = Some (File b) \<and> mnode_at (Some ?r) p \<noteq> None" if mem: "(p, b) \<in> set (nonempty_files (VDir xs))" for p b
  proof -
    have f: "(p, map H (blocks ChunkSize b)) \<in> set (files_of (root_items ?r))" using mem unfolding files by force
    have "data_of ?M (map H (blocks ChunkSize b)) = b"
    proof (rule data_of_blocks)
      fix d assume "d \<in> set (blocks ChunkSize b)"
      then have "d \<in> set (view_blocks (VDir xs))" using view_files_blocks [of p b "VDir xs"] mem by auto
      then show "?M (H d) = Some d" using assms(6) by simp
    qed
    moreover have "fs' (base @ p) = Some (File (data_of ?M (map H (blocks ChunkSize b))))" using bspec [OF fs'(2) f] by simp
    ultimately show ?thesis using at [OF f] by simp
  qed
  have kept: "fs' (base @ q) = fs (base @ q)" if "mnode_at (Some ?r) q = None" "is_file (fs (base @ q))" for q
  proof -
    have nb: "base @ q \<notin> (\<lambda>(p, _). base @ p) ` set (files_of (root_items ?r))"
      by (rule not_below [of _ "\<lambda>p. mnode_at (Some ?r) p \<noteq> None", OF at]) (use that(1) in simp_all)
    have "fs (base @ q) \<noteq> None" using that(2) by (cases "fs (base @ q)") simp_all
    then show ?thesis using mp [OF spec [OF fs'(3)] nb] by argo
  qed
  have len: "length (files_of (root_items ?r)) = length (nonempty_files (VDir xs))" unfolding files by simp
  show ?thesis
  proof (intro exI conjI)
    show "reconstructFiles no_recon_faults (store_of base) base (Some ?r) fs =
      (int (length (nonempty_files (VDir xs))), None, fs')" using fs'(1) unfolding len .
    show "\<forall>(p, b) \<in> set (nonempty_files (VDir xs)). fs' (base @ p) = Some (File b) \<and> mnode_at (Some ?r) p \<noteq> None"
      by (rule ballI) (simp only: split_paired_all split_conv, rule written)
    show "\<forall>q. mnode_at (Some ?r) q = None \<longrightarrow> is_file (fs (base @ q)) \<longrightarrow> fs' (base @ q) = fs (base @ q)"
      by (intro allI impI) (rule kept)
  qed
qed


text \<open>The manifest arrives as the remote built it.\<close>

lemma cli_requestManifest_served:
  assumes "codec_ok cd" "cf_OnManifestRequest (tp_config t) = Some f"
    and "f p \<lparr>mr_SubtreePath = [], mr_MaxDepth = -1, mr_IncludeChunks = True\<rparr> = Some resp"
    and "fits cd MESSAGE_TYPE_MANIFEST_REQUEST 1
      (MsgManifestRequest \<lparr>mr_SubtreePath = [], mr_MaxDepth = -1, mr_IncludeChunks = True\<rparr>)"
    and "fits cd MESSAGE_TYPE_MANIFEST_RESPONSE 1 (MsgManifestResponse resp)"
  shows "cli_requestManifest cd (served cd t p) = Inr resp"
proof -
  have "requestManifest cd (served cd t p) = Inr (Some resp)" using assms by (rule requestManifest_served)
  then show ?thesis
    by (auto simp: requestManifest_def cli_requestManifest_def served_def split: prod.splits sum.splits option.splits msg.splits if_splits)
qed

text \<open>A run in which no system call fails and the context is not cancelled.\<close>

definition quiet :: "sync_env \<Rightarrow> (bytes \<Rightarrow> bytes) \<Rightarrow> codec \<Rightarrow> bool" where
  "quiet env H cd \<longleftrightarrow> se_H env = H \<and> se_codec env = cd \<and> (\<forall>p ns. set (se_ord env p ns) = set ns) \<and> se_mkdir env = None \<and>
     se_index env = (\<lambda>n. no_faults) \<and> se_put env = (\<lambda>n. no_faults) \<and> se_cancelled env = (\<lambda>k. False) \<and>
     se_recon env = no_recon_faults"

text \<open>A directory that can be read, with visible names that are single components.\<close>

definition dir_ok :: "entry \<Rightarrow> bool" where
  "dir_ok e \<longleftrightarrow> entry_ok e \<and> \<not> hidden_name (en_Name e) \<and> names_ok (visible e)"

lemma visible_names: "visible (DirEntry name mode info opens es) = VDir xs \<Longrightarrow> (n, v) \<in> set xs \<Longrightarrow> n \<noteq> ''.storage''"
proof -
  assume "visible (DirEntry name mode info opens es) = VDir xs" "(n, v) \<in> set xs"
  then have "hd n \<noteq> CHR ''.''" by (auto simp: hidden_def)
  then show ?thesis by auto
qed

lemma built_tree:
  assumes "dir_ok e" "BuildFromFS H (Some e) = Inr \<lparr>tr_Root = Some n\<rparr>"
  obtains xs where "visible e = VDir xs" "node_ok H n" "content n = hash_view H (VDir xs)" "names_ok (VDir xs)"
    "\<forall>(n, v) \<in> set xs. n \<noteq> ''.storage''"
proof (cases e)
  case (DirEntry name mode info opens es)
  obtain m where m: "buildNode H e = Inr m" "node_ok H m" "content m = hash_view H (visible e)"
    using build_spec(1) [of e H] assms(1) by (auto simp: dir_ok_def)
  then have "n = m" using assms(2) by (simp add: DirEntry del: buildNode.simps)
  moreover obtain xs where xs: "visible e = VDir xs" by (simp add: DirEntry)
  moreover have "\<forall>(n, v) \<in> set xs. n \<noteq> ''.storage''" using visible_names xs unfolding DirEntry by blast
  ultimately show ?thesis using that m assms(1) by (simp add: dir_ok_def)
qed (use assms(2) in simp)

lemma indexed:
  assumes "dir_ok e" "store_inv s fs" "\<forall>x. length (H x) = 32" "blobs.sound s H fs"
  obtains n m fs' where "indexDirectory H (\<lambda>n. no_faults) s (Some e) fs = (n, m, fs')" "store_inv s fs'" "blobs.sound s H fs'"
    "H ` set (view_blocks (visible e)) \<subseteq> dom (store_content s fs')"
    "ran (store_content s fs') \<subseteq> ran (store_content s fs) \<union> set (view_blocks (visible e))"
    "\<And>q. \<not> prefix (bst_baseDir s) q \<Longrightarrow> fs' q = fs q"
proof -
  let ?fs = "blobs.put_all s (map (chunk_of H) (entry_blocks e)) fs"
  obtain n m where "indexDirectory H (\<lambda>n. no_faults) s (Some e) fs = (n, m, ?fs)"
    using indexDirectory_spec [OF _ _ assms(2,3), of e] assms(1) by (auto simp: dir_ok_def)
  moreover note put_blocks [OF assms(2,3), of "entry_blocks e"]
  moreover have "?fs q = fs q" if "\<not> prefix (bst_baseDir s) q" for q
    by (rule put_all_outside [OF assms(2) _ that]) (use assms(3) in simp)
  ultimately show ?thesis using that assms(4) by (simp add: entry_blocks_visible)
qed

lemma daemon:
  assumes "serveCmd H gen (\<lambda>n. no_faults) b name base (Some e) fs = (Inr t, fs')"
    and "dir_ok e" "store_inv (store_of base) fs" "\<forall>x. length (H x) = 32" "blobs.sound (store_of base) H fs"
    and "BuildFromFS H (Some e) = Inr \<lparr>tr_Root = Some r\<rparr>"
  shows "store_inv (store_of base) fs'" "blobs.sound (store_of base) H fs'"
    "H ` set (view_blocks (visible e)) \<subseteq> dom (store_content (store_of base) fs')"
    "ran (store_content (store_of base) fs') \<subseteq> ran (store_content (store_of base) fs) \<union> set (view_blocks (visible e))"
    "cf_OnChunkRequest (tp_config t) = Some (\<lambda>p req. Some (serve_chunks (store_of base) fs' req))"
    "cf_OnManifestRequest (tp_config t) = Some (\<lambda>p req. Some (tree_manifest \<lparr>tr_Root = Some r\<rparr>))"
proof -
  from assms(2-5) obtain n m fs2 where ix: "indexDirectory H (\<lambda>n. no_faults) (store_of base) (Some e) fs = (n, m, fs2)"
      "store_inv (store_of base) fs2" "blobs.sound (store_of base) H fs2"
      "H ` set (view_blocks (visible e)) \<subseteq> dom (store_content (store_of base) fs2)"
      "ran (store_content (store_of base) fs2) \<subseteq> ran (store_content (store_of base) fs) \<union> set (view_blocks (visible e))"
    by (rule indexed)
  have "fst (serve_manifest H (\<lambda>n. no_faults) (store_of base) tree (Some e) fs2) = tree_manifest \<lparr>tr_Root = Some r\<rparr>" for tree
    by (simp add: serve_manifest_def assms(6) split: prod.split)
  then have "fs' = fs2 \<and> cf_OnChunkRequest (tp_config t) = Some (\<lambda>p req. Some (serve_chunks (store_of base) fs' req)) \<and>
      cf_OnManifestRequest (tp_config t) = Some (\<lambda>p req. Some (tree_manifest \<lparr>tr_Root = Some r\<rparr>))"
    using assms(1) open_store [OF assms(3)] ix(1) assms(6)
    by (auto simp: serveCmd_def NewTransport_def split: option.splits)
  then show "store_inv (store_of base) fs'" "blobs.sound (store_of base) H fs'"
    "H ` set (view_blocks (visible e)) \<subseteq> dom (store_content (store_of base) fs')"
    "ran (store_content (store_of base) fs') \<subseteq> ran (store_content (store_of base) fs) \<union> set (view_blocks (visible e))"
    "cf_OnChunkRequest (tp_config t) = Some (\<lambda>p req. Some (serve_chunks (store_of base) fs' req))"
    "cf_OnManifestRequest (tp_config t) = Some (\<lambda>p req. Some (tree_manifest \<lparr>tr_Root = Some r\<rparr>))"
    using ix by simp_all
qed


text \<open>Local entries lie outside the storage directory.\<close>

lemma mnode_outside:
  assumes "content n = hash_view H (VDir ys)" "\<forall>(n, v) \<in> set ys. n \<noteq> ''.storage''"
    and "mnode_at (Some (convertTreeToManifest n)) p = Some m" "p \<noteq> []"
  shows "outside p"
proof -
  obtain x q where p: "p = x # q" using assms(4) by (cases p) auto
  then obtain c where "mchild (convertTreeToManifest n) x = Some c"
    using assms(3) by (cases "mchild (convertTreeToManifest n) x") simp_all
  then have "x \<in> nd_Name ` set (nd_Children n)" using mchild_mem by fastforce
  moreover have "map nd_Name (nd_Children n) = map fst ys"
    using arg_cong [OF conjunct2 [OF content_dir [OF assms(1)]], of "map fst"] by (simp add: comp_def case_prod_beta')
  then have "nd_Name ` set (nd_Children n) = fst ` set ys" by (metis list.set_map)
  ultimately show ?thesis using assms(2) by (auto simp: p outside_def)
qed

text \<open>Such entries are the same before and after the store has changed.\<close>

lemma tree_same:
  assumes "\<forall>q. \<not> prefix (bst_baseDir (store_of base)) q \<longrightarrow> fs' q = fs q"
    and "content n = hash_view H (VDir ys)" "\<forall>(n, v) \<in> set ys. n \<noteq> ''.storage''"
  shows "mnode_at (Some (convertTreeToManifest n)) p \<noteq> None \<Longrightarrow> p \<noteq> [] \<Longrightarrow> fs' (base @ p) = fs (base @ p)"
    and "\<forall>p m. p \<noteq> [] \<and> mnode_at (Some (convertTreeToManifest n)) p = Some m \<longrightarrow> clear base fs p (pn_IsDir m) \<Longrightarrow>
      \<forall>p m. p \<noteq> [] \<and> mnode_at (Some (convertTreeToManifest n)) p = Some m \<longrightarrow> clear base fs' p (pn_IsDir m)"
proof -
  have out: "outside q" if "mnode_at (Some (convertTreeToManifest n)) q \<noteq> None" "q \<noteq> []" for q
    using mnode_outside [OF assms(2,3) _ that(2)] that(1) by blast
  show "fs' (base @ p) = fs (base @ p)" if "mnode_at (Some (convertTreeToManifest n)) p \<noteq> None" "p \<noteq> []"
    using assms(1) outside_storage [OF out [OF that]] by blast
  assume clear: "\<forall>p m. p \<noteq> [] \<and> mnode_at (Some (convertTreeToManifest n)) p = Some m \<longrightarrow> clear base fs p (pn_IsDir m)"
  show "\<forall>p m. p \<noteq> [] \<and> mnode_at (Some (convertTreeToManifest n)) p = Some m \<longrightarrow> clear base fs' p (pn_IsDir m)"
  proof (intro allI impI)
    fix q m assume a: "q \<noteq> [] \<and> mnode_at (Some (convertTreeToManifest n)) q = Some m"
    then have "clear base fs q (pn_IsDir m)" using clear by simp
    moreover have "outside q" using a out by simp
    ultimately show "clear base fs' q (pn_IsDir m)" by (rule clear_outside) (use assms(1) in simp)
  qed
qed

lemma sync_apply_spec:
  assumes env: "quiet env H cd" "codec_ok cd" "\<forall>x. length (H x) = 32"
    and store: "store_inv (store_of base) fs" "blobs.sound (store_of base) H fs"
    and l: "node_ok H l" "content l = hash_view H (VDir ys)" "names_ok (VDir ys)" "\<forall>(n, v) \<in> set ys. n \<noteq> ''.storage''"
      "H ` set (view_blocks (VDir ys)) \<subseteq> dom (store_content (store_of base) fs)"
    and r: "node_ok H r" "content r = hash_view H (VDir xs)" "names_ok (VDir xs)" "\<forall>(n, v) \<in> set xs. n \<noteq> ''.storage''"
      "H ` set (view_blocks (VDir xs)) \<subseteq> dom (store_content sR fsR)"
    and remote: "store_inv sR fsR" "blobs.sound sR H fsR"
      "cf_OnChunkRequest (tp_config t) = Some (\<lambda>p req. Some (serve_chunks sR fsR req))"
    and fits: "\<forall>hs i. set hs \<subseteq> H ` set (view_blocks (VDir xs)) \<and> length hs \<le> 10 \<longrightarrow>
        fits cd MESSAGE_TYPE_CHUNK_REQUEST i (MsgChunkRequest \<lparr>cr_ChunkHashes = hs, cr_Priority = 1\<rparr>) \<and>
        fits cd MESSAGE_TYPE_CHUNK_RESPONSE i (MsgChunkResponse (serve_chunks sR fsR \<lparr>cr_ChunkHashes = hs, cr_Priority = 1\<rparr>))"
    and trees: "hash_faithful (set (subnodes l) \<union> set (subnodes r))"
      "same_kinds (convertTreeToManifest l) (convertTreeToManifest r)"
    and cf: "collision_free H (ran (store_content (store_of base) fs) \<union> ran (store_content sR fsR) \<union> set (view_blocks (VDir xs)))"
    and clear: "\<forall>p m. p \<noteq> [] \<and> mnode_at (Some (convertTreeToManifest r)) p = Some m \<longrightarrow> clear base fs p (pn_IsDir m)"
  shows "\<exists>fs'. sync_apply env base (store_of base) \<lparr>tr_Root = Some l\<rparr> (convertTreeToManifest r) (\<lambda>k. served cd t p) peer fs =
      (Inr (int (length (nonempty_files (VDir xs)))), fs') \<and>
    (\<forall>(p, b) \<in> set (nonempty_files (VDir xs)). fs' (base @ p) = Some (File b)) \<and>
    (\<forall>p. reached (Some (convertTreeToManifest l)) (Some (convertTreeToManifest r)) p \<and>
       mnode_at (Some (convertTreeToManifest l)) p \<noteq> None \<and> mnode_at (Some (convertTreeToManifest r)) p = None \<and>
       is_file (fs (base @ p)) \<longrightarrow> fs' (base @ p) = None)"
proof -
  note view_files.simps [simp del] view_blocks.simps [simp del]
  let ?l = "convertTreeToManifest l" and ?r = "convertTreeToManifest r" and ?s = "store_of base"
  have hs: "set (man_chunks ?r) = H ` set (view_blocks (VDir xs))" "set (man_chunks ?l) = H ` set (view_blocks (VDir ys))"
    by (simp_all only: man_chunks_convert [OF r(1)] man_chunks_convert [OF l(1)] r(2) l(2) content_chunks_view set_map)
  obtain d where d: "DiffTrees (se_ord env) (Some ?l) (Some ?r) = Inr d" "set (td_Added d) = added (Some ?l) (Some ?r)"
      "set (td_Modified d) = modified (Some ?l) (Some ?r)" "set (td_Deleted d) = deleted [] (Some ?l) (Some ?r)"
    using DiffTrees_spec [of "se_ord env" "Some ?l" "Some ?r"] env(1) by (auto simp: quiet_def)
  let ?need = "needed_chunks d ?s fs"
  have len: "\<forall>h \<in> set (man_chunks ?r). length h = 32" unfolding hs(1) using env(3) by simp
  note need = needed_enough [OF store(1) dirs_plain_convert [OF r(1)] trees(2) hashes_tell_convert [OF trees(1) l(1) r(1)]
      l(5) [folded hs(2)] len d(2,3), unfolded hs(1)]
  define fs1 where "fs1 = blobs.put_all ?s (map (\<lambda>h. received H (the (store_content sR fsR h))) ?need) fs"
  have sub: "set ?need \<subseteq> dom (store_content sR fsR)" using need(1) r(5) by blast
  have dl: "download H cd (\<lambda>n. no_faults) (\<lambda>k. False) ?s (\<lambda>k. served cd t p) 0 0 (blocks 10 ?need) peer fs = (None, fs1)"
    unfolding fs1_def by (rule download_needed [OF env(2) remote(3,1) need(1) _ r(5) fits]) (use env(3) in simp)
  note done1 = downloaded [OF store(1) env(3) store(2) remote(2) sub need(2) cf fs1_def]
  have same: "\<forall>q. \<not> prefix (bst_baseDir ?s) q \<longrightarrow> fs1 q = fs q" using done1(3) by blast
  note clear1 = tree_same(2) [OF same r(2,4) clear]
  have stored: "\<forall>b \<in> set (view_blocks (VDir xs)). store_content ?s fs1 (H b) = Some b" using done1(2) by blast
  obtain fs2 where fs2: "reconstructFiles no_recon_faults ?s base (Some ?r) fs1 = (int (length (nonempty_files (VDir xs))), None, fs2)"
      "\<forall>(p, b) \<in> set (nonempty_files (VDir xs)). fs2 (base @ p) = Some (File b) \<and> mnode_at (Some ?r) p \<noteq> None"
      "\<forall>q. mnode_at (Some ?r) q = None \<longrightarrow> is_file (fs1 (base @ q)) \<longrightarrow> fs2 (base @ q) = fs1 (base @ q)"
    using mirror_files [OF done1(1) r(1-4) stored clear1] by (elim exE conjE) (rule that; assumption)
  let ?fs = "delete_paths (se_below env) base (td_Deleted d) fs2"
  have run: "sync_apply env base ?s \<lparr>tr_Root = Some l\<rparr> ?r (\<lambda>k. served cd t p) peer fs = (Inr (int (length (nonempty_files (VDir xs)))), ?fs)"
    using env(1) unfolding quiet_def by (simp add: sync_apply_def d(1) dl fs2(1))
  have del: "abs_join base [] ` set (td_Deleted d) =
      {base @ xs | xs. reached (Some ?l) (Some ?r) xs \<and> mnode_at (Some ?l) xs \<noteq> None \<and> mnode_at (Some ?r) xs = None}"
    unfolding d(4) by (rule deleted_paths) (rule man_ok_convert [OF l(1-3)])
  have files: "?fs (base @ q) = Some (File b)" if "(q, b) \<in> set (nonempty_files (VDir xs))" for q b
  proof -
    have q: "fs2 (base @ q) = Some (File b)" "mnode_at (Some ?r) q \<noteq> None" using fs2(2) that by blast+
    then have "base @ q \<notin> abs_join base [] ` set (td_Deleted d)" unfolding del by blast
    from delete_paths_spec(1) [OF this] show ?thesis using q(1) by simp
  qed
  have gone: "?fs (base @ q) = None" if q: "reached (Some ?l) (Some ?r) q" "mnode_at (Some ?l) q \<noteq> None"
      "mnode_at (Some ?r) q = None" "is_file (fs (base @ q))" for q
  proof -
    have "q \<noteq> []" using q(3) by auto
    then have "fs1 (base @ q) = fs (base @ q)" using tree_same(1) [OF same l(2,4)] q(2) by blast
    then have "is_file (fs2 (base @ q))" using fs2(3) q(3,4) by simp
    moreover have "base @ q \<in> abs_join base [] ` set (td_Deleted d)" unfolding del using q(1-3) by blast
    ultimately show ?thesis by (intro delete_paths_spec(3))
  qed
  have "\<forall>(p, b) \<in> set (nonempty_files (VDir xs)). ?fs (base @ p) = Some (File b)" using files by blast
  moreover have "\<forall>p. reached (Some ?l) (Some ?r) p \<and> mnode_at (Some ?l) p \<noteq> None \<and> mnode_at (Some ?r) p = None \<and>
       is_file (fs (base @ p)) \<longrightarrow> ?fs (base @ p) = None" using gone by blast
  ultimately show ?thesis using run by (intro exI [of _ ?fs] conjI)
qed


section \<open>Properties\<close>

text \<open>
  C3. \<open>syncCmd\<close> run against a daemon that \<open>serveCmd\<close> started makes the local files those of the remote
  directory. Starting from two initialised directories with sound chunk stores, and with no failing
  system call, the command returns the number of non-empty remote files; every such file then exists
  locally at the same path with the same bytes; and a local file at a path that the comparison reaches
  and the remote does not have is gone. The digest has no collisions among the data at hand, no path is
  a file on one side and a directory on the other, nothing is in the way of a remote path, and messages
  fit in an envelope. Empty files are not created.
\<close>

theorem sync_mirrors_remote_directory:
  assumes "quiet env H cd" "codec_ok cd" "\<forall>x. length (H x) = 32"
    and l: "dir_ok ldir" "store_inv (store_of base) fs" "\<forall>h d. store_content (store_of base) fs h = Some d \<longrightarrow> H d = h"
      "BuildFromFS H (Some ldir) = Inr \<lparr>tr_Root = Some l\<rparr>"
    and r: "dir_ok rdir" "store_inv (store_of rBase) rfs" "\<forall>h d. store_content (store_of rBase) rfs h = Some d \<longrightarrow> H d = h"
      "BuildFromFS H (Some rdir) = Inr \<lparr>tr_Root = Some r\<rparr>"
      "serveCmd H gen (\<lambda>n. no_faults) None name rBase (Some rdir) rfs = (Inr t, rfs')"
    and trees: "hash_faithful (set (subnodes l) \<union> set (subnodes r))"
      "same_kinds (convertTreeToManifest l) (convertTreeToManifest r)"
    and "collision_free H (ran (store_content (store_of base) fs) \<union> ran (store_content (store_of rBase) rfs) \<union>
      set (view_blocks (visible ldir)) \<union> set (view_blocks (visible rdir)))"
    and "\<forall>p m. p \<noteq> [] \<and> mnode_at (Some (convertTreeToManifest r)) p = Some m \<longrightarrow> clear base fs p (pn_IsDir m)"
    and "fits cd MESSAGE_TYPE_MANIFEST_REQUEST 1
      (MsgManifestRequest \<lparr>mr_SubtreePath = [], mr_MaxDepth = -1, mr_IncludeChunks = True\<rparr>)"
    and "fits cd MESSAGE_TYPE_MANIFEST_RESPONSE 1 (MsgManifestResponse (tree_manifest \<lparr>tr_Root = Some r\<rparr>))"
    and "\<forall>hs i. set hs \<subseteq> H ` set (view_blocks (visible rdir)) \<and> length hs \<le> 10 \<longrightarrow>
        fits cd MESSAGE_TYPE_CHUNK_REQUEST i (MsgChunkRequest \<lparr>cr_ChunkHashes = hs, cr_Priority = 1\<rparr>) \<and>
        fits cd MESSAGE_TYPE_CHUNK_RESPONSE i
          (MsgChunkResponse (serve_chunks (store_of rBase) rfs' \<lparr>cr_ChunkHashes = hs, cr_Priority = 1\<rparr>))"
  shows "\<exists>fs'. syncCmd env base (Some ldir) (Inr peer) (served cd t p) (\<lambda>k. served cd t p) fs =
      (Inr (int (length (nonempty_files (visible rdir)))), fs') \<and>
    (\<forall>(p, b) \<in> set (nonempty_files (visible rdir)). fs' (base @ p) = Some (File b)) \<and>
    (\<forall>p. reached (Some (convertTreeToManifest l)) (Some (convertTreeToManifest r)) p \<and>
       mnode_at (Some (convertTreeToManifest l)) p \<noteq> None \<and> mnode_at (Some (convertTreeToManifest r)) p = None \<and>
       is_file (fs (base @ p)) \<longrightarrow> fs' (base @ p) = None)"
proof -
  have snd: "blobs.sound (store_of base) H fs" "blobs.sound (store_of rBase) H rfs"
    using l(3) r(3) by (simp_all add: blobs.sound_def)
  obtain ys where ys: "visible ldir = VDir ys" "node_ok H l" "content l = hash_view H (VDir ys)" "names_ok (VDir ys)"
      "\<forall>(n, v) \<in> set ys. n \<noteq> ''.storage''" using l(1,4) by (rule built_tree)
  obtain xs where xs: "visible rdir = VDir xs" "node_ok H r" "content r = hash_view H (VDir xs)" "names_ok (VDir xs)"
      "\<forall>(n, v) \<in> set xs. n \<noteq> ''.storage''" using r(1,4) by (rule built_tree)
  note remote = daemon [OF r(5,1,2) assms(3) snd(2) r(4)]
  obtain n m fs1 where ix: "indexDirectory H (\<lambda>n. no_faults) (store_of base) (Some ldir) fs = (n, m, fs1)"
      "store_inv (store_of base) fs1" "blobs.sound (store_of base) H fs1"
      "H ` set (view_blocks (visible ldir)) \<subseteq> dom (store_content (store_of base) fs1)"
      "ran (store_content (store_of base) fs1) \<subseteq> ran (store_content (store_of base) fs) \<union> set (view_blocks (visible ldir))"
      "\<And>q. \<not> prefix (bst_baseDir (store_of base)) q \<Longrightarrow> fs1 q = fs q"
    using l(1,2) assms(3) snd(1) by (rule indexed) (rule that; assumption)
  have man: "cli_requestManifest cd (served cd t p) = Inr (tree_manifest \<lparr>tr_Root = Some r\<rparr>)"
    by (rule cli_requestManifest_served [OF assms(2) remote(6) refl assms(17,18)])
  have run: "syncCmd env base (Some ldir) (Inr peer) (served cd t p) (\<lambda>k. served cd t p) fs =
      sync_apply env base (store_of base) \<lparr>tr_Root = Some l\<rparr> (convertTreeToManifest r) (\<lambda>k. served cd t p) peer fs1"
    using assms(1) open_store [OF l(2)] unfolding quiet_def
    by (simp add: syncCmd_def ix(1) l(4) man tree_manifest_def)
  have same: "\<forall>q. \<not> prefix (bst_baseDir (store_of base)) q \<longrightarrow> fs1 q = fs q" using ix(6) by blast
  note clear1 = tree_same(2) [OF same xs(3,5) assms(16)]
  have cf: "collision_free H (ran (store_content (store_of base) fs1) \<union> ran (store_content (store_of rBase) rfs') \<union> set (view_blocks (VDir xs)))"
    by (rule collision_free_mono [OF assms(15)]) (use ix(5) remote(4) xs(1) in auto)
  obtain fs' where done2: "sync_apply env base (store_of base) \<lparr>tr_Root = Some l\<rparr> (convertTreeToManifest r) (\<lambda>k. served cd t p) peer fs1 =
      (Inr (int (length (nonempty_files (VDir xs)))), fs')"
    "\<forall>(p, b) \<in> set (nonempty_files (VDir xs)). fs' (base @ p) = Some (File b)"
    "\<forall>p. reached (Some (convertTreeToManifest l)) (Some (convertTreeToManifest r)) p \<and>
       mnode_at (Some (convertTreeToManifest l)) p \<noteq> None \<and> mnode_at (Some (convertTreeToManifest r)) p = None \<and>
       is_file (fs1 (base @ p)) \<longrightarrow> fs' (base @ p) = None"
    using sync_apply_spec [OF assms(1-3) ix(2,3) ys(2-5) ix(4) [unfolded ys(1)] xs(2-5) remote(3) [unfolded xs(1)] remote(1,2,5)
      assms(19) [unfolded xs(1)] trees cf clear1, of p peer] by (elim exE conjE) (rule that; assumption)
  have "fs' (base @ q) = None"
    if q: "reached (Some (convertTreeToManifest l)) (Some (convertTreeToManifest r)) q \<and> mnode_at (Some (convertTreeToManifest l)) q \<noteq> None \<and>
      mnode_at (Some (convertTreeToManifest r)) q = None \<and> is_file (fs (base @ q))" for q
  proof -
    have "q \<noteq> []" using q by (intro notI) simp
    then have "fs1 (base @ q) = fs (base @ q)" using tree_same(1) [OF same ys(3,5)] q by blast
    then show ?thesis using done2(3) q by simp
  qed
  then show ?thesis unfolding run xs(1) using done2(1,2) by (intro exI [of _ fs'] conjI allI impI)
qed

text \<open>An instance: an empty directory, and a remote one with one file.\<close>

definition clone_fs :: "string \<Rightarrow> fs" where
  "clone_fs n = [[] \<mapsto> Dir, [n] \<mapsto> Dir, [n, ''.storage''] \<mapsto> Dir, [n, ''.storage'', ''chunks''] \<mapsto> Dir]"

definition empty_dir :: entry where "empty_dir = DirEntry ''l'' 0 True True []"

definition clone_l :: Node where "clone_l = NewDirNode pad_hash ''l'' 0 []"
definition clone_r :: Node where
  "clone_r = NewDirNode pad_hash ''r'' 0 [set_Size 1 (NewFileNode pad_hash ''a'' 0 [pad_hash [1]])]"

definition clone_serve :: "Transport res \<times> fs" where
  "clone_serve = serveCmd pad_hash (\<lambda>n. Some [[]]) (\<lambda>n. no_faults) None ''x'' [''r''] (Some dir1) (clone_fs ''r'')"

definition clone_codec :: codec where
  "clone_codec = list_codec (
     [MsgManifestRequest \<lparr>mr_SubtreePath = [], mr_MaxDepth = -1, mr_IncludeChunks = True\<rparr>,
      MsgManifestResponse (tree_manifest \<lparr>tr_Root = Some clone_r\<rparr>)] @
     map (\<lambda>n. MsgChunkRequest \<lparr>cr_ChunkHashes = replicate n (pad_hash [1]), cr_Priority = 1\<rparr>) [0..<11] @
     map (\<lambda>n. MsgChunkResponse (serve_chunks (store_of [''r'']) (snd clone_serve)
       \<lparr>cr_ChunkHashes = replicate n (pad_hash [1]), cr_Priority = 1\<rparr>)) [0..<11])"

definition clone_env :: sync_env where
  "clone_env = \<lparr>se_H = pad_hash, se_ord = (\<lambda>p ns. ns), se_codec = clone_codec, se_mkdir = None, se_index = (\<lambda>n. no_faults),
     se_put = (\<lambda>n. no_faults), se_cancelled = (\<lambda>k. False), se_recon = no_recon_faults, se_below = (\<lambda>fs p. [])\<rparr>"

lemma clone_fs_inv: "store_inv (store_of [n]) (clone_fs n)" "store_content (store_of [n]) (clone_fs n) = Map.empty"
  by (auto simp: store_inv_def clone_fs_def fs_wf_def store_of_def storage_dir_simp chunk_dir_def chunk_file_def chunk_tmp_def
      store_content_def split: if_splits)

lemma list_codec_fits: "m \<in> set ms \<Longrightarrow> length ms < 256 \<Longrightarrow> 0 \<le> t \<Longrightarrow> t < 256 \<Longrightarrow> fits (list_codec ms) t i m"
proof -
  assume a: "m \<in> set ms" "length ms < 256" "0 \<le> t" "t < 256"
  have "\<exists>k. position ms m = Some k" using a(1) by (induction ms) auto
  then obtain k where k: "position ms m = Some k" "k < 256" using position_Some a(2) by fastforce
  then show ?thesis using a(3,4) by (simp add: fits_def frame_def list_codec_def MaxMessage_def)
qed

lemma clone_trees:
  "BuildFromFS pad_hash (Some empty_dir) = Inr \<lparr>tr_Root = Some clone_l\<rparr>"
  "BuildFromFS pad_hash (Some dir1) = Inr \<lparr>tr_Root = Some clone_r\<rparr>"
  by (simp_all add: empty_dir_def dir1_def clone_l_def clone_r_def ChunkAll_reader_of blocks_step ChunkSize_def)

lemma clone_dirs: "dir_ok empty_dir" "dir_ok dir1"
  by (simp_all add: dir_ok_def empty_dir_def dir1_def hidden_name_def hidden_def plain_def comp_ok_def)

lemma clone_faithful: "hash_faithful (set (subnodes clone_l) \<union> set (subnodes clone_r))"
  by (simp add: hash_faithful_def clone_l_def clone_r_def NewDirNode_def NewFileNode_def dir_bytes_def bytes_of_def pad_hash_def)

lemma clone_served: "\<exists>t. clone_serve = (Inr t, snd clone_serve)"
  using open_store [OF clone_fs_inv(1) [of "''r''"]] clone_trees(2)
  by (auto simp: clone_serve_def serveCmd_def NewTransport_def split: prod.split)

lemma clone_l_at: "mnode_at (Some (convertTreeToManifest clone_l)) xs = Some m \<Longrightarrow> xs = [] \<and> pn_IsDir m"
  by (cases xs) (auto simp: clone_l_def NewDirNode_def mchild_def)

lemma clone_r_at: "mnode_at (Some (convertTreeToManifest clone_r)) xs = Some m \<Longrightarrow> if xs = [] then pn_IsDir m else xs = [''a''] \<and> \<not> pn_IsDir m"
proof (cases xs)
  case (Cons x ys)
  assume "mnode_at (Some (convertTreeToManifest clone_r)) xs = Some m"
  then show ?thesis
    by (cases ys) (auto simp: Cons clone_r_def NewDirNode_def NewFileNode_def mchild_def split: if_splits)
qed (auto simp: clone_r_def NewDirNode_def)

lemma clone_fits:
  assumes "set hs \<subseteq> {pad_hash [1]} \<and> length hs \<le> 10"
  shows "fits clone_codec MESSAGE_TYPE_CHUNK_REQUEST i (MsgChunkRequest \<lparr>cr_ChunkHashes = hs, cr_Priority = 1\<rparr>) \<and>
    fits clone_codec MESSAGE_TYPE_CHUNK_RESPONSE i
      (MsgChunkResponse (serve_chunks (store_of [''r'']) (snd clone_serve) \<lparr>cr_ChunkHashes = hs, cr_Priority = 1\<rparr>))"
proof -
  have hs: "hs = replicate (length hs) (pad_hash [1])" by (rule replicate_eqI) (use assms in auto)
  have "length hs \<in> set [0..<11]" using assms by auto
  then show ?thesis
    unfolding clone_codec_def by (subst (1 2) hs) (intro conjI list_codec_fits; force simp: message_types)
qed

lemma clone_man:
  "fits clone_codec MESSAGE_TYPE_MANIFEST_REQUEST 1
     (MsgManifestRequest \<lparr>mr_SubtreePath = [], mr_MaxDepth = -1, mr_IncludeChunks = True\<rparr>)"
  "fits clone_codec MESSAGE_TYPE_MANIFEST_RESPONSE 1 (MsgManifestResponse (tree_manifest \<lparr>tr_Root = Some clone_r\<rparr>))"
  unfolding clone_codec_def by (rule list_codec_fits; simp add: message_types)+

lemma clone_clear:
  "\<forall>p m. p \<noteq> [] \<and> mnode_at (Some (convertTreeToManifest clone_r)) p = Some m \<longrightarrow> clear [''l''] (clone_fs ''l'') p (pn_IsDir m)"
proof (intro allI impI)
  fix p m assume "p \<noteq> [] \<and> mnode_at (Some (convertTreeToManifest clone_r)) p = Some m"
  then have "p = [''a'']" "\<not> pn_IsDir m" using clone_r_at [of p m] by simp_all
  then show "clear [''l''] (clone_fs ''l'') p (pn_IsDir m)" by (simp add: clear_def clone_fs_def)
qed

lemma sync_mirrors_remote_directory_witness:
  "\<exists>t fs'. fst clone_serve = Inr t \<and>
    syncCmd clone_env [''l''] (Some empty_dir) (Inr peer1) (served clone_codec t peer1) (\<lambda>k. served clone_codec t peer1) (clone_fs ''l'') =
      (Inr 1, fs') \<and> fs' [''l'', ''a''] = Some (File [1])"
proof -
  obtain t where t: "clone_serve = (Inr t, snd clone_serve)" using clone_served by blast
  have blk: "view_blocks (visible dir1) = [[1]]" "view_files (visible dir1) = [([''a''], [1])]" "view_blocks (visible empty_dir) = []"
    by (simp_all add: dir1_def empty_dir_def hidden_def blocks_step ChunkSize_def)
  have quiet: "quiet clone_env pad_hash clone_codec" and ok: "codec_ok clone_codec" and len: "\<forall>x. length (pad_hash x) = 32"
    by (simp_all add: quiet_def clone_env_def clone_codec_def list_codec_ok)
  have snd: "\<forall>h d. store_content (store_of [n]) (clone_fs n) h = Some d \<longrightarrow> pad_hash d = h" for n
    by (simp add: clone_fs_inv(2))
  have kinds: "same_kinds (convertTreeToManifest clone_l) (convertTreeToManifest clone_r)"
    unfolding same_kinds_def by (auto dest!: clone_l_at clone_r_at)
  have cf: "collision_free pad_hash (ran (store_content (store_of [''l'']) (clone_fs ''l'')) \<union>
      ran (store_content (store_of [''r'']) (clone_fs ''r'')) \<union> set (view_blocks (visible empty_dir)) \<union> set (view_blocks (visible dir1)))"
    unfolding clone_fs_inv(2) blk by (rule collision_free_pad_hash) simp
  have serve: "serveCmd pad_hash (\<lambda>n. Some [[]]) (\<lambda>n. no_faults) None ''x'' [''r''] (Some dir1) (clone_fs ''r'') = (Inr t, snd clone_serve)"
    unfolding clone_serve_def [symmetric] by (rule t)
  have hashes: "pad_hash ` set (view_blocks (visible dir1)) = {pad_hash [1]}" by (simp add: blk)
  from sync_mirrors_remote_directory [OF quiet ok len clone_dirs(1) clone_fs_inv(1) snd clone_trees(1) clone_dirs(2) clone_fs_inv(1) snd
      clone_trees(2) serve clone_faithful kinds cf clone_clear clone_man]
  have "\<exists>fs'. syncCmd clone_env [''l''] (Some empty_dir) (Inr peer1) (served clone_codec t peer1) (\<lambda>k. served clone_codec t peer1)
      (clone_fs ''l'') = (Inr (int (length (nonempty_files (visible dir1)))), fs') \<and>
    (\<forall>(p, b) \<in> set (nonempty_files (visible dir1)). fs' ([''l''] @ p) = Some (File b))"
    unfolding hashes using clone_fits by blast
  then show ?thesis unfolding blk using t by (auto intro!: exI [of _ t] simp: prod_eq_iff)
qed

end
