(* ===== verification/Netaddr.thy ===== *)
theory Netaddr
  imports Prelude
begin

text \<open>
  What the program uses of the standard library's \<open>net\<close> package: UDP addresses, the printed form of an
  IP address, their comparison, and \<open>net.ResolveUDPAddr\<close> for the network \<open>udp4\<close>. Resolving a name
  asks the resolver of the system, which is an argument; a dotted address with a decimal port is
  parsed without it.
\<close>

section \<open>Decimal numbers\<close>

definition digit :: "nat \<Rightarrow> char" where "digit n = char_of (48 + n)"

function dec :: "nat \<Rightarrow> string" where
  "dec n = (if n < 10 then [digit n] else dec (n div 10) @ [digit (n mod 10)])"
  by pat_completeness auto
termination
  by (relation "measure id") auto

declare dec.simps [simp del]

definition dec_int :: "int \<Rightarrow> string" where
  "dec_int i = (if i < 0 then CHR ''-'' # dec (nat (- i)) else dec (nat i))"

definition digit_val :: "char \<Rightarrow> nat option" where
  "digit_val c = (let n = of_char c :: nat in if 48 \<le> n \<and> n \<le> 57 then Some (n - 48) else None)"

definition parse_dec :: "string \<Rightarrow> nat option" where
  "parse_dec s =
     (if s = [] then None
      else foldl (\<lambda>acc c. Option.bind acc (\<lambda>n. map_option (\<lambda>d. 10 * n + d) (digit_val c))) (Some 0) s)"

lemma digit_val_digit [simp]: "n < 10 \<Longrightarrow> digit_val (digit n) = Some n"
  by (simp add: digit_val_def digit_def)

lemma digit_not_special: "n < 10 \<Longrightarrow> digit n \<noteq> CHR '':'' \<and> digit n \<noteq> CHR ''.''"
  using digit_val_digit [of n] by (auto simp: digit_val_def)

lemma dec_ne [simp]: "dec n \<noteq> []"
  by (simp add: dec.simps [of n])

lemma set_dec: "c \<in> set (dec n) \<Longrightarrow> \<exists>d < 10. c = digit d"
proof (induction n rule: dec.induct)
  case (1 n)
  show ?case
  proof (cases "n < 10")
    case True
    then show ?thesis using 1(2) by (auto simp: dec.simps [of n])
  next
    case False
    then have "c \<in> set (dec (n div 10)) \<or> c = digit (n mod 10)" using 1(2) by (auto simp: dec.simps [of n])
    then show ?thesis using 1(1) [OF False] by (auto intro: exI [of _ "n mod 10"])
  qed
qed

lemma dec_not_special: "CHR '':'' \<notin> set (dec n)" "CHR ''.'' \<notin> set (dec n)"
  by (auto dest!: set_dec digit_not_special)

lemma parse_dec_dec [simp]: "parse_dec (dec n) = Some n"
proof -
  let ?f = "foldl (\<lambda>acc c. Option.bind acc (\<lambda>n. map_option (\<lambda>d. 10 * n + d) (digit_val c))) (Some 0)"
  have "?f (dec n) = Some n"
  proof (induction n rule: dec.induct)
    case (1 n)
    then show ?case by (cases "n < 10") (simp_all add: dec.simps [of n])
  qed
  then show ?thesis by (simp add: parse_dec_def)
qed

text \<open>Only the number 0 is printed with a leading zero.\<close>

lemma hd_dec: "hd (dec n) = CHR ''0'' \<Longrightarrow> n = 0"
proof (induction n rule: dec.induct)
  case (1 n)
  show ?case
  proof (cases "n < 10")
    case True
    then have "digit_val (digit n) = digit_val (CHR ''0'')" using 1(2) by (simp add: dec.simps [of n])
    then show ?thesis using True by (simp add: digit_val_def [of "CHR ''0''"])
  next
    case False
    then have "n div 10 = 0" using 1 by (simp add: dec.simps [of n] hd_append)
    then show ?thesis using False by simp
  qed
qed


section \<open>IP addresses\<close>

fun split_on :: "'a \<Rightarrow> 'a list \<Rightarrow> 'a list list" where
  "split_on c [] = [[]]"
| "split_on c (x # xs) =
     (if x = c then [] # split_on c xs
      else case split_on c xs of [] \<Rightarrow> [[x]] | p # ps \<Rightarrow> (x # p) # ps)"

fun join_with :: "'a list \<Rightarrow> 'a list list \<Rightarrow> 'a list" where
  "join_with sep [] = []"
| "join_with sep [x] = x"
| "join_with sep (x # y # xs) = x @ sep @ join_with sep (y # xs)"

text \<open>\<open>net.IP\<close> is a byte slice of length 4 or 16; an IPv4 address may be in either form.\<close>

definition v4InV6Prefix :: bytes where
  "v4InV6Prefix = [0, 0, 0, 0, 0, 0, 0, 0, 0, 0, 0xff, 0xff]"

definition To4 :: "bytes \<Rightarrow> bytes option" where
  "To4 ip =
     (if length ip = 4 then Some ip
      else if length ip = 16 \<and> take 12 ip = v4InV6Prefix then Some (drop 12 ip) else None)"

definition IP_Equal :: "bytes \<Rightarrow> bytes \<Rightarrow> bool" where
  "IP_Equal ip x =
     (if length ip = length x then ip = x
      else if length ip = 4 \<and> length x = 16 then x = v4InV6Prefix @ ip
      else if length ip = 16 \<and> length x = 4 then ip = v4InV6Prefix @ x
      else False)"

definition dotted :: "bytes \<Rightarrow> string" where
  "dotted ip = join_with ''.'' (map (\<lambda>b. dec (unat b)) ip)"

text \<open>The text of an IPv6 address: the first of the longest runs of zero groups is left out.\<close>

definition hex_group :: "u16 \<Rightarrow> string" where
  "hex_group w = (case dropWhile (\<lambda>c. c = CHR ''0'') (EncodeToString (PutUint16 w)) of [] \<Rightarrow> ''0'' | s \<Rightarrow> s)"

definition ip_groups :: "bytes \<Rightarrow> u16 list" where
  "ip_groups ip = map (\<lambda>i. Uint16 (subslice (2 * i) (2 * i + 2) ip)) [0..<8]"

definition zero_run :: "u16 list \<Rightarrow> nat \<times> nat" where
  "zero_run gs =
     foldl (\<lambda>(s, l) i. let r = length (takeWhile (\<lambda>g. g = 0) (drop i gs)) in if 2 \<le> r \<and> l < r then (i, r) else (s, l))
       (0, 0) [0..<8]"

definition ipv6_text :: "bytes \<Rightarrow> string" where
  "ipv6_text ip =
     (let gs = ip_groups ip in
      case zero_run gs of
        (s, l) \<Rightarrow>
          if l = 0 then join_with '':'' (map hex_group gs)
          else join_with '':'' (map hex_group (take s gs)) @ ''::'' @ join_with '':'' (map hex_group (drop (s + l) gs)))"

definition IP_String :: "bytes \<Rightarrow> string" where
  "IP_String ip =
     (if ip = [] then ''<nil>''
      else if length ip \<noteq> 4 \<and> length ip \<noteq> 16 then CHR ''?'' # EncodeToString ip
      else case To4 ip of Some p4 \<Rightarrow> dotted p4 | None \<Rightarrow> ipv6_text ip)"

definition parse_octet :: "string \<Rightarrow> byte option" where
  "parse_octet s =
     (case parse_dec s of
        None \<Rightarrow> None
      | Some n \<Rightarrow> if n \<le> 255 \<and> (hd s = CHR ''0'' \<longrightarrow> length s = 1) then Some (of_nat n) else None)"

definition ParseIPv4 :: "string \<Rightarrow> bytes option" where
  "ParseIPv4 s =
     (case map parse_octet (split_on (CHR ''.'') s) of
        [Some a, Some b, Some c, Some d] \<Rightarrow> Some (v4InV6Prefix @ [a, b, c, d])
      | _ \<Rightarrow> None)"


section \<open>UDP addresses\<close>

record UDPAddr =
  ua_IP :: bytes
  ua_Port :: int

text \<open>The text before and after the last colon.\<close>

definition split_last_colon :: "string \<Rightarrow> (string \<times> string) option" where
  "split_last_colon s =
     (let t = rev s; port = takeWhile (\<lambda>c. c \<noteq> CHR '':'') t in
      if length port = length s then None else Some (rev (drop (Suc (length port)) t), rev port))"

definition literal_addr :: "string \<Rightarrow> UDPAddr option" where
  "literal_addr s =
     (case split_last_colon s of
        None \<Rightarrow> None
      | Some (host, port) \<Rightarrow>
          (case (ParseIPv4 host, parse_dec port) of
             (Some ip, Some p) \<Rightarrow> if p \<le> 65535 then Some \<lparr>ua_IP = ip, ua_Port = int p\<rparr> else None
           | _ \<Rightarrow> None))"

definition ResolveUDPAddr :: "(string \<Rightarrow> UDPAddr option) \<Rightarrow> string \<Rightarrow> UDPAddr option" where
  "ResolveUDPAddr resolver s = (case literal_addr s of Some a \<Rightarrow> Some a | None \<Rightarrow> resolver s)"

lemma split_on_join:
  "xs \<noteq> [] \<Longrightarrow> \<forall>x \<in> set xs. c \<notin> set x \<Longrightarrow> split_on c (join_with [c] xs) = xs"
proof (induction xs rule: list_nonempty_induct)
  case (single x)
  then show ?case by (induction x) auto
next
  case (cons x xs)
  have "split_on c (y @ [c] @ zs) = y # split_on c zs" if "c \<notin> set y" for y zs
    using that by (induction y) auto
  then show ?case using cons by (cases xs) auto
qed

lemma parse_octet_dec [simp]: "parse_octet (dec (unat (b :: byte))) = Some b"
proof -
  have "unat b \<le> 255" using unat_byte_less [of b] by simp
  moreover have "length (dec (unat b)) = 1" if "hd (dec (unat b)) = CHR ''0''"
    using hd_dec [OF that] by (simp add: dec.simps [of 0])
  ultimately show ?thesis by (simp add: parse_octet_def)
qed

lemma ParseIPv4_dotted: "length ip = 4 \<Longrightarrow> ParseIPv4 (dotted ip) = Some (v4InV6Prefix @ ip)"
proof -
  assume len: "length ip = 4"
  have "split_on (CHR ''.'') (dotted ip) = map (\<lambda>b. dec (unat b)) ip"
    unfolding dotted_def using len dec_not_special(2) by (intro split_on_join) auto
  moreover obtain a b c d where "ip = [a, b, c, d]" using len by (auto simp: numeral_eq_Suc length_Suc_conv)
  ultimately show ?thesis by (simp add: ParseIPv4_def)
qed

lemma split_last_colon_app: "CHR '':'' \<notin> set p \<Longrightarrow> split_last_colon (h @ '':'' @ p) = Some (h, p)"
proof -
  assume "CHR '':'' \<notin> set p"
  then have "takeWhile (\<lambda>c. c \<noteq> CHR '':'') (rev p @ CHR '':'' # rev h) = rev p"
    by (subst takeWhile_append2) auto
  then show ?thesis by (simp add: split_last_colon_def)
qed

text \<open>Printing an IPv4 address and its port and resolving the text gives the address back.\<close>

lemma resolve_printed:
  assumes "length ip = 4" "0 \<le> port" "port < 65536"
  shows "ResolveUDPAddr resolver (IP_String ip @ '':'' @ dec_int port) = Some \<lparr>ua_IP = v4InV6Prefix @ ip, ua_Port = port\<rparr>"
proof -
  have "IP_String ip = dotted ip" using assms(1) by (auto simp: IP_String_def To4_def)
  moreover have "split_last_colon (dotted ip @ '':'' @ dec (nat port)) = Some (dotted ip, dec (nat port))"
    by (rule split_last_colon_app) (rule dec_not_special)
  ultimately show ?thesis
    using assms by (simp add: ResolveUDPAddr_def literal_addr_def dec_int_def ParseIPv4_dotted nat_le_iff)
qed

lemma IP_Equal_mapped: "length ip = 4 \<Longrightarrow> IP_Equal (v4InV6Prefix @ ip) ip"
  by (simp add: IP_Equal_def v4InV6Prefix_def)

end
