(* ===== verification/Endpoint.thy ===== *)
theory Endpoint
  imports Transport Netaddr
begin

text \<open>
  The life of a transport in \<open>internal/net/transport.go\<close>: creating its certificate, listening, dialling,
  accepting connections, serving the streams of a peer, and closing. The cryptographic library, the UDP
  sockets and QUIC are arguments: what generating a key, drawing a serial number and signing return,
  whether binding and listening succeed, the connection that dialling yields, and the connections and
  streams that arrive. The steps of concurrent connections are in theory \<open>Transport\<close>; here the accept
  loop handles one connection after the other.
\<close>

section \<open>Definitions\<close>

text \<open>The certificate. Times are in nanoseconds, and usages are listed by name.\<close>

record cert_template =
  ct_SerialNumber :: int
  ct_CommonName :: string
  ct_NotBefore :: int
  ct_NotAfter :: int
  ct_KeyUsage :: "string list"
  ct_ExtKeyUsage :: "string list"
  ct_BasicConstraintsValid :: bool

definition generateSelfSignedCert ::
  "'key option \<Rightarrow> int option \<Rightarrow> (cert_template \<Rightarrow> 'key \<Rightarrow> bytes option) \<Rightarrow> int \<Rightarrow> string \<Rightarrow> bytes list res" where
  "generateSelfSignedCert key serial create now name =
     (case key of
        None \<Rightarrow> Inl (Err ''generating key'')
      | Some priv \<Rightarrow>
          (case serial of
             None \<Rightarrow> Inl (Err ''generating serial'')
           | Some serialNumber \<Rightarrow>
               (case create \<lparr>ct_SerialNumber = serialNumber, ct_CommonName = name, ct_NotBefore = now,
                       ct_NotAfter = now + 365 * 24 * 3600 * 1000000000,
                       ct_KeyUsage = [''DigitalSignature'', ''KeyEncipherment''],
                       ct_ExtKeyUsage = [''ServerAuth'', ''ClientAuth''], ct_BasicConstraintsValid = True\<rparr> priv of
                  None \<Rightarrow> Inl (Err ''creating certificate'')
                | Some der \<Rightarrow> Inr [der])))"

definition LocalID :: "Transport \<Rightarrow> PeerID" where
  "LocalID t = tp_localID t"

definition MerkleRoot :: "Transport \<Rightarrow> bytes" where
  "MerkleRoot t = tp_merkleRoot t"

text \<open>The order of the peers is that in which Go visits the map.\<close>

definition Peers :: "PeerID list \<Rightarrow> Transport \<Rightarrow> Peer list" where
  "Peers ids t = map (\<lambda>i. the (tp_peers t i)) ids"

text \<open>
  A transport with its listener (the address it is bound to, and whether it is open), whether its context
  is cancelled, and the connections it has closed, each with the remote address and the error code.
\<close>

record endpoint =
  ep_transport :: Transport
  ep_listener :: "UDPAddr option"
  ep_listening :: bool
  ep_cancelled :: bool
  ep_closed :: "(string \<times> nat) list"

definition new_endpoint :: "Transport \<Rightarrow> endpoint" where
  "new_endpoint t = \<lparr>ep_transport = t, ep_listener = None, ep_listening = False, ep_cancelled = False, ep_closed = []\<rparr>"

definition IPv4zero :: bytes where
  "IPv4zero = v4InV6Prefix @ [0, 0, 0, 0]"

definition IsUnspecified :: "bytes \<Rightarrow> bool" where
  "IsUnspecified ip \<longleftrightarrow> IP_Equal ip IPv4zero \<or> IP_Equal ip (replicate 16 0)"

definition Listen :: "(string \<Rightarrow> UDPAddr option) \<Rightarrow> (UDPAddr \<Rightarrow> bool) \<Rightarrow> bool \<Rightarrow> string \<Rightarrow> endpoint \<Rightarrow> unit res \<times> endpoint" where
  "Listen resolver bound quic listenAddr ep =
     (case ResolveUDPAddr resolver listenAddr of
        None \<Rightarrow> (Inl (Err ''resolving address''), ep)
      | Some addr \<Rightarrow>
          let addr = (if ua_IP addr = [] \<or> IsUnspecified (ua_IP addr) then addr\<lparr>ua_IP := IPv4zero\<rparr> else addr) in
          if \<not> bound addr then (Inl (Err ''listening UDP''), ep)
          else if \<not> quic then (Inl (Err ''creating QUIC listener''), ep)
          else (Inr (), ep\<lparr>ep_listener := Some addr, ep_listening := True\<rparr>))"

definition Connect :: "(bytes \<Rightarrow> bytes) \<Rightarrow> codec \<Rightarrow> conn option \<Rightarrow> endpoint \<Rightarrow> Peer res \<times> endpoint" where
  "Connect H cd dialled ep =
     (case dialled of
        None \<Rightarrow> (Inl (Err ''dialing''), ep)
      | Some c \<Rightarrow>
          (case handleConnection H cd (ep_transport ep) c True of
             (Inl e, t) \<Rightarrow> (Inl e, ep\<lparr>ep_transport := t, ep_closed := ep_closed ep @ [(cn_addr c, 1)]\<rparr>)
           | (Inr peer, t) \<Rightarrow> (Inr peer, ep\<lparr>ep_transport := t\<rparr>)))"

text \<open>What \<open>Accept\<close> returns: a connection, or an error with whether the context is cancelled by then.\<close>

datatype accepted = Accepted conn | AcceptError bool

text \<open>
  The accept loop on what arrives, until it returns or nothing more arrives. The second result says
  whether it has returned.
\<close>

fun acceptLoop :: "(bytes \<Rightarrow> bytes) \<Rightarrow> codec \<Rightarrow> accepted list \<Rightarrow> endpoint \<Rightarrow> endpoint \<times> bool" where
  "acceptLoop H cd [] ep = (ep, False)"
| "acceptLoop H cd (AcceptError cancelled # as) ep = (if cancelled then (ep, True) else acceptLoop H cd as ep)"
| "acceptLoop H cd (Accepted c # as) ep =
     acceptLoop H cd as
       (case handleConnection H cd (ep_transport ep) c False of
          (Inl e, t) \<Rightarrow> ep\<lparr>ep_transport := t, ep_closed := ep_closed ep @ [(cn_addr c, 1)]\<rparr>
        | (Inr peer, t) \<Rightarrow> ep\<lparr>ep_transport := t\<rparr>)"

text \<open>
  Serving a peer: each stream it opens is handled, and when accepting a stream fails the peer is
  removed. A stream is what can be read from it; the result has what was written to each.
\<close>

definition handlePeerStreams :: "codec \<Rightarrow> Peer \<Rightarrow> reader list \<Rightarrow> Transport \<Rightarrow> bytes list \<times> Transport" where
  "handlePeerStreams cd peer streams t =
     (map (\<lambda>r. wr_bytes (handleStream cd t peer r new_writer)) streams, removePeer t peer)"

text \<open>
  \<open>Close\<close> closes the connection of every peer and waits; the goroutine of each peer then removes it.
  \<open>ids\<close> are the keys of the table in the order visited.
\<close>

definition Close :: "PeerID list \<Rightarrow> endpoint \<Rightarrow> endpoint" where
  "Close ids ep =
     ep\<lparr>ep_cancelled := True, ep_listening := False,
        ep_closed := ep_closed ep @ map (\<lambda>p. (pr_Addr p, 0)) (Peers ids (ep_transport ep)),
        ep_transport := foldl removePeer (ep_transport ep) (Peers ids (ep_transport ep))\<rparr>"


section \<open>Lemmas\<close>

text \<open>A transport made with a generated certificate is identified by the digest of that certificate.\<close>

lemma NewTransport_generated:
  assumes "cf_Certificate cfg = None" "generateSelfSignedCert key serial create now (cf_PeerName cfg) = Inr cert"
  shows "\<exists>t der. NewTransport H (\<lambda>name. case generateSelfSignedCert key serial create now name of Inl e \<Rightarrow> None | Inr c \<Rightarrow> Some c) cfg = Inr t \<and>
     cert = [der] \<and> LocalID t = certToFingerprint H der"
  using assms by (auto simp: NewTransport_def generateSelfSignedCert_def LocalID_def CertFingerprint_def certToFingerprint_def split: option.splits)

text \<open>Every peer in the table is stored under the fingerprint of its certificate.\<close>

definition table_ok :: "Transport \<Rightarrow> bool" where
  "table_ok t \<longleftrightarrow> (\<forall>i p. tp_peers t i = Some p \<longrightarrow> pr_ID p = i)"

lemma table_ok_new: "NewTransport H gen cfg = Inr t \<Longrightarrow> table_ok t"
  by (auto simp: NewTransport_def table_ok_def split: option.splits)

lemma performHandshake_ID_pred:
  "case performHandshake cd t addr stream peerID ini of (Inr p, w) \<Rightarrow> pr_ID p = peerID | (Inl e, w) \<Rightarrow> True"
  by (cases ini) (simp_all add: performHandshake_def Let_def split: prod.split sum.split option.split msg.split)

lemma performHandshake_ID: "performHandshake cd t addr stream peerID ini = (Inr p, w) \<Longrightarrow> pr_ID p = peerID"
  using performHandshake_ID_pred [where cd = cd and t = t and addr = addr and stream = stream and peerID = peerID and ini = ini] by simp

lemma handleConnection_cases:
  "snd (handleConnection H cd t c ini) = t \<or>
   (\<exists>p i. fst (handleConnection H cd t c ini) = Inr p \<and> pr_ID p = i \<and> tp_peers t i = None \<and>
      snd (handleConnection H cd t c ini) = t\<lparr>tp_peers := (tp_peers t)(i \<mapsto> p)\<rparr>)"
  by (auto simp: handleConnection_def Let_def performHandshake_ID split: list.splits option.splits prod.splits sum.splits)

lemma table_ok_connection: "table_ok t \<Longrightarrow> table_ok (snd (handleConnection H cd t c ini))"
  using handleConnection_cases [of H cd t c ini] by (auto simp: table_ok_def split: if_splits)

lemma table_ok_accept: "table_ok (ep_transport ep) \<Longrightarrow> table_ok (ep_transport (fst (acceptLoop H cd as ep)))"
proof (induction H cd as ep rule: acceptLoop.induct)
  case (3 H cd c as ep)
  then show ?case using table_ok_connection [of "ep_transport ep" H cd c False]
    by (cases "handleConnection H cd (ep_transport ep) c False") (auto split: sum.splits)
qed simp_all

text \<open>The loop returns at the first error after the context has been cancelled, and only then.\<close>

lemma acceptLoop_returns: "snd (acceptLoop H cd as ep) \<longleftrightarrow> AcceptError True \<in> set as"
  by (induction H cd as ep rule: acceptLoop.induct) auto

lemma removePeers:
  "tp_peers (foldl removePeer t ps) i = (if i \<in> pr_ID ` set ps then None else tp_peers t i)"
  by (induction ps arbitrary: t) (auto simp: removePeer_def)

text \<open>After \<open>Close\<close> no peer is left and every connection has been closed.\<close>

lemma Close_spec:
  assumes "table_ok (ep_transport ep)" "set ids = dom (tp_peers (ep_transport ep))"
  shows "tp_peers (ep_transport (Close ids ep)) = Map.empty"
    "tp_peers (ep_transport ep) i = Some p \<Longrightarrow> (pr_Addr p, 0) \<in> set (ep_closed (Close ids ep))"
proof -
  have key: "pr_ID (the (tp_peers (ep_transport ep) k)) = k" if "k \<in> set ids" for k
    using that assms by (auto simp: table_ok_def)
  have "pr_ID ` set (Peers ids (ep_transport ep)) = set ids"
    using key by (simp add: Peers_def image_image)
  then show "tp_peers (ep_transport (Close ids ep)) = Map.empty"
    using assms(2) by (auto simp: Close_def removePeers fun_eq_iff)
  assume "tp_peers (ep_transport ep) i = Some p"
  then have "i \<in> set ids" "p = the (tp_peers (ep_transport ep) i)" using assms(2) by auto
  then show "(pr_Addr p, 0) \<in> set (ep_closed (Close ids ep))"
    by (simp add: Close_def Peers_def)
qed

text \<open>A successful \<open>Listen\<close> on no address or an unspecified one binds every IPv4 interface.\<close>

lemma Listen_wildcard:
  assumes "Listen resolver bound quic addr ep = (Inr (), ep')" "ResolveUDPAddr resolver addr = Some a" "ua_IP a \<in> {[], [0, 0, 0, 0], replicate 16 0}"
  shows "ep_listener ep' = Some (a\<lparr>ua_IP := IPv4zero\<rparr>)"
proof -
  have "ua_IP a = [] \<or> IsUnspecified (ua_IP a)"
    using assms(3) by (auto simp: IsUnspecified_def IP_Equal_def IPv4zero_def v4InV6Prefix_def)
  then show ?thesis using assms(1,2) by (auto simp: Listen_def Let_def split: if_splits)
qed

text \<open>
  Dialling a peer that is connected already returns that peer and changes nothing; in particular the
  second connection is not closed.
\<close>

lemma Connect_existing:
  assumes "cn_certs c = raw # cs" "tp_peers (ep_transport ep) (certToFingerprint H raw) = Some p"
  shows "Connect H cd (Some c) ep = (Inr p, ep)"
  using assms by (simp add: Connect_def handleConnection_def Let_def)

end
