(* ===== verification/Logging.thy ===== *)
theory Logging
  imports Prelude
begin

text \<open>
  Model of \<open>internal/logging/logging.go\<close> with the part of package \<open>log/slog\<close> it uses. A logger is the
  configuration of its handler with the attributes added by \<open>With\<close>; the lines it writes are collected
  in order. The global logger and the lines are the state. Source positions, the time of a line and the
  rendering as text or JSON are left out, and so is the lock around the global logger.
\<close>

section \<open>Loggers\<close>

text \<open>Values of attributes; \<open>AOther\<close> stands for a value of any other type.\<close>

datatype any_value = AString string | AInt int | AOther string

definition LevelDebug :: int where "LevelDebug = -4"
definition LevelInfo :: int where "LevelInfo = 0"
definition LevelWarn :: int where "LevelWarn = 4"
definition LevelError :: int where "LevelError = 8"

lemmas level_defs = LevelDebug_def LevelInfo_def LevelWarn_def LevelError_def

type_synonym attr = "string \<times> any_value"

datatype handler_kind = JSONHandler | TextHandler

record slog_logger =
  lg_kind :: handler_kind
  lg_Output :: nat
  lg_Level :: int
  lg_AddSource :: bool
  lg_attrs :: "attr list"

record log_line =
  ll_Output :: nat
  ll_kind :: handler_kind
  ll_Level :: int
  ll_msg :: string
  ll_attrs :: "attr list"

record log_state =
  ls_default :: slog_logger
  ls_lines :: "log_line list"

text \<open>How \<open>slog\<close> reads a list of arguments: keys and values alternate, anything else is a bad key.\<close>

fun args_attrs :: "any_value list \<Rightarrow> attr list" where
  "args_attrs [] = []"
| "args_attrs [AString k] = [(''!BADKEY'', AString k)]"
| "args_attrs (AString k # v # args) = (k, v) # args_attrs args"
| "args_attrs (v # args) = (''!BADKEY'', v) # args_attrs args"

definition With :: "slog_logger \<Rightarrow> any_value list \<Rightarrow> slog_logger" where
  "With l args = l\<lparr>lg_attrs := lg_attrs l @ args_attrs args\<rparr>"

definition log_at :: "int \<Rightarrow> slog_logger \<Rightarrow> string \<Rightarrow> any_value list \<Rightarrow> log_state \<Rightarrow> log_state" where
  "log_at level l msg args st =
     (if lg_Level l \<le> level
      then st\<lparr>ls_lines := ls_lines st @
        [\<lparr>ll_Output = lg_Output l, ll_kind = lg_kind l, ll_Level = level, ll_msg = msg, ll_attrs = lg_attrs l @ args_attrs args\<rparr>]\<rparr>
      else st)"


section \<open>The package\<close>

text \<open>Writer 0 is standard output.\<close>

definition init_logger :: slog_logger where
  "init_logger = \<lparr>lg_kind = TextHandler, lg_Output = 0, lg_Level = LevelInfo, lg_AddSource = False, lg_attrs = []\<rparr>"

record log_config =
  lc_Level :: int
  lc_Format :: string
  lc_Output :: nat
  lc_AddSource :: bool
  lc_TimeFormat :: string

definition DefaultConfig :: log_config where
  "DefaultConfig = \<lparr>lc_Level = LevelInfo, lc_Format = ''text'', lc_Output = 0, lc_AddSource = False,
     lc_TimeFormat = ''2006-01-02T15:04:05Z07:00''\<rparr>"

definition Init :: "log_config option \<Rightarrow> log_state \<Rightarrow> log_state" where
  "Init cfg st =
     (let c = (case cfg of None \<Rightarrow> DefaultConfig | Some c \<Rightarrow> c);
          kind = (if lc_Format c = ''json'' then JSONHandler else TextHandler)
      in st\<lparr>ls_default := \<lparr>lg_kind = kind, lg_Output = lc_Output c, lg_Level = lc_Level c,
                          lg_AddSource = lc_AddSource c, lg_attrs = []\<rparr>\<rparr>)"

datatype contextKey = PeerIDKey | SessionIDKey | FilePathKey | ChunkHashKey

text \<open>A context is the list of its values, the innermost first.\<close>

type_synonym log_context = "(contextKey \<times> any_value) list"

definition WithPeerID :: "log_context \<Rightarrow> string \<Rightarrow> log_context" where
  "WithPeerID ctx peerID = (PeerIDKey, AString peerID) # ctx"

definition WithSessionID :: "log_context \<Rightarrow> string \<Rightarrow> log_context" where
  "WithSessionID ctx sessionID = (SessionIDKey, AString sessionID) # ctx"

definition WithFilePath :: "log_context \<Rightarrow> string \<Rightarrow> log_context" where
  "WithFilePath ctx path = (FilePathKey, AString path) # ctx"

definition WithChunkHash :: "log_context \<Rightarrow> string \<Rightarrow> log_context" where
  "WithChunkHash ctx hash = (ChunkHashKey, AString hash) # ctx"

text \<open>\<open>ctx.Value(key).(string)\<close> with its second result.\<close>

definition ctx_string :: "log_context \<Rightarrow> contextKey \<Rightarrow> string option" where
  "ctx_string ctx key = (case map_of ctx key of Some (AString s) \<Rightarrow> Some s | _ \<Rightarrow> None)"

definition with_key :: "log_context \<Rightarrow> contextKey \<Rightarrow> string \<Rightarrow> slog_logger \<Rightarrow> slog_logger" where
  "with_key ctx key name logger = (case ctx_string ctx key of Some s \<Rightarrow> With logger [AString name, AString s] | None \<Rightarrow> logger)"

definition WithContext :: "log_context \<Rightarrow> log_state \<Rightarrow> slog_logger" where
  "WithContext ctx st =
     with_key ctx ChunkHashKey ''chunk_hash'' (with_key ctx FilePathKey ''file_path''
       (with_key ctx SessionIDKey ''session_id'' (with_key ctx PeerIDKey ''peer_id'' (ls_default st))))"

definition Debug :: "string \<Rightarrow> any_value list \<Rightarrow> log_state \<Rightarrow> log_state" where
  "Debug msg args st = log_at LevelDebug (ls_default st) msg args st"

definition Info :: "string \<Rightarrow> any_value list \<Rightarrow> log_state \<Rightarrow> log_state" where
  "Info msg args st = log_at LevelInfo (ls_default st) msg args st"

definition Warn :: "string \<Rightarrow> any_value list \<Rightarrow> log_state \<Rightarrow> log_state" where
  "Warn msg args st = log_at LevelWarn (ls_default st) msg args st"

definition LogError :: "string \<Rightarrow> any_value list \<Rightarrow> log_state \<Rightarrow> log_state" where
  "LogError msg args st = log_at LevelError (ls_default st) msg args st"

definition DebugContext :: "log_context \<Rightarrow> string \<Rightarrow> any_value list \<Rightarrow> log_state \<Rightarrow> log_state" where
  "DebugContext ctx msg args st = log_at LevelDebug (WithContext ctx st) msg args st"

definition InfoContext :: "log_context \<Rightarrow> string \<Rightarrow> any_value list \<Rightarrow> log_state \<Rightarrow> log_state" where
  "InfoContext ctx msg args st = log_at LevelInfo (WithContext ctx st) msg args st"

definition WarnContext :: "log_context \<Rightarrow> string \<Rightarrow> any_value list \<Rightarrow> log_state \<Rightarrow> log_state" where
  "WarnContext ctx msg args st = log_at LevelWarn (WithContext ctx st) msg args st"

definition ErrorContext :: "log_context \<Rightarrow> string \<Rightarrow> any_value list \<Rightarrow> log_state \<Rightarrow> log_state" where
  "ErrorContext ctx msg args st = log_at LevelError (WithContext ctx st) msg args st"

definition Component :: "string \<Rightarrow> log_state \<Rightarrow> slog_logger" where
  "Component name st = With (ls_default st) [AString ''component'', AString name]"

definition CASLogger :: "log_state \<Rightarrow> slog_logger" where
  "CASLogger = Component ''cas''"

definition MerkleLogger :: "log_state \<Rightarrow> slog_logger" where
  "MerkleLogger = Component ''merkle''"

definition NetLogger :: "log_state \<Rightarrow> slog_logger" where
  "NetLogger = Component ''net''"

definition SyncLogger :: "log_state \<Rightarrow> slog_logger" where
  "SyncLogger = Component ''sync''"

definition WatcherLogger :: "log_state \<Rightarrow> slog_logger" where
  "WatcherLogger = Component ''watcher''"

definition DeltaLogger :: "log_state \<Rightarrow> slog_logger" where
  "DeltaLogger = Component ''delta''"

definition NATLogger :: "log_state \<Rightarrow> slog_logger" where
  "NATLogger = Component ''nat''"

text \<open>Operations remember the logger they were started with. Times are milliseconds.\<close>

record Operation =
  op_logger :: slog_logger
  op_name :: string
  op_startTime :: int
  op_attrs :: "any_value list"

definition StartOperation :: "int \<Rightarrow> string \<Rightarrow> any_value list \<Rightarrow> log_state \<Rightarrow> Operation \<times> log_state" where
  "StartOperation now name attrs st =
     (let op = \<lparr>op_logger = ls_default st, op_name = name, op_startTime = now, op_attrs = attrs\<rparr>
      in (op, log_at LevelInfo (op_logger op) ''operation started'' ([AString ''operation'', AString name] @ attrs) st))"

definition Success :: "int \<Rightarrow> Operation \<Rightarrow> any_value list \<Rightarrow> log_state \<Rightarrow> log_state" where
  "Success now op attrs st =
     log_at LevelInfo (op_logger op) ''operation completed''
       ([AString ''operation'', AString (op_name op), AString ''status'', AString ''success'',
         AString ''duration_ms'', AInt (now - op_startTime op)] @ op_attrs op @ attrs) st"

text \<open>\<open>Failure\<close> calls the method of the error, which panics on nil.\<close>

definition Failure :: "int \<Rightarrow> Operation \<Rightarrow> string option \<Rightarrow> any_value list \<Rightarrow> log_state \<Rightarrow> log_state res" where
  "Failure now op err attrs st =
     (case err of
        None \<Rightarrow> Inl (Panic ''nil pointer dereference'')
      | Some e \<Rightarrow>
          Inr (log_at LevelError (op_logger op) ''operation failed''
            ([AString ''operation'', AString (op_name op), AString ''status'', AString ''failure'',
              AString ''duration_ms'', AInt (now - op_startTime op), AString ''error'', AString e] @ op_attrs op @ attrs) st))"

record SyncEvent =
  ev_SType :: string
  ev_PeerID :: string
  ev_FilePath :: string
  ev_ChunksTotal :: int
  ev_ChunksSynced :: int
  ev_BytesTotal :: int
  ev_BytesSynced :: int
  ev_Duration :: int
  ev_Timestamp :: int

definition LogSyncEvent :: "int \<Rightarrow> SyncEvent \<Rightarrow> log_state \<Rightarrow> SyncEvent \<times> log_state" where
  "LogSyncEvent now event st =
     (event\<lparr>ev_Timestamp := now\<rparr>,
      log_at LevelInfo (SyncLogger st) ''sync event''
        [AString ''event_type'', AString (ev_SType event), AString ''peer_id'', AString (ev_PeerID event),
         AString ''file_path'', AString (ev_FilePath event), AString ''chunks_total'', AInt (ev_ChunksTotal event),
         AString ''chunks_synced'', AInt (ev_ChunksSynced event), AString ''bytes_total'', AInt (ev_BytesTotal event),
         AString ''bytes_synced'', AInt (ev_BytesSynced event), AString ''duration_ms'', AInt (ev_Duration event)] st)"


section \<open>Lemmas\<close>

text \<open>The attributes that the values of a context contribute, in the order of the code.\<close>

definition ctx_attrs :: "log_context \<Rightarrow> attr list" where
  "ctx_attrs ctx = concat (map (\<lambda>(key, name). case ctx_string ctx key of Some s \<Rightarrow> [(name, AString s)] | None \<Rightarrow> [])
     [(PeerIDKey, ''peer_id''), (SessionIDKey, ''session_id''), (FilePathKey, ''file_path''), (ChunkHashKey, ''chunk_hash'')])"

lemma with_key_spec:
  "with_key ctx key name l =
     l\<lparr>lg_attrs := lg_attrs l @ (case ctx_string ctx key of Some s \<Rightarrow> [(name, AString s)] | None \<Rightarrow> [])\<rparr>"
  by (simp add: with_key_def With_def split: option.split)

lemma WithContext_spec: "WithContext ctx st = (ls_default st)\<lparr>lg_attrs := lg_attrs (ls_default st) @ ctx_attrs ctx\<rparr>"
  by (simp add: WithContext_def with_key_spec ctx_attrs_def)

text \<open>The innermost value of a key counts, and setting one key leaves the others alone.\<close>

lemma ctx_string_With [simp]:
  "ctx_string (WithPeerID ctx s) key = (if key = PeerIDKey then Some s else ctx_string ctx key)"
  "ctx_string (WithSessionID ctx s) key = (if key = SessionIDKey then Some s else ctx_string ctx key)"
  "ctx_string (WithFilePath ctx s) key = (if key = FilePathKey then Some s else ctx_string ctx key)"
  "ctx_string (WithChunkHash ctx s) key = (if key = ChunkHashKey then Some s else ctx_string ctx key)"
  by (simp_all add: ctx_string_def WithPeerID_def WithSessionID_def WithFilePath_def WithChunkHash_def)

text \<open>A line is written just when its level is at least the configured one, and lines are never lost.\<close>

lemma log_at_lines:
  "ls_lines (log_at level l msg args st) = ls_lines st @
     (if lg_Level l \<le> level then [\<lparr>ll_Output = lg_Output l, ll_kind = lg_kind l, ll_Level = level, ll_msg = msg,
        ll_attrs = lg_attrs l @ args_attrs args\<rparr>] else [])"
  "ls_default (log_at level l msg args st) = ls_default st"
  by (simp_all add: log_at_def)

lemma args_attrs_pairs:
  "args_attrs (concat (map (\<lambda>(k, v). [AString k, v]) kvs) @ rest) = kvs @ args_attrs rest"
  by (induction kvs) auto

lemma InfoContext_line:
  assumes "lg_Level (ls_default st) \<le> LevelInfo"
  shows "ls_lines (InfoContext ctx msg (concat (map (\<lambda>(k, v). [AString k, v]) kvs)) st) = ls_lines st @
    [\<lparr>ll_Output = lg_Output (ls_default st), ll_kind = lg_kind (ls_default st), ll_Level = LevelInfo, ll_msg = msg,
      ll_attrs = lg_attrs (ls_default st) @ ctx_attrs ctx @ kvs\<rparr>]"
  using args_attrs_pairs [of kvs "[]"] assms by (simp add: InfoContext_def log_at_lines WithContext_spec)

text \<open>The line that ends an operation carries the attributes it was started with, also after \<open>Init\<close>.\<close>

lemma operation_lines:
  assumes "StartOperation t name (concat (map (\<lambda>(k, v). [AString k, v]) kvs)) st = (op, st1)" "lg_Level (ls_default st) \<le> LevelInfo"
  shows "ls_lines (Success t' op [] (Init cfg st1)) = ls_lines st1 @
    [\<lparr>ll_Output = lg_Output (ls_default st), ll_kind = lg_kind (ls_default st), ll_Level = LevelInfo, ll_msg = ''operation completed'',
      ll_attrs = lg_attrs (ls_default st) @ [(''operation'', AString name), (''status'', AString ''success''), (''duration_ms'', AInt (t' - t))] @ kvs\<rparr>]"
  using assms args_attrs_pairs [of kvs "[]"]
  by (auto simp: StartOperation_def Success_def Let_def log_at_lines Init_def)

end
