(* ===== verification/Metrics.thy ===== *)
theory Metrics
  imports Prelude Complex_Main
begin

text \<open>
  Model of \<open>internal/metrics/metrics.go\<close>: the metrics that are registered, the functions that record them,
  and the sliding window that estimates the transfer speed. The Prometheus client is not part of the
  sources: it is the argument \<open>client\<close>, which performs one call on its own state and may panic. Times are
  nanoseconds, an \<open>int64\<close> is a word, and a \<open>float64\<close> is an exact rational. \<open>Start\<close> and \<open>Stop\<close> of the HTTP
  server are left out.
\<close>

section \<open>The registered metrics\<close>

datatype metric_kind = Counter | Gauge | Histogram

datatype buckets = NoBuckets | ExponentialBuckets rat rat nat | LinearBuckets rat rat nat

record metric_opts =
  mo_kind :: metric_kind
  mo_Subsystem :: string
  mo_Name :: string
  mo_Buckets :: buckets
  mo_labels :: "string list"

definition LabelPeerID :: string where "LabelPeerID = ''peer_id''"
definition LabelDirection :: string where "LabelDirection = ''direction''"
definition LabelOperation :: string where "LabelOperation = ''operation''"
definition LabelStatus :: string where "LabelStatus = ''status''"

lemmas label_defs = LabelPeerID_def LabelDirection_def LabelOperation_def LabelStatus_def

datatype metric =
    bytesTransferred | transferDuration | transferSpeed
  | chunksTotal | chunksDeduplicated | chunksStored | chunkSize
  | merkleTreeDepth | merkleNodesTotal | merkleDiffDuration | merkleDirtyNodes
  | deltaBytesSkipped | deltaBytesTransferred | deltaCompressionRatio
  | activeConnections | connectionAttempts | holePunchAttempts
  | syncOperations | syncDuration | filesWatched | fileEvents

definition opts :: "metric_kind \<Rightarrow> string \<Rightarrow> string \<Rightarrow> buckets \<Rightarrow> string list \<Rightarrow> metric_opts" where
  "opts kind sub name bs labels =
     \<lparr>mo_kind = kind, mo_Subsystem = sub, mo_Name = name, mo_Buckets = bs, mo_labels = labels\<rparr>"

fun registered :: "metric \<Rightarrow> metric_opts" where
  "registered bytesTransferred = opts Counter ''transfer'' ''bytes_total'' NoBuckets [LabelDirection, LabelPeerID]"
| "registered transferDuration =
     opts Histogram ''transfer'' ''duration_seconds'' (ExponentialBuckets (1 / 1000) 2 15) [LabelDirection, LabelPeerID]"
| "registered transferSpeed = opts Gauge ''transfer'' ''speed_bytes_per_second'' NoBuckets [LabelDirection]"
| "registered chunksTotal = opts Counter ''chunks'' ''processed_total'' NoBuckets []"
| "registered chunksDeduplicated = opts Counter ''chunks'' ''deduplicated_total'' NoBuckets []"
| "registered chunksStored = opts Counter ''chunks'' ''stored_total'' NoBuckets []"
| "registered chunkSize = opts Histogram ''chunks'' ''size_bytes'' (ExponentialBuckets 256 2 10) []"
| "registered merkleTreeDepth = opts Gauge ''merkle'' ''tree_depth'' NoBuckets []"
| "registered merkleNodesTotal = opts Gauge ''merkle'' ''nodes_total'' NoBuckets []"
| "registered merkleDiffDuration = opts Histogram ''merkle'' ''diff_duration_seconds'' (ExponentialBuckets (1 / 10000) 2 15) []"
| "registered merkleDirtyNodes = opts Histogram ''merkle'' ''dirty_nodes_per_diff'' (ExponentialBuckets 1 2 12) []"
| "registered deltaBytesSkipped = opts Counter ''delta'' ''bytes_skipped_total'' NoBuckets []"
| "registered deltaBytesTransferred = opts Counter ''delta'' ''bytes_transferred_total'' NoBuckets []"
| "registered deltaCompressionRatio = opts Histogram ''delta'' ''compression_ratio'' (LinearBuckets 0 (1 / 10) 11) []"
| "registered activeConnections = opts Gauge ''connections'' ''active'' NoBuckets []"
| "registered connectionAttempts = opts Counter ''connections'' ''attempts_total'' NoBuckets [LabelStatus]"
| "registered holePunchAttempts = opts Counter ''nat'' ''hole_punch_attempts_total'' NoBuckets [LabelStatus]"
| "registered syncOperations = opts Counter ''sync'' ''operations_total'' NoBuckets [LabelOperation, LabelStatus]"
| "registered syncDuration = opts Histogram ''sync'' ''duration_seconds'' (ExponentialBuckets (1 / 10) 2 12) [LabelOperation]"
| "registered filesWatched = opts Gauge ''watcher'' ''files_total'' NoBuckets []"
| "registered fileEvents = opts Counter ''watcher'' ''events_total'' NoBuckets [''event_type'']"

text \<open>One call of the client: on a metric, with values for its labels.\<close>

datatype metric_call = Add metric "string list" rat | Observe metric "string list" rat | SetGauge metric "string list" rat

type_synonym 's client = "metric_call \<Rightarrow> 's \<Rightarrow> go_error option \<times> 's"

fun run_calls :: "'s client \<Rightarrow> metric_call list \<Rightarrow> 's \<Rightarrow> go_error option \<times> 's" where
  "run_calls client [] s = (None, s)"
| "run_calls client (c # cs) s = (case client c s of (Some e, s') \<Rightarrow> (Some e, s') | (None, s') \<Rightarrow> run_calls client cs s')"

abbreviation Inc :: "metric \<Rightarrow> string list \<Rightarrow> metric_call" where
  "Inc m labels \<equiv> Add m labels 1"


section \<open>The speed tracker\<close>

text \<open>The field \<open>lastUpdate\<close> is neither written nor read.\<close>

record speedTracker =
  sk_bytesTotal :: "64 word"
  sk_windowBytes :: "64 word list"
  sk_windowTimes :: "int list"
  sk_windowSize :: int

definition newSpeedTracker :: "int \<Rightarrow> speedTracker" where
  "newSpeedTracker windowSize = \<lparr>sk_bytesTotal = 0, sk_windowBytes = [], sk_windowTimes = [], sk_windowSize = windowSize\<rparr>"

definition Seconds :: "int \<Rightarrow> rat" where
  "Seconds d = of_int d / 1000000000"

definition Record :: "int \<Rightarrow> 64 word \<Rightarrow> speedTracker \<Rightarrow> rat \<times> speedTracker" where
  "Record now bytes st =
     (let wb = sk_windowBytes st @ [bytes];
          wt = sk_windowTimes st @ [now];
          trim = sk_windowSize st < int (length wb);
          wb' = (if trim then tl wb else wb);
          wt' = (if trim then tl wt else wt);
          st' = st\<lparr>sk_bytesTotal := sk_bytesTotal st + bytes, sk_windowBytes := wb', sk_windowTimes := wt'\<rparr>
      in if length wt' < 2 then (0, st')
         else let duration = last wt' - hd wt' in
              if duration = 0 then (0, st')
              else (of_int (sint (sum_list wb')) / Seconds duration, st'))"


section \<open>Recording\<close>

record Metrics =
  mt_upload :: speedTracker
  mt_download :: speedTracker

text \<open>\<open>Get\<close> creates the global instance once; the argument is the global variable.\<close>

definition Get_metrics :: "Metrics option \<Rightarrow> Metrics \<times> Metrics option" where
  "Get_metrics g =
     (case g of
        Some m \<Rightarrow> (m, g)
      | None \<Rightarrow> let m = \<lparr>mt_upload = newSpeedTracker 10, mt_download = newSpeedTracker 10\<rparr> in (m, Some m))"

definition RecordUpload :: "'s client \<Rightarrow> int \<Rightarrow> string \<Rightarrow> 64 word \<Rightarrow> int \<Rightarrow> Metrics \<Rightarrow> 's \<Rightarrow> go_error option \<times> Metrics \<times> 's" where
  "RecordUpload client now peerID bytes duration m s =
     (case run_calls client [Add bytesTransferred [''upload'', peerID] (of_int (sint bytes)),
                             Observe transferDuration [''upload'', peerID] (Seconds duration)] s of
        (Some e, s') \<Rightarrow> (Some e, m, s')
      | (None, s') \<Rightarrow>
          (case Record now bytes (mt_upload m) of
             (speed, st) \<Rightarrow>
               (case client (SetGauge transferSpeed [''upload''] speed) s' of (e, s'') \<Rightarrow> (e, m\<lparr>mt_upload := st\<rparr>, s''))))"

definition RecordDownload :: "'s client \<Rightarrow> int \<Rightarrow> string \<Rightarrow> 64 word \<Rightarrow> int \<Rightarrow> Metrics \<Rightarrow> 's \<Rightarrow> go_error option \<times> Metrics \<times> 's" where
  "RecordDownload client now peerID bytes duration m s =
     (case run_calls client [Add bytesTransferred [''download'', peerID] (of_int (sint bytes)),
                             Observe transferDuration [''download'', peerID] (Seconds duration)] s of
        (Some e, s') \<Rightarrow> (Some e, m, s')
      | (None, s') \<Rightarrow>
          (case Record now bytes (mt_download m) of
             (speed, st) \<Rightarrow>
               (case client (SetGauge transferSpeed [''download''] speed) s' of (e, s'') \<Rightarrow> (e, m\<lparr>mt_download := st\<rparr>, s''))))"

text \<open>The other functions only make calls.\<close>

definition RecordChunkProcessed :: "int \<Rightarrow> metric_call list" where
  "RecordChunkProcessed sz = [Inc chunksTotal [], Observe chunkSize [] (of_int sz)]"

definition RecordChunkDeduplicated :: "metric_call list" where
  "RecordChunkDeduplicated = [Inc chunksDeduplicated []]"

definition RecordChunkStored :: "metric_call list" where
  "RecordChunkStored = [Inc chunksStored []]"

definition SetMerkleTreeStats :: "int \<Rightarrow> int \<Rightarrow> metric_call list" where
  "SetMerkleTreeStats depth nodeCount = [SetGauge merkleTreeDepth [] (of_int depth), SetGauge merkleNodesTotal [] (of_int nodeCount)]"

definition RecordMerkleDiff :: "int \<Rightarrow> int \<Rightarrow> metric_call list" where
  "RecordMerkleDiff duration dirtyNodes =
     [Observe merkleDiffDuration [] (Seconds duration), Observe merkleDirtyNodes [] (of_int dirtyNodes)]"

definition RecordDeltaSync :: "64 word \<Rightarrow> 64 word \<Rightarrow> metric_call list" where
  "RecordDeltaSync skipped transferred =
     (let total = skipped + transferred in
      [Add deltaBytesSkipped [] (of_int (sint skipped)), Add deltaBytesTransferred [] (of_int (sint transferred))] @
      (if 0 < sint total then [Observe deltaCompressionRatio [] (of_int (sint skipped) / of_int (sint total))] else []))"

definition status_of :: "bool \<Rightarrow> string" where
  "status_of success = (if success then ''success'' else ''failed'')"

definition RecordConnectionAttempt :: "bool \<Rightarrow> metric_call list" where
  "RecordConnectionAttempt success = [Inc connectionAttempts [status_of success]]"

definition SetActiveConnections :: "int \<Rightarrow> metric_call list" where
  "SetActiveConnections count = [SetGauge activeConnections [] (of_int count)]"

definition RecordHolePunch :: "bool \<Rightarrow> metric_call list" where
  "RecordHolePunch success = [Inc holePunchAttempts [status_of success]]"

definition RecordSyncOperation :: "string \<Rightarrow> bool \<Rightarrow> int \<Rightarrow> metric_call list" where
  "RecordSyncOperation operation success duration =
     [Inc syncOperations [operation, status_of success], Observe syncDuration [operation] (Seconds duration)]"

definition SetFilesWatched :: "int \<Rightarrow> metric_call list" where
  "SetFilesWatched count = [SetGauge filesWatched [] (of_int count)]"

definition RecordFileEvent :: "string \<Rightarrow> metric_call list" where
  "RecordFileEvent eventType = [Inc fileEvents [eventType]]"

text \<open>The convenience functions work on the global instance.\<close>

definition on_global ::
  "(Metrics \<Rightarrow> 's \<Rightarrow> go_error option \<times> Metrics \<times> 's) \<Rightarrow> Metrics option \<Rightarrow> 's \<Rightarrow> go_error option \<times> Metrics option \<times> 's" where
  "on_global f g s = (case f (fst (Get_metrics g)) s of (e, m, s') \<Rightarrow> (e, Some m, s'))"

definition global_calls :: "'s client \<Rightarrow> metric_call list \<Rightarrow> Metrics \<Rightarrow> 's \<Rightarrow> go_error option \<times> Metrics \<times> 's" where
  "global_calls client cs m s = (case run_calls client cs s of (e, s') \<Rightarrow> (e, m, s'))"

text \<open>
  What a client of the package can ask for, and one request. The constructors whose name begins with
  \<open>M\<close> are methods of the global instance reached through \<open>Get\<close>.
\<close>

datatype metric_op =
    OpUpload string "64 word" int | OpDownload string "64 word" int | OpChunkProcessed int | OpChunkDeduplicated
  | OpChunkStored | OpMerkleTreeStats int int | OpMerkleDiff int int | OpDeltaSync "64 word" "64 word"
  | MConnectionAttempt bool | MActiveConnections int | MHolePunch bool | MSyncOperation string bool int
  | MFilesWatched int | MFileEvent string

fun exec_op :: "'s client \<Rightarrow> int \<Rightarrow> metric_op \<Rightarrow> Metrics option \<Rightarrow> 's \<Rightarrow> go_error option \<times> Metrics option \<times> 's" where
  "exec_op client now (OpUpload p b d) = on_global (RecordUpload client now p b d)"
| "exec_op client now (OpDownload p b d) = on_global (RecordDownload client now p b d)"
| "exec_op client now (OpChunkProcessed n) = on_global (global_calls client (RecordChunkProcessed n))"
| "exec_op client now OpChunkDeduplicated = on_global (global_calls client RecordChunkDeduplicated)"
| "exec_op client now OpChunkStored = on_global (global_calls client RecordChunkStored)"
| "exec_op client now (OpMerkleTreeStats d n) = on_global (global_calls client (SetMerkleTreeStats d n))"
| "exec_op client now (OpMerkleDiff d n) = on_global (global_calls client (RecordMerkleDiff d n))"
| "exec_op client now (OpDeltaSync x y) = on_global (global_calls client (RecordDeltaSync x y))"
| "exec_op client now (MConnectionAttempt ok) = on_global (global_calls client (RecordConnectionAttempt ok))"
| "exec_op client now (MActiveConnections n) = on_global (global_calls client (SetActiveConnections n))"
| "exec_op client now (MHolePunch ok) = on_global (global_calls client (RecordHolePunch ok))"
| "exec_op client now (MSyncOperation op ok d) = on_global (global_calls client (RecordSyncOperation op ok d))"
| "exec_op client now (MFilesWatched n) = on_global (global_calls client (SetFilesWatched n))"
| "exec_op client now (MFileEvent t) = on_global (global_calls client (RecordFileEvent t))"

fun exec_ops :: "'s client \<Rightarrow> (int \<times> metric_op) list \<Rightarrow> Metrics option \<Rightarrow> 's \<Rightarrow> go_error option \<times> Metrics option \<times> 's" where
  "exec_ops client [] g s = (None, g, s)"
| "exec_ops client ((now, op) # ops) g s =
     (case exec_op client now op g s of
        (Some e, g', s') \<Rightarrow> (Some e, g', s')
      | (None, g', s') \<Rightarrow> exec_ops client ops g' s')"

text \<open>The handlers of the HTTP server; \<open>page\<close> is the answer of the Prometheus handler.\<close>

definition NewServer :: "nat \<times> string \<Rightarrow> string \<Rightarrow> nat \<times> string" where
  "NewServer page path =
     (if path = ''/metrics'' then page
      else if path = ''/health'' then (200, ''OK'')
      else (404, ''404 page not found'' @ [CHR 0x0A]))"

section \<open>Lemmas\<close>

text \<open>
  A call that the client accepts: the metric has the kind the call needs and as many labels as values
  are given, and a counter is not decreased.
\<close>

fun call_ok :: "metric_call \<Rightarrow> bool" where
  "call_ok (Add m ls v) \<longleftrightarrow> mo_kind (registered m) = Counter \<and> length ls = length (mo_labels (registered m)) \<and> 0 \<le> v"
| "call_ok (Observe m ls v) \<longleftrightarrow> mo_kind (registered m) = Histogram \<and> length ls = length (mo_labels (registered m))"
| "call_ok (SetGauge m ls v) \<longleftrightarrow> mo_kind (registered m) = Gauge \<and> length ls = length (mo_labels (registered m))"

fun op_ok :: "metric_op \<Rightarrow> bool" where
  "op_ok (OpUpload p b d) \<longleftrightarrow> 0 \<le> sint b"
| "op_ok (OpDownload p b d) \<longleftrightarrow> 0 \<le> sint b"
| "op_ok (OpDeltaSync x y) \<longleftrightarrow> 0 \<le> sint x \<and> 0 \<le> sint y"
| "op_ok op \<longleftrightarrow> True"

definition all_metrics :: "metric list" where
  "all_metrics =
     [bytesTransferred, transferDuration, transferSpeed, chunksTotal, chunksDeduplicated, chunksStored, chunkSize,
      merkleTreeDepth, merkleNodesTotal, merkleDiffDuration, merkleDirtyNodes, deltaBytesSkipped, deltaBytesTransferred,
      deltaCompressionRatio, activeConnections, connectionAttempts, holePunchAttempts, syncOperations, syncDuration,
      filesWatched, fileEvents]"

definition full_name :: "metric \<Rightarrow> string" where
  "full_name m = ''p2psync_'' @ mo_Subsystem (registered m) @ ''_'' @ mo_Name (registered m)"

lemma all_metrics_UNIV: "set all_metrics = UNIV"
proof -
  have "m \<in> set all_metrics" for m by (cases m) (simp_all add: all_metrics_def)
  then show ?thesis by blast
qed

lemmas calls_defs = RecordChunkProcessed_def RecordChunkDeduplicated_def RecordChunkStored_def SetMerkleTreeStats_def
  RecordMerkleDiff_def RecordDeltaSync_def RecordConnectionAttempt_def SetActiveConnections_def RecordHolePunch_def
  RecordSyncOperation_def SetFilesWatched_def RecordFileEvent_def

lemma run_calls_ok:
  assumes "\<And>c s. call_ok c \<Longrightarrow> fst (client c s) = None" "list_all call_ok cs"
  shows "fst (run_calls client cs s) = None"
  using assms(2)
proof (induction cs arbitrary: s)
  case (Cons c cs)
  then have "fst (client c s) = None" using assms(1) by simp
  then show ?case using Cons by (auto split: prod.split option.split)
qed simp

lemma exec_op_ok:
  assumes "\<And>c s. call_ok c \<Longrightarrow> fst (client c s) = None" "op_ok op"
  shows "fst (exec_op client now op g s) = None"
proof -
  have only: "fst (on_global (global_calls client cs) g s) = None" if "list_all call_ok cs" for cs
    using run_calls_ok [of client cs s, OF assms(1) that] by (auto simp: on_global_def global_calls_def split: prod.split)
  have nonneg: "0 \<le> (of_int (sint b) :: rat)" if "0 \<le> sint b" for b :: "64 word"
    using that by (simp only: of_int_0_le_iff)
  have speed: "fst (run_calls client [Add bytesTransferred [dir, p] (of_int (sint b)), Observe transferDuration [dir, p] t] s) = None"
    if "0 \<le> sint b" for dir p t s and b :: "64 word"
    by (rule run_calls_ok [OF assms(1)]) (use nonneg [OF that] in \<open>simp_all add: opts_def\<close>)
  have gauge: "fst (client (SetGauge transferSpeed [dir] v) s) = None" for dir v s
    by (rule assms(1)) (simp add: opts_def)
  show ?thesis
  proof (cases op)
    case (OpUpload p b d)
    then show ?thesis
      using assms(2) speed [of b "''upload''"] gauge
      by (auto simp: on_global_def RecordUpload_def simp del: run_calls.simps split: prod.split option.split) (metis fst_conv option.distinct(1))+
  next
    case (OpDownload p b d)
    then show ?thesis
      using assms(2) speed [of b "''download''"] gauge
      by (auto simp: on_global_def RecordDownload_def simp del: run_calls.simps split: prod.split option.split) (metis fst_conv option.distinct(1))+
  next
    case (OpDeltaSync x y)
    then show ?thesis using assms(2) nonneg [of x] nonneg [of y] by (auto intro!: only simp: calls_defs opts_def Let_def)
  qed (auto intro!: only simp: calls_defs opts_def)
qed

text \<open>The window after any number of records.\<close>

definition record_all :: "(int \<times> 64 word) list \<Rightarrow> speedTracker \<Rightarrow> speedTracker" where
  "record_all evs st = foldl (\<lambda>st (now, bytes). snd (Record now bytes st)) st evs"

definition window :: "int \<Rightarrow> 'a list \<Rightarrow> 'a list" where
  "window w xs = drop (length xs - nat w) xs"

lemma window_snoc:
  "0 \<le> w \<Longrightarrow> window w (xs @ [x]) = (if w < int (length (window w xs @ [x])) then tl (window w xs @ [x]) else window w xs @ [x])"
proof -
  assume "0 \<le> w"
  then obtain k where w: "w = int k" using nonneg_int_cases by blast
  show ?thesis
  proof (cases "length xs < k")
    case False
    let ?n = "length xs - k"
    have "drop (Suc ?n) (xs @ [x]) = tl (drop ?n (xs @ [x]))" by (simp only: drop_Suc tl_drop)
    moreover have "drop ?n (xs @ [x]) = drop ?n xs @ [x]" by simp
    moreover have "length (xs @ [x]) - k = Suc ?n" using False by (simp add: Suc_diff_le)
    ultimately have "drop (length (xs @ [x]) - k) (xs @ [x]) = tl (drop ?n xs @ [x])" by metis
    then show ?thesis using False by (simp add: window_def w)
  qed (simp add: window_def w)
qed

lemma map_window: "map f (window w xs) = window w (map f xs)"
  by (simp add: window_def drop_map)

lemma snd_Record:
  "snd (Record now b st) =
     (let trim = sk_windowSize st < int (length (sk_windowBytes st @ [b])) in
      st\<lparr>sk_bytesTotal := sk_bytesTotal st + b,
         sk_windowBytes := if trim then tl (sk_windowBytes st @ [b]) else sk_windowBytes st @ [b],
         sk_windowTimes := if trim then tl (sk_windowTimes st @ [now]) else sk_windowTimes st @ [now]\<rparr>)"
  by (simp add: Record_def Let_def)

lemma record_all_spec:
  assumes "0 \<le> w"
  shows "record_all evs (newSpeedTracker w) =
    \<lparr>sk_bytesTotal = sum_list (map snd evs), sk_windowBytes = window w (map snd evs), sk_windowTimes = window w (map fst evs),
     sk_windowSize = w\<rparr>"
proof (induction evs rule: rev_induct)
  case Nil
  then show ?case by (simp add: record_all_def newSpeedTracker_def window_def)
next
  case (snoc ev evs)
  obtain now b where ev: "ev = (now, b)" by force
  have "length (window w (map fst evs)) = length (window w (map snd evs))" by (simp add: window_def)
  then have "snd (Record now b (record_all evs (newSpeedTracker w))) =
    \<lparr>sk_bytesTotal = sum_list (map snd evs) + b, sk_windowBytes = window w (map snd evs @ [b]),
     sk_windowTimes = window w (map fst evs @ [now]), sk_windowSize = w\<rparr>"
    unfolding snoc.IH snd_Record by (simp add: window_snoc [OF assms] Let_def)
  then show ?case by (simp add: record_all_def ev)
qed

text \<open>The value that a record returns.\<close>

lemma record_speed:
  assumes "0 \<le> w"
  shows "fst (Record now b (record_all evs (newSpeedTracker w))) =
    (let win = window w (evs @ [(now, b)]) in
     if length win < 2 \<or> fst (hd win) = now then 0
     else of_int (sint (sum_list (map snd win))) / Seconds (now - fst (hd win)))"
proof -
  let ?win = "window w (evs @ [(now, b)])" and ?st = "record_all evs (newSpeedTracker w)"
  have b: "window w (map snd evs @ [b]) = map snd ?win" and t: "window w (map fst evs @ [now]) = map fst ?win"
    by (simp_all add: map_window)
  have st: "sk_windowBytes (snd (Record now b ?st)) = map snd ?win" "sk_windowTimes (snd (Record now b ?st)) = map fst ?win"
    using record_all_spec [OF assms, of "evs @ [(now, b)]"] by (simp_all add: record_all_def map_window)
  have last: "last (map fst ?win) = now" if "?win \<noteq> []"
    using last_drop [of "length (evs @ [(now, b)]) - nat w" "evs @ [(now, b)]"] that by (simp add: window_def last_map del: drop_append)
  have "fst (Record now b ?st) =
    (let wt = sk_windowTimes (snd (Record now b ?st)); wb = sk_windowBytes (snd (Record now b ?st)) in
     if length wt < 2 \<or> last wt - hd wt = 0 then 0 else of_int (sint (sum_list wb)) / Seconds (last wt - hd wt))"
    by (simp add: Record_def Let_def)
  moreover have "hd (map fst ?win) = fst (hd ?win)" "last (map fst ?win) = now" if "\<not> length ?win < 2"
    using that last by (cases ?win; auto)+
  ultimately show ?thesis unfolding st by (auto simp: Let_def)
qed


section \<open>Properties\<close>


text \<open>A client that panics on every other call and counts the accepted ones.\<close>

definition strict_client :: "nat client" where
  "strict_client c n = (if call_ok c then (None, n + 1) else (Some (Panic ''metrics''), n))"




text \<open>
  The bytes of the first record of the window are counted, the time they took is not. At a steady rate
  the result exceeds the rate by the factor \<open>(n + 1) / n\<close> for \<open>n + 1\<close> records in the window: it is twice
  the rate for two records.
\<close>

lemma speed_overestimated:
  assumes "0 < n" "int n < w" "0 < d" "0 \<le> sint b" "int (Suc n) * sint b < 2 ^ 63"
  shows "fst (Record (int n * d) b (record_all (map (\<lambda>i. (int i * d, b)) [0..<n]) (newSpeedTracker w))) =
    of_nat (Suc n) / of_nat n * (of_int (sint b) / Seconds d)"
proof -
  let ?evs = "map (\<lambda>i. (int i * d, b)) [0..<Suc n]"
  have win: "window w (map (\<lambda>i. (int i * d, b)) [0..<n] @ [(int n * d, b)]) = ?evs" using assms(2) by (simp add: window_def)
  have hd: "fst (hd ?evs) = 0" by (simp add: hd_map del: upt_Suc)
  have sum: "sum_list (map snd ?evs) = of_nat (Suc n) * b"
    by (simp only: map_map comp_def snd_conv) (simp add: sum_list_triv del: upt_Suc)
  have "of_nat (Suc n) * b = (of_int (int (Suc n) * sint b) :: 64 word)" by simp
  moreover have "sint (of_int (int (Suc n) * sint b) :: 64 word) = int (Suc n) * sint b"
    using assms(4,5) by (subst sint_sbintrunc') (auto intro!: signed_take_bit_int_eq_self intro: order_trans [of _ 0])
  ultimately have sint: "sint (of_nat (Suc n) * b) = int (Suc n) * sint b" by metis
  have "0 \<le> w" "\<not> (length ?evs < 2 \<or> 0 = int n * d)" using assms(1-3) by simp_all
  then have "fst (Record (int n * d) b (record_all (map (\<lambda>i. (int i * d, b)) [0..<n]) (newSpeedTracker w))) =
      of_int (int (Suc n) * sint b) / Seconds (int n * d - 0)"
    by (simp only: record_speed Let_def win hd sum sint if_False)
  also have "\<dots> = of_nat (Suc n) / of_nat n * (of_int (sint b) / Seconds d)" by (simp add: Seconds_def)
  finally show ?thesis .
qed

end
