(* ===== verification/Daemon.thy ===== *)
theory Daemon
  imports Clone Endpoint Logging Metrics
begin

text \<open>
  The rest of the daemon in \<open>cmd/p2p-file-sync/main.go\<close>: the set-up of logging that runs before every
  command, the version command, and what \<open>serveCmd\<close> does once its transport exists, from listening to the
  shutdown. What the command prints for its user is left out, except for the slice of the root hash.
\<close>

section \<open>Definitions\<close>

text \<open>Standard error is output 2.\<close>

definition PersistentPreRun :: "bool \<Rightarrow> bool \<Rightarrow> log_state \<Rightarrow> log_state" where
  "PersistentPreRun verbose jsonLogs st =
     (let level = (if verbose then LevelDebug else LevelInfo);
          format = (if jsonLogs then ''json'' else ''text'')
      in Init (Some \<lparr>lc_Level = level, lc_Format = format, lc_Output = 2, lc_AddSource = False, lc_TimeFormat = []\<rparr>) st)"

definition versionCmd :: "string \<Rightarrow> string \<Rightarrow> string \<Rightarrow> string" where
  "versionCmd version commit date =
     ''p2p-file-sync '' @ version @ [CHR 0x0A] @ ''  commit: '' @ commit @ [CHR 0x0A] @ ''  built:  '' @ date @ [CHR 0x0A]"

text \<open>
  What the goroutine of the metrics server logs; \<open>failed\<close> is the error with which the server ends, if it
  is not that of a server closed on purpose.
\<close>

definition metrics_server_log :: "string \<Rightarrow> string option \<Rightarrow> log_state \<Rightarrow> log_state" where
  "metrics_server_log metricsAddr failed st =
     (let st = Info ''starting metrics server'' [AString ''addr'', AString metricsAddr] st
      in case failed of None \<Rightarrow> st | Some e \<Rightarrow> LogError ''metrics server error'' [AString ''error'', AString e] st)"

text \<open>
  The run of the daemon. \<open>serving\<close> is what happens to the transport while the command waits for a signal
  or the end of its context; \<open>early\<close> says whether the goroutine of the metrics server is ahead of the
  command. \<open>ids\<close> are the peers that \<open>Close\<close> visits.
\<close>

definition serve_run ::
  "(string \<Rightarrow> UDPAddr option) \<Rightarrow> (UDPAddr \<Rightarrow> bool) \<Rightarrow> bool \<Rightarrow> bool \<Rightarrow> string option \<Rightarrow> (endpoint \<Rightarrow> endpoint) \<Rightarrow> (endpoint \<Rightarrow> PeerID list) \<Rightarrow>
   nat \<Rightarrow> string \<Rightarrow> string \<Rightarrow> bytes option \<Rightarrow> Transport \<Rightarrow> log_state \<Rightarrow> unit res \<times> endpoint \<times> log_state" where
  "serve_run resolver bound quic early failed serving ids port absDir metricsAddr merkleRoot t st =
     (let listenAddr = CHR '':'' # dec port in
      case Listen resolver bound quic listenAddr (new_endpoint t) of
        (Inl e, ep) \<Rightarrow> (Inl (Err ''starting listener''), ep, st)
      | (Inr _, ep) \<Rightarrow>
          let ms = (if metricsAddr \<noteq> [] then metrics_server_log metricsAddr failed else id);
              st1 = (if early then ms st else st)
          in if (case merkleRoot of Some r \<Rightarrow> length r < 8 | None \<Rightarrow> False)
             then (Inl (Panic ''slice bounds out of range''), ep, st1)
             else
               let st2 = Info ''daemon started'' [AString ''dir'', AString absDir, AString ''addr'', AString listenAddr,
                           AString ''metrics'', AString metricsAddr] st1;
                   st3 = (if early then st2 else ms st2);
                   ep1 = serving ep
               in (Inr (), Close (ids ep1) ep1, st3))"


section \<open>Lemmas\<close>

lemma Info_level: "lg_Level (ls_default st) \<le> LevelInfo \<Longrightarrow> ls_lines (Info msg args st) =
    ls_lines st @ [\<lparr>ll_Output = lg_Output (ls_default st), ll_kind = lg_kind (ls_default st), ll_Level = LevelInfo, ll_msg = msg,
      ll_attrs = lg_attrs (ls_default st) @ args_attrs args\<rparr>]"
  by (simp add: Info_def log_at_def)

text \<open>Debug messages are logged exactly when the verbose flag is given.\<close>

lemma verbose_debug:
  "ls_lines (Debug msg args (PersistentPreRun verbose json st)) = ls_lines st \<longleftrightarrow> \<not> verbose"
  by (simp add: Debug_def PersistentPreRun_def Init_def log_at_def level_defs)

text \<open>
  A daemon that starts ends without a peer, its context cancelled, whatever connections it accepted
  meanwhile; it does not panic, because the hash of a root has 32 bytes.
\<close>

lemma serve_run_ends:
  assumes "Listen resolver bound quic (CHR '':'' # dec port) (new_endpoint t) = (Inr (), ep)"
    and "table_ok t" "case merkleRoot of Some r \<Rightarrow> length r = 32 | None \<Rightarrow> True"
    and "\<And>ep. set (ids ep) = dom (tp_peers (ep_transport ep))"
  shows "\<exists>ep' st'. serve_run resolver bound quic early failed (\<lambda>ep. fst (acceptLoop H cd as ep)) ids port absDir metricsAddr merkleRoot t st = (Inr (), ep', st') \<and>
    tp_peers (ep_transport ep') = Map.empty \<and> ep_cancelled ep' \<and> \<not> ep_listening ep'"
proof -
  have "ep_transport ep = t"
    using assms(1) by (auto simp: Listen_def new_endpoint_def Let_def split: option.splits if_splits)
  then have "table_ok (ep_transport (fst (acceptLoop H cd as ep)))" using table_ok_accept [of ep H cd as] assms(2) by simp
  then have "tp_peers (ep_transport (Close (ids (fst (acceptLoop H cd as ep))) (fst (acceptLoop H cd as ep)))) = Map.empty"
    using assms(4) by (rule Close_spec(1))
  then show ?thesis using assms(1,3) by (auto simp: serve_run_def Let_def Close_def split: option.splits)
qed

end
