(* ===== verification/Db.thy ===== *)
theory Db
  imports Prelude "HOL-Library.Multiset" "HOL-Library.List_Lexorder" "HOL-Library.Char_ord"
begin

text \<open>
  Model of \<open>internal/db/store.go\<close>: the metadata store. Tables are lists of rows and each SQL statement
  of the source is the table operation it denotes. What the engine is free to choose is an argument
  (record \<open>engine\<close>): which statements fail, the clock, how far above the largest row ID ever
  used \<open>AUTOINCREMENT\<close> picks the next one, and whether foreign keys are enforced on the connection. A database value is the
  committed state, or the state a transaction sees while its function runs. A time is a number of
  nanoseconds since the epoch.
\<close>

section \<open>Definitions\<close>

definition Unix :: "int \<Rightarrow> int" where "Unix t = t div 1000000000"

definition time_Unix :: "int \<Rightarrow> int" where "time_Unix s = s * 1000000000"

lemma Unix_time [simp]: "Unix (time_Unix s) = s"
  by (simp add: Unix_def time_Unix_def)

record FileRecord =
  fr_ID :: int
  fr_Path :: string
  fr_MerkleRoot :: bytes
  fr_Size :: int
  fr_ModTime :: int
  fr_ChunkCount :: int
  fr_CreatedAt :: int
  fr_UpdatedAt :: int

record Snapshot =
  sn_ID :: int
  sn_RootHash :: bytes
  sn_FileCount :: int
  sn_TotalSize :: int
  sn_CreatedAt :: int
  sn_Comment :: string

record SnapshotFile =
  sf_SnapshotID :: int
  sf_FilePath :: string
  sf_MerkleRoot :: bytes
  sf_Size :: int

text \<open>The rows of the four tables, and the database with the sequence numbers of its \<open>AUTOINCREMENT\<close> keys.\<close>

record file_row =
  fl_id :: int
  fl_path :: string
  fl_merkle_root :: bytes
  fl_size :: int
  fl_mod_time :: int
  fl_chunk_count :: int
  fl_created_at :: int
  fl_updated_at :: int

record snapshot_row =
  sp_id :: int
  sp_root_hash :: bytes
  sp_file_count :: int
  sp_total_size :: int
  sp_created_at :: int
  sp_comment :: "string option"

record chunk_row =
  ck_file_id :: int
  ck_chunk_index :: int
  ck_chunk_hash :: bytes
  ck_size :: int

record database =
  db_files :: "file_row list"
  db_snapshots :: "snapshot_row list"
  db_snapshot_files :: "SnapshotFile list"
  db_file_chunks :: "chunk_row list"
  db_seq_files :: int
  db_seq_snapshots :: int

definition schema :: database where
  "schema = \<lparr>db_files = [], db_snapshots = [], db_snapshot_files = [], db_file_chunks = [],
     db_seq_files = 0, db_seq_snapshots = 0\<rparr>"

record engine =
  en_fail :: "nat \<Rightarrow> bool"
  en_now :: int
  en_gap :: nat
  en_fk :: bool

definition next_id :: "engine \<Rightarrow> int \<Rightarrow> int" where
  "next_id en n = n + 1 + int (en_gap en)"

text \<open>Statement numbers of \<open>en_fail\<close> follow the order in which each function issues them.\<close>

definition Open :: "engine \<Rightarrow> database option \<Rightarrow> database res" where
  "Open en disk =
     (if en_fail en 0 then Inl (Err ''opening database'')
      else if en_fail en 1 then Inl (Err ''setting WAL mode'')
      else if en_fail en 2 then Inl (Err ''enabling foreign keys'')
      else if en_fail en 3 then Inl (Err ''initializing schema'')
      else Inr (case disk of None \<Rightarrow> schema | Some db \<Rightarrow> db))"

text \<open>
  Statements of a transaction are numbered from 3; 0, 1 and 2 are its begin, rollback and commit.
\<close>

definition Transaction :: "engine \<Rightarrow> (database \<Rightarrow> 'a res \<times> database) \<Rightarrow> database \<Rightarrow> 'a res \<times> database" where
  "Transaction en fn db =
     (if en_fail en 0 then (Inl (Err ''beginning transaction''), db)
      else case fn db of
             (Inl e, db') \<Rightarrow> if en_fail en 1 then (Inl (Err ''rollback failed''), db) else (Inl e, db)
           | (Inr x, db') \<Rightarrow> if en_fail en 2 then (Inl (Err ''committing transaction''), db) else (Inr x, db'))"

definition UpsertFile :: "engine \<Rightarrow> FileRecord \<Rightarrow> database \<Rightarrow> FileRecord res \<times> database" where
  "UpsertFile en record db =
     (if en_fail en 3 then (Inl (ErrMsg ''upserting file'' (fr_Path record)), db)
      else case find (\<lambda>r. fl_path r = fr_Path record) (db_files db) of
        Some row \<Rightarrow>
          (Inr (record\<lparr>fr_ID := fl_id row\<rparr>),
           db\<lparr>db_files := map (\<lambda>r. if fl_path r = fr_Path record
                then r\<lparr>fl_merkle_root := fr_MerkleRoot record, fl_size := fr_Size record,
                       fl_mod_time := Unix (fr_ModTime record), fl_chunk_count := fr_ChunkCount record,
                       fl_updated_at := en_now en\<rparr>
                else r) (db_files db)\<rparr>)
      | None \<Rightarrow>
          let i = next_id en (db_seq_files db) in
          (Inr (record\<lparr>fr_ID := i\<rparr>),
           db\<lparr>db_files := db_files db @
                [\<lparr>fl_id = i, fl_path = fr_Path record, fl_merkle_root = fr_MerkleRoot record,
                  fl_size = fr_Size record, fl_mod_time = Unix (fr_ModTime record),
                  fl_chunk_count = fr_ChunkCount record, fl_created_at = en_now en, fl_updated_at = en_now en\<rparr>],
              db_seq_files := i\<rparr>))"

definition scan_file :: "file_row \<Rightarrow> FileRecord" where
  "scan_file r =
     \<lparr>fr_ID = fl_id r, fr_Path = fl_path r, fr_MerkleRoot = fl_merkle_root r, fr_Size = fl_size r,
      fr_ModTime = time_Unix (fl_mod_time r), fr_ChunkCount = fl_chunk_count r,
      fr_CreatedAt = time_Unix (fl_created_at r), fr_UpdatedAt = time_Unix (fl_updated_at r)\<rparr>"

definition GetFile :: "engine \<Rightarrow> string \<Rightarrow> database \<Rightarrow> FileRecord option res" where
  "GetFile en path db =
     (if en_fail en 0 then Inl (ErrMsg ''getting file'' path)
      else Inr (map_option scan_file (find (\<lambda>r. fl_path r = path) (db_files db))))"

text \<open>With foreign keys enforced the deletion of a file deletes its chunk rows.\<close>

definition DeleteFile :: "engine \<Rightarrow> string \<Rightarrow> database \<Rightarrow> unit res \<times> database" where
  "DeleteFile en path db =
     (if en_fail en 3 then (Inl (ErrMsg ''deleting file'' path), db)
      else (Inr (),
        db\<lparr>db_files := filter (\<lambda>r. fl_path r \<noteq> path) (db_files db),
           db_file_chunks := (if en_fk en
             then filter (\<lambda>c. \<not> (\<exists>r \<in> set (db_files db). fl_path r = path \<and> fl_id r = ck_file_id c)) (db_file_chunks db)
             else db_file_chunks db)\<rparr>))"

definition ListFiles :: "engine \<Rightarrow> database \<Rightarrow> FileRecord list res" where
  "ListFiles en db =
     (if en_fail en 0 then Inl (Err ''listing files'')
      else if en_fail en 1 then Inl (Err ''scanning file row'')
      else Inr (map scan_file (sort_key fl_path (db_files db))))"

text \<open>
  An insertion fails when its primary key exists, and with foreign keys enforced when the file does not.
\<close>

definition insert_chunk :: "engine \<Rightarrow> nat \<Rightarrow> chunk_row \<Rightarrow> database \<Rightarrow> database option" where
  "insert_chunk en k c db =
     (if en_fail en k \<or>
         (\<exists>x \<in> set (db_file_chunks db). ck_file_id x = ck_file_id c \<and> ck_chunk_index x = ck_chunk_index c) \<or>
         (en_fk en \<and> ck_file_id c \<notin> fl_id ` set (db_files db))
      then None else Some (db\<lparr>db_file_chunks := db_file_chunks db @ [c]\<rparr>))"

fun insert_chunks :: "engine \<Rightarrow> int \<Rightarrow> nat \<Rightarrow> bytes list \<Rightarrow> int list \<Rightarrow> database \<Rightarrow> unit res \<times> database" where
  "insert_chunks en fileID i [] sizes db = (Inr (), db)"
| "insert_chunks en fileID i (hash # chunks) sizes db =
     (let size = (if i < length sizes then sizes ! i else 4096) in
      case insert_chunk en (4 + i)
             \<lparr>ck_file_id = fileID, ck_chunk_index = int i, ck_chunk_hash = hash, ck_size = size\<rparr> db of
        None \<Rightarrow> (Inl (Err ''inserting chunk''), db)
      | Some db' \<Rightarrow> insert_chunks en fileID (Suc i) chunks sizes db')"

definition SetFileChunks :: "engine \<Rightarrow> int \<Rightarrow> bytes list \<Rightarrow> int list \<Rightarrow> database \<Rightarrow> unit res \<times> database" where
  "SetFileChunks en fileID chunks sizes db =
     (if en_fail en 3 then (Inl (Err ''deleting old chunks''), db)
      else insert_chunks en fileID 0 chunks sizes
             (db\<lparr>db_file_chunks := filter (\<lambda>c. ck_file_id c \<noteq> fileID) (db_file_chunks db)\<rparr>))"

text \<open>
  \<open>SUM\<close> of integers fails when the result leaves the range of \<open>int64\<close>. The copy into
  \<open>snapshot_files\<close> fails as a whole when one of its keys exists.
\<close>

definition snapshot_body :: "engine \<Rightarrow> bytes \<Rightarrow> string \<Rightarrow> database \<Rightarrow> Snapshot res \<times> database" where
  "snapshot_body en rootHash comment db =
     (let fileCount = int (length (db_files db));
          totalSize = (\<Sum>r \<leftarrow> db_files db. fl_size r) in
      if en_fail en 3 \<or> int64 totalSize \<noteq> totalSize then (Inl (Err ''getting file stats''), db)
      else if en_fail en 4 then (Inl (Err ''inserting snapshot''), db)
      else
        let i = next_id en (db_seq_snapshots db);
            db1 = db\<lparr>db_snapshots := db_snapshots db @
                       [\<lparr>sp_id = i, sp_root_hash = rootHash, sp_file_count = fileCount, sp_total_size = totalSize,
                         sp_created_at = en_now en, sp_comment = Some comment\<rparr>],
                     db_seq_snapshots := i\<rparr>;
            rows = map (\<lambda>r. \<lparr>sf_SnapshotID = i, sf_FilePath = fl_path r, sf_MerkleRoot = fl_merkle_root r,
                              sf_Size = fl_size r\<rparr>) (db_files db) in
        if en_fail en 5 \<or>
           (\<exists>x \<in> set (db_snapshot_files db). sf_SnapshotID x = i \<and> sf_FilePath x \<in> fl_path ` set (db_files db))
        then (Inl (Err ''copying files to snapshot''), db1)
        else (Inr \<lparr>sn_ID = i, sn_RootHash = rootHash, sn_FileCount = fileCount, sn_TotalSize = totalSize,
                    sn_CreatedAt = time_Unix (en_now en), sn_Comment = comment\<rparr>,
              db1\<lparr>db_snapshot_files := db_snapshot_files db1 @ rows\<rparr>))"

definition CreateSnapshot :: "engine \<Rightarrow> bytes \<Rightarrow> string \<Rightarrow> database \<Rightarrow> Snapshot res \<times> database" where
  "CreateSnapshot en rootHash comment db = Transaction en (snapshot_body en rootHash comment) db"

definition scan_snapshot :: "snapshot_row \<Rightarrow> Snapshot" where
  "scan_snapshot r =
     \<lparr>sn_ID = sp_id r, sn_RootHash = sp_root_hash r, sn_FileCount = sp_file_count r,
      sn_TotalSize = sp_total_size r, sn_CreatedAt = time_Unix (sp_created_at r),
      sn_Comment = (case sp_comment r of None \<Rightarrow> [] | Some c \<Rightarrow> c)\<rparr>"

definition GetSnapshot :: "engine \<Rightarrow> int \<Rightarrow> database \<Rightarrow> Snapshot option res" where
  "GetSnapshot en i db =
     (if en_fail en 0 then Inl (Err ''getting snapshot'')
      else Inr (map_option scan_snapshot (find (\<lambda>r. sp_id r = i) (db_snapshots db))))"

text \<open>Rows created in the same second come in the order of the engine's scan, the argument \<open>scan\<close>.\<close>

definition ListSnapshots :: "engine \<Rightarrow> (snapshot_row list \<Rightarrow> snapshot_row list) \<Rightarrow> database \<Rightarrow> Snapshot list res" where
  "ListSnapshots en scan db =
     (if en_fail en 0 then Inl (Err ''listing snapshots'')
      else if en_fail en 1 then Inl (Err ''scanning snapshot row'')
      else Inr (map scan_snapshot (sort_key (\<lambda>r. - sp_created_at r) (scan (db_snapshots db)))))"

definition GetSnapshotFiles :: "engine \<Rightarrow> int \<Rightarrow> database \<Rightarrow> SnapshotFile list res" where
  "GetSnapshotFiles en i db =
     (if en_fail en 0 then Inl (Err ''getting snapshot files'')
      else if en_fail en 1 then Inl (Err ''scanning snapshot file'')
      else Inr (sort_key sf_FilePath (filter (\<lambda>r. sf_SnapshotID r = i) (db_snapshot_files db))))"

definition NeedsUpdate :: "engine \<Rightarrow> string \<Rightarrow> int \<Rightarrow> int \<Rightarrow> database \<Rightarrow> bool res" where
  "NeedsUpdate en path modTime sz db =
     (case GetFile en path db of
        Inl e \<Rightarrow> Inl e
      | Inr None \<Rightarrow> Inr True
      | Inr (Some record) \<Rightarrow> Inr (fr_Size record \<noteq> sz \<or> Unix (fr_ModTime record) \<noteq> Unix modTime))"

definition MerkleRootHex :: "bytes \<Rightarrow> string" where
  "MerkleRootHex hash = EncodeToString hash"


section \<open>The invariant and the contract of an operation\<close>

definition db_ok :: "database \<Rightarrow> bool" where
  "db_ok db \<longleftrightarrow>
     distinct (map fl_path (db_files db)) \<and> distinct (map fl_id (db_files db)) \<and>
     (\<forall>r \<in> set (db_files db). fl_id r \<le> db_seq_files db) \<and>
     distinct (map sp_id (db_snapshots db)) \<and> (\<forall>r \<in> set (db_snapshots db). sp_id r \<le> db_seq_snapshots db) \<and>
     distinct (map (\<lambda>r. (sf_SnapshotID r, sf_FilePath r)) (db_snapshot_files db)) \<and>
     sf_SnapshotID ` set (db_snapshot_files db) \<subseteq> sp_id ` set (db_snapshots db) \<and>
     distinct (map (\<lambda>c. (ck_file_id c, ck_chunk_index c)) (db_file_chunks db))"

text \<open>What is recorded of a snapshot.\<close>

definition snapshot_view :: "int \<Rightarrow> database \<Rightarrow> snapshot_row option \<times> SnapshotFile list" where
  "snapshot_view i db =
     (find (\<lambda>r. sp_id r = i) (db_snapshots db), filter (\<lambda>r. sf_SnapshotID r = i) (db_snapshot_files db))"

definition snapshot_ids :: "database \<Rightarrow> int set" where
  "snapshot_ids db = set (map sp_id (db_snapshots db))"

text \<open>Chunk rows refer to files; this holds as long as foreign keys are enforced.\<close>

definition fk_ok :: "database \<Rightarrow> bool" where
  "fk_ok db \<longleftrightarrow> ck_file_id ` set (db_file_chunks db) \<subseteq> fl_id ` set (db_files db)"

text \<open>
  The contract of an operation of the store: it keeps the invariant, and what is recorded of a
  snapshot never changes.
\<close>

locale db_op =
  fixes f :: "database \<Rightarrow> 'a res \<times> database"
  assumes keeps: "db_ok db \<Longrightarrow> db_ok (snd (f db))"
    and history: "db_ok db \<Longrightarrow> i \<in> snapshot_ids db \<Longrightarrow>
      snapshot_view i (snd (f db)) = snapshot_view i db \<and> i \<in> snapshot_ids (snd (f db))"
begin

text \<open>Wrapping an operation in a transaction gives an operation, and one that on failure changes nothing.\<close>

lemma in_transaction: "db_op (Transaction en f)"
proof
  fix db i
  assume "db_ok db"
  then show "db_ok (snd (Transaction en f db))"
    using keeps [of db] by (cases "f db"; cases "fst (f db)") (auto simp: Transaction_def)
  assume "i \<in> snapshot_ids db"
  with \<open>db_ok db\<close> show "snapshot_view i (snd (Transaction en f db)) = snapshot_view i db \<and>
      i \<in> snapshot_ids (snd (Transaction en f db))"
    using history [of db i] by (cases "f db"; cases "fst (f db)") (auto simp: Transaction_def)
qed

lemma atomic: "fst (Transaction en f db) = Inl e \<Longrightarrow> snd (Transaction en f db) = db"
  by (auto simp: Transaction_def split: prod.splits sum.splits if_splits)

end

text \<open>Calls made in one transaction, and the calls that change the store.\<close>

datatype tx_call =
    TUpsert engine FileRecord
  | TDelete engine string
  | TSetChunks engine int "bytes list" "int list"

fun run_call :: "tx_call \<Rightarrow> database \<Rightarrow> unit res \<times> database" where
  "run_call (TUpsert en r) db = apfst (map_sum id (\<lambda>_. ())) (UpsertFile en r db)"
| "run_call (TDelete en path) db = DeleteFile en path db"
| "run_call (TSetChunks en i chunks sizes) db = SetFileChunks en i chunks sizes db"

fun run_calls :: "tx_call list \<Rightarrow> database \<Rightarrow> unit res \<times> database" where
  "run_calls [] db = (Inr (), db)"
| "run_calls (c # cs) db = (case run_call c db of (Inl e, db') \<Rightarrow> (Inl e, db') | (Inr u, db') \<Rightarrow> run_calls cs db')"

datatype db_act =
    Direct_Upsert engine FileRecord
  | Direct_Delete engine string
  | In_Transaction engine "tx_call list"
  | Create_Snapshot engine bytes string

fun run_act :: "db_act \<Rightarrow> database \<Rightarrow> unit res \<times> database" where
  "run_act (Direct_Upsert en r) db = run_call (TUpsert en r) db"
| "run_act (Direct_Delete en path) db = run_call (TDelete en path) db"
| "run_act (In_Transaction en cs) db = Transaction en (run_calls cs) db"
| "run_act (Create_Snapshot en hash comment) db = apfst (map_sum id (\<lambda>_. ())) (CreateSnapshot en hash comment db)"

definition run_acts :: "db_act list \<Rightarrow> database \<Rightarrow> database" where
  "run_acts acts db = foldl (\<lambda>d a. snd (run_act a d)) db acts"


section \<open>Lemmas\<close>

lemma db_okD:
  assumes "db_ok db"
  shows "distinct (map fl_path (db_files db))" "distinct (map fl_id (db_files db))"
    "\<And>r. r \<in> set (db_files db) \<Longrightarrow> fl_id r \<le> db_seq_files db"
    "distinct (map sp_id (db_snapshots db))" "\<And>r. r \<in> set (db_snapshots db) \<Longrightarrow> sp_id r \<le> db_seq_snapshots db"
    "distinct (map (\<lambda>r. (sf_SnapshotID r, sf_FilePath r)) (db_snapshot_files db))"
    "sf_SnapshotID ` set (db_snapshot_files db) \<subseteq> sp_id ` set (db_snapshots db)"
    "distinct (map (\<lambda>c. (ck_file_id c, ck_chunk_index c)) (db_file_chunks db))"
  using assms by (simp_all add: db_ok_def)

lemma map_upd_field: "(\<And>x. g (h x) = g x) \<Longrightarrow> map g (map (\<lambda>x. if P x then h x else x) xs) = map g xs"
  by simp

lemma find_None_notin: "find P xs = None \<longleftrightarrow> (\<forall>x \<in> set xs. \<not> P x)"
  by (auto simp: find_None_iff)

text \<open>Statements that leave the two snapshot tables alone.\<close>

lemma upsert_tables:
  "db_snapshots (snd (UpsertFile en r db)) = db_snapshots db"
  "db_snapshot_files (snd (UpsertFile en r db)) = db_snapshot_files db"
  "db_seq_snapshots (snd (UpsertFile en r db)) = db_seq_snapshots db"
  "db_file_chunks (snd (UpsertFile en r db)) = db_file_chunks db"
  by (simp_all add: UpsertFile_def Let_def split: option.split)

lemma delete_tables:
  "db_snapshots (snd (DeleteFile en p db)) = db_snapshots db"
  "db_snapshot_files (snd (DeleteFile en p db)) = db_snapshot_files db"
  "db_seq_snapshots (snd (DeleteFile en p db)) = db_seq_snapshots db"
  by (simp_all add: DeleteFile_def)

lemma insert_chunk_Some:
  "insert_chunk en k c db = Some db' \<Longrightarrow> db' = db\<lparr>db_file_chunks := db_file_chunks db @ [c]\<rparr> \<and>
    (\<forall>x \<in> set (db_file_chunks db). ck_file_id x = ck_file_id c \<longrightarrow> ck_chunk_index x \<noteq> ck_chunk_index c) \<and>
    (en_fk en \<longrightarrow> ck_file_id c \<in> fl_id ` set (db_files db))"
  by (auto simp: insert_chunk_def split: if_splits)

lemma insert_chunks_only:
  "\<exists>cs. snd (insert_chunks en i k chunks sizes db) = db\<lparr>db_file_chunks := cs\<rparr>"
proof (induction chunks arbitrary: k db)
  case Nil
  show ?case by (auto intro!: exI [of _ "db_file_chunks db"])
next
  case (Cons h hs)
  show ?case
  proof (cases "insert_chunk en (4 + k) \<lparr>ck_file_id = i, ck_chunk_index = int k, ck_chunk_hash = h,
      ck_size = (if k < length sizes then sizes ! k else 4096)\<rparr> db")
    case None
    then show ?thesis by (auto simp: Let_def intro!: exI [of _ "db_file_chunks db"])
  next
    case (Some db')
    with Cons.IH [of "Suc k" db'] insert_chunk_Some [OF Some] show ?thesis by (auto simp: Let_def)
  qed
qed

lemma insert_chunks_distinct:
  "distinct (map (\<lambda>c. (ck_file_id c, ck_chunk_index c)) (db_file_chunks db)) \<Longrightarrow>
   distinct (map (\<lambda>c. (ck_file_id c, ck_chunk_index c)) (db_file_chunks (snd (insert_chunks en i k chunks sizes db))))"
proof (induction chunks arbitrary: k db)
  case (Cons h hs)
  show ?case
  proof (cases "insert_chunk en (4 + k) \<lparr>ck_file_id = i, ck_chunk_index = int k, ck_chunk_hash = h,
      ck_size = (if k < length sizes then sizes ! k else 4096)\<rparr> db")
    case None
    then show ?thesis using Cons.prems by (simp add: Let_def)
  next
    case (Some db')
    have "distinct (map (\<lambda>c. (ck_file_id c, ck_chunk_index c)) (db_file_chunks db'))"
      using insert_chunk_Some [OF Some] Cons.prems by auto
    with Cons.IH Some show ?thesis by (simp add: Let_def)
  qed
qed simp

lemma set_chunks_only: "\<exists>cs. snd (SetFileChunks en i chunks sizes db) = db\<lparr>db_file_chunks := cs\<rparr>"
  using insert_chunks_only [of en i 0 chunks sizes "db\<lparr>db_file_chunks := filter (\<lambda>c. ck_file_id c \<noteq> i) (db_file_chunks db)\<rparr>"]
  by (auto simp: SetFileChunks_def intro: exI [of _ "db_file_chunks db"])

lemma db_ok_chunks:
  "db_ok db \<Longrightarrow> distinct (map (\<lambda>c. (ck_file_id c, ck_chunk_index c)) cs) \<Longrightarrow> db_ok (db\<lparr>db_file_chunks := cs\<rparr>)"
  by (simp add: db_ok_def)

lemma set_chunks_ok:
  assumes "db_ok db"
  shows "db_ok (snd (SetFileChunks en i chunks sizes db))"
proof (cases "en_fail en 3")
  case False
  let ?db = "db\<lparr>db_file_chunks := filter (\<lambda>c. ck_file_id c \<noteq> i) (db_file_chunks db)\<rparr>"
  obtain cs where cs: "snd (insert_chunks en i 0 chunks sizes ?db) = ?db\<lparr>db_file_chunks := cs\<rparr>"
    using insert_chunks_only [of en i 0 chunks sizes ?db] by blast
  have "distinct (map (\<lambda>c. (ck_file_id c, ck_chunk_index c)) cs)"
    using insert_chunks_distinct [of ?db en i 0 chunks sizes] db_okD(8) [OF assms] by (simp add: cs distinct_map_filter)
  then show ?thesis using False cs db_ok_chunks [OF assms] by (simp add: SetFileChunks_def)
qed (simp add: SetFileChunks_def assms)

lemma UpsertFile_cases:
  obtains (fails) "UpsertFile en r db = (Inl (ErrMsg ''upserting file'' (fr_Path r)), db)" "en_fail en 3"
  | (update) row fs where "find (\<lambda>x. fl_path x = fr_Path r) (db_files db) = Some row" "\<not> en_fail en 3"
      "UpsertFile en r db = (Inr (r\<lparr>fr_ID := fl_id row\<rparr>), db\<lparr>db_files := fs\<rparr>)"
      "fs = map (\<lambda>x. if fl_path x = fr_Path r
                then x\<lparr>fl_merkle_root := fr_MerkleRoot r, fl_size := fr_Size r,
                       fl_mod_time := Unix (fr_ModTime r), fl_chunk_count := fr_ChunkCount r,
                       fl_updated_at := en_now en\<rparr>
                else x) (db_files db)"
      "map fl_path fs = map fl_path (db_files db)" "map fl_id fs = map fl_id (db_files db)"
  | (fresh) row where "find (\<lambda>x. fl_path x = fr_Path r) (db_files db) = None" "\<not> en_fail en 3"
      "UpsertFile en r db = (Inr (r\<lparr>fr_ID := fl_id row\<rparr>), db\<lparr>db_files := db_files db @ [row], db_seq_files := fl_id row\<rparr>)"
      "row = \<lparr>fl_id = next_id en (db_seq_files db), fl_path = fr_Path r, fl_merkle_root = fr_MerkleRoot r,
                  fl_size = fr_Size r, fl_mod_time = Unix (fr_ModTime r),
                  fl_chunk_count = fr_ChunkCount r, fl_created_at = en_now en, fl_updated_at = en_now en\<rparr>"
proof (cases "en_fail en 3")
  case True
  then show ?thesis by (intro fails) (simp_all add: UpsertFile_def)
next
  case ok: False
  show ?thesis
  proof (cases "find (\<lambda>x. fl_path x = fr_Path r) (db_files db)")
    case None
    then show ?thesis by (intro fresh) (simp_all add: UpsertFile_def ok Let_def)
  next
    case (Some row)
    show ?thesis
      by (rule update [OF Some ok _ refl]) (simp_all add: UpsertFile_def ok Some)
  qed
qed

lemma upsert_files:
  assumes "db_ok db"
  shows "distinct (map fl_path (db_files (snd (UpsertFile en r db)))) \<and>
    distinct (map fl_id (db_files (snd (UpsertFile en r db)))) \<and>
    (\<forall>i \<in> set (map fl_id (db_files (snd (UpsertFile en r db)))). i \<le> db_seq_files (snd (UpsertFile en r db)))"
proof (cases rule: UpsertFile_cases [of en r db])
  case fails
  then show ?thesis using db_okD(1-3) [OF assms] by auto
next
  case (update row fs)
  have "\<forall>i \<in> set (map fl_id (db_files db)). i \<le> db_seq_files db" using db_okD(3) [OF assms] by auto
  then show ?thesis using db_okD(1,2) [OF assms] update(5,6) by (simp add: update(3) del: set_map)
next
  case (fresh row)
  have lt: "db_seq_files db < fl_id row" using fresh(4) by (simp add: next_id_def)
  with db_okD(3) [OF assms] have "\<forall>x \<in> set (db_files db). fl_id x < fl_id row" by fastforce
  then show ?thesis using db_okD(1,2) [OF assms] fresh(1,4) by (auto simp: fresh(3) find_None_notin)
qed

lemma upsert_ok: "db_ok db \<Longrightarrow> db_ok (snd (UpsertFile en r db))"
  using upsert_files [of db en r] by (simp add: db_ok_def upsert_tables)

lemma delete_ok: "db_ok db \<Longrightarrow> db_ok (snd (DeleteFile en p db))"
  by (auto simp: DeleteFile_def db_ok_def distinct_map_filter)

lemma set_chunks_tables:
  "db_snapshots (snd (SetFileChunks en i chunks sizes db)) = db_snapshots db"
  "db_snapshot_files (snd (SetFileChunks en i chunks sizes db)) = db_snapshot_files db"
  using set_chunks_only [of en i chunks sizes db] by auto

lemma snapshot_body_cases:
  obtains (fails) e db' where "snapshot_body en h c db = (Inl e, db')"
  | (taken) row where "row = \<lparr>sp_id = next_id en (db_seq_snapshots db), sp_root_hash = h,
        sp_file_count = int (length (db_files db)), sp_total_size = (\<Sum>r \<leftarrow> db_files db. fl_size r),
        sp_created_at = en_now en, sp_comment = Some c\<rparr>"
      "snapshot_body en h c db = (Inr (scan_snapshot row),
        db\<lparr>db_snapshots := db_snapshots db @ [row], db_seq_snapshots := sp_id row,
          db_snapshot_files := db_snapshot_files db @ map (\<lambda>r. \<lparr>sf_SnapshotID = sp_id row, sf_FilePath = fl_path r,
            sf_MerkleRoot = fl_merkle_root r, sf_Size = fl_size r\<rparr>) (db_files db)\<rparr>)"
proof (cases "fst (snapshot_body en h c db)")
  case (Inl e)
  then show ?thesis by (intro fails [of e "snd (snapshot_body en h c db)"]) (simp add: prod_eq_iff)
next
  case (Inr x)
  show ?thesis
    by (rule taken [OF refl])
       (use Inr in \<open>simp add: snapshot_body_def scan_snapshot_def Let_def split: if_splits\<close>)
qed

lemma create_snapshot_cases:
  obtains (fails) e where "CreateSnapshot en h c db = (Inl e, db)"
  | (taken) row where "row = \<lparr>sp_id = next_id en (db_seq_snapshots db), sp_root_hash = h,
        sp_file_count = int (length (db_files db)), sp_total_size = (\<Sum>r \<leftarrow> db_files db. fl_size r),
        sp_created_at = en_now en, sp_comment = Some c\<rparr>"
      "CreateSnapshot en h c db = (Inr (scan_snapshot row),
        db\<lparr>db_snapshots := db_snapshots db @ [row], db_seq_snapshots := sp_id row,
          db_snapshot_files := db_snapshot_files db @ map (\<lambda>r. \<lparr>sf_SnapshotID = sp_id row, sf_FilePath = fl_path r,
            sf_MerkleRoot = fl_merkle_root r, sf_Size = fl_size r\<rparr>) (db_files db)\<rparr>)"
proof (cases rule: snapshot_body_cases [of en h c db])
  case (fails e db')
  then obtain e' where "CreateSnapshot en h c db = (Inl e', db)"
    by (cases "en_fail en 0"; cases "en_fail en 1") (simp_all add: CreateSnapshot_def Transaction_def)
  then show ?thesis by (rule that(1))
next
  case (taken row)
  show ?thesis
  proof (cases "en_fail en 0 \<or> en_fail en 2")
    case True
    then obtain e' where "CreateSnapshot en h c db = (Inl e', db)"
      by (cases "en_fail en 0") (auto simp: CreateSnapshot_def Transaction_def taken(2))
    then show ?thesis by (rule that(1))
  next
    case False
    then show ?thesis by (intro that(2) [OF taken(1)]) (simp add: CreateSnapshot_def Transaction_def taken(2))
  qed
qed

lemma fresh_snapshot_id:
  assumes "db_ok db" "r \<in> set (db_snapshots db)"
  shows "sp_id r < next_id en (db_seq_snapshots db)"
  using db_okD(5) [OF assms] by (simp add: next_id_def)

lemma create_snapshot_ok:
  assumes "db_ok db"
  shows "db_ok (snd (CreateSnapshot en h c db))"
proof (cases rule: create_snapshot_cases [of en h c db])
  case (taken row)
  let ?n = "next_id en (db_seq_snapshots db)"
  have less: "\<forall>r \<in> set (db_snapshots db). sp_id r < ?n" using fresh_snapshot_id [OF assms] by blast
  then have "\<forall>r \<in> set (db_snapshot_files db). sf_SnapshotID r \<noteq> ?n"
    using db_okD(7) [OF assms] by (smt (verit, best) image_iff image_subset_iff)
  then have "distinct (map (\<lambda>r. (sf_SnapshotID r, sf_FilePath r)) (db_snapshot_files db @
      map (\<lambda>r. \<lparr>sf_SnapshotID = ?n, sf_FilePath = fl_path r, sf_MerkleRoot = fl_merkle_root r, sf_Size = fl_size r\<rparr>) (db_files db)))"
    using db_okD(1,6) [OF assms] by (auto simp: distinct_map inj_on_def)
  moreover have "distinct (map sp_id (db_snapshots db @ [row]))"
    using db_okD(4) [OF assms] less by (force simp: taken(1))
  moreover have "\<forall>r \<in> set (db_snapshots db @ [row]). sp_id r \<le> ?n"
    using less by (auto simp: taken(1) intro: less_imp_le)
  ultimately show ?thesis
    using db_okD(1-3,7,8) [OF assms] taken(1) by (auto simp: taken(2) db_ok_def)
qed (simp add: assms)

lemma find_append: "find P (xs @ ys) = (case find P xs of None \<Rightarrow> find P ys | Some x \<Rightarrow> Some x)"
  by (induction xs) auto

lemma create_snapshot_history:
  assumes "db_ok db" "i \<in> snapshot_ids db"
  shows "snapshot_view i (snd (CreateSnapshot en h c db)) = snapshot_view i db"
proof (cases rule: create_snapshot_cases [of en h c db])
  case (taken row)
  have ne: "sp_id row \<noteq> i"
    using fresh_snapshot_id [OF assms(1), of _ en] assms(2) by (force simp: taken(1) snapshot_ids_def)
  obtain r where "find (\<lambda>r. sp_id r = i) (db_snapshots db) = Some r"
    using assms(2) by (cases "find (\<lambda>r. sp_id r = i) (db_snapshots db)") (auto simp: find_None_notin snapshot_ids_def)
  then have "find (\<lambda>r. sp_id r = i) (db_snapshots db @ [row]) = find (\<lambda>r. sp_id r = i) (db_snapshots db)"
    by (simp add: find_append)
  then show ?thesis using ne by (simp add: taken(2) snapshot_view_def filter_map comp_def)
qed simp

text \<open>Operations compose: running one after another, up to the first failure, is an operation.\<close>

lemma db_op_result: "db_op f \<Longrightarrow> db_op (\<lambda>db. apfst g (f db))"
  by (simp add: db_op_def)

lemma db_op_then:
  assumes "db_op f" "\<And>x. db_op (g x)"
  shows "db_op (\<lambda>db. case f db of (Inl e, db') \<Rightarrow> (Inl e, db') | (Inr x, db') \<Rightarrow> g x db')" (is "db_op ?h")
proof -
  have h: "db_ok (snd (?h db)) \<and> (\<forall>i \<in> snapshot_ids db. snapshot_view i (snd (?h db)) = snapshot_view i db \<and>
      i \<in> snapshot_ids (snd (?h db)))" if "db_ok db" for db
  proof (cases "f db")
    case (Pair y db')
    have ok: "db_ok db'" "\<forall>i \<in> snapshot_ids db. snapshot_view i db' = snapshot_view i db \<and> i \<in> snapshot_ids db'"
      using db_op.keeps [OF assms(1) that] db_op.history [OF assms(1) that] by (simp_all add: Pair)
    show ?thesis
    proof (cases y)
      case (Inr x)
      then show ?thesis
        using ok db_op.keeps [OF assms(2) ok(1)] db_op.history [OF assms(2) ok(1)] by (simp add: Pair)
    qed (use ok in \<open>simp add: Pair\<close>)
  qed
  show ?thesis by unfold_locales (use h in blast)+
qed

interpretation up: db_op "UpsertFile en r" for en r
  by unfold_locales (simp_all add: upsert_ok upsert_tables snapshot_view_def snapshot_ids_def)

interpretation dl: db_op "DeleteFile en path" for en path
  by unfold_locales (simp_all add: delete_ok delete_tables snapshot_view_def snapshot_ids_def)

interpretation sc: db_op "SetFileChunks en i chunks sizes" for en i chunks sizes
  by unfold_locales (simp_all add: set_chunks_ok set_chunks_tables snapshot_view_def snapshot_ids_def)

interpretation cs: db_op "CreateSnapshot en h c" for en h c
proof
  fix db i
  assume "db_ok db" "i \<in> snapshot_ids db"
  then have "snapshot_view i (snd (CreateSnapshot en h c db)) = snapshot_view i db" by (rule create_snapshot_history)
  moreover have "i \<in> snapshot_ids (snd (CreateSnapshot en h c db))"
    using \<open>i \<in> snapshot_ids db\<close> by (cases rule: create_snapshot_cases [of en h c db]) (simp_all add: snapshot_ids_def)
  ultimately show "snapshot_view i (snd (CreateSnapshot en h c db)) = snapshot_view i db \<and>
      i \<in> snapshot_ids (snd (CreateSnapshot en h c db))" by blast
qed (rule create_snapshot_ok)

lemma run_call_eqs:
  "run_call (TUpsert en r) = (\<lambda>db. apfst (map_sum id (\<lambda>_. ())) (UpsertFile en r db))"
  "run_call (TDelete en path) = DeleteFile en path"
  "run_call (TSetChunks en i chunks sizes) = SetFileChunks en i chunks sizes"
  "run_calls (c # cs) = (\<lambda>db. case run_call c db of (Inl e, db') \<Rightarrow> (Inl e, db') | (Inr u, db') \<Rightarrow> run_calls cs db')"
  "run_calls [] = (\<lambda>db. (Inr (), db))"
  "run_act (Direct_Upsert en r) = run_call (TUpsert en r)"
  "run_act (Direct_Delete en path) = run_call (TDelete en path)"
  "run_act (In_Transaction en cs) = Transaction en (run_calls cs)"
  "run_act (Create_Snapshot en hash comment) = (\<lambda>db. apfst (map_sum id (\<lambda>_. ())) (CreateSnapshot en hash comment db))"
  by (rule ext, simp)+

interpretation call: db_op "run_call c" for c
  by (cases c)
     (simp_all only: run_call_eqs db_op_result [OF up.db_op_axioms] dl.db_op_axioms sc.db_op_axioms)

lemma run_calls_op: "db_op (run_calls cs)"
proof (induction cs)
  case (Cons c cs)
  show ?case unfolding run_call_eqs(4) by (rule db_op_then [OF call.db_op_axioms Cons])
next
  case Nil
  show ?case unfolding run_call_eqs(5) by unfold_locales simp_all
qed

interpretation act: db_op "run_act a" for a
  by (cases a)
     (simp_all only: run_call_eqs(6-9) db_op_result [OF cs.db_op_axioms] call.db_op_axioms
        db_op.in_transaction [OF run_calls_op])

lemma run_acts_ok: "db_ok db \<Longrightarrow> db_ok (run_acts acts db)"
  unfolding run_acts_def by (induction acts arbitrary: db) (simp_all add: act.keeps)

lemma run_acts_history:
  "db_ok db \<Longrightarrow> i \<in> snapshot_ids db \<Longrightarrow>
   snapshot_view i (run_acts acts db) = snapshot_view i db \<and> i \<in> snapshot_ids (run_acts acts db)"
  unfolding run_acts_def by (induction acts arbitrary: db) (simp_all add: act.keeps act.history)

text \<open>Foreign keys: chunk rows refer to files as long as every statement enforces it.\<close>

fun call_fk :: "tx_call \<Rightarrow> bool" where
  "call_fk (TUpsert en r) = True"
| "call_fk (TDelete en path) = en_fk en"
| "call_fk (TSetChunks en i chunks sizes) = en_fk en"

fun act_fk :: "db_act \<Rightarrow> bool" where
  "act_fk (Direct_Delete en path) = en_fk en"
| "act_fk (In_Transaction en cs) = list_all call_fk cs"
| "act_fk a = True"

lemma insert_chunks_fk: "fk_ok db \<Longrightarrow> en_fk en \<Longrightarrow> fk_ok (snd (insert_chunks en i k chunks sizes db))"
proof (induction chunks arbitrary: k db)
  case (Cons h hs)
  show ?case
  proof (cases "insert_chunk en (4 + k) \<lparr>ck_file_id = i, ck_chunk_index = int k, ck_chunk_hash = h,
      ck_size = (if k < length sizes then sizes ! k else 4096)\<rparr> db")
    case None
    then show ?thesis using Cons.prems by (simp add: Let_def)
  next
    case (Some db')
    have "fk_ok db'" using insert_chunk_Some [OF Some] Cons.prems by (auto simp: fk_ok_def)
    with Cons.IH Cons.prems(2) Some show ?thesis by (simp add: Let_def)
  qed
qed simp

lemma upsert_ids: "set (map fl_id (db_files db)) \<subseteq> set (map fl_id (db_files (snd (UpsertFile en r db))))"
  by (cases rule: UpsertFile_cases [of en r db]) (simp_all del: set_map, auto)

lemma run_call_fk:
  assumes "fk_ok db" "call_fk c"
  shows "fk_ok (snd (run_call c db))"
proof (cases c)
  case (TUpsert en r)
  then show ?thesis
    using assms(1) upsert_ids [of db en r] by (simp add: fk_ok_def upsert_tables)
next
  case (TDelete en path)
  then show ?thesis using assms by (fastforce simp: fk_ok_def DeleteFile_def)
next
  case (TSetChunks en i chunks sizes)
  have "fk_ok (db\<lparr>db_file_chunks := filter (\<lambda>c. ck_file_id c \<noteq> i) (db_file_chunks db)\<rparr>)"
    using assms(1) by (auto simp: fk_ok_def)
  then show ?thesis using TSetChunks assms insert_chunks_fk by (simp add: SetFileChunks_def)
qed

lemma run_calls_fk: "fk_ok db \<Longrightarrow> list_all call_fk cs \<Longrightarrow> fk_ok (snd (run_calls cs db))"
proof (induction cs arbitrary: db)
  case (Cons c cs)
  then have "fk_ok (snd (run_call c db))" by (simp add: run_call_fk)
  then show ?case using Cons by (cases "run_call c db") (auto split: sum.split)
qed simp

lemma run_act_fk:
  assumes "fk_ok db" "act_fk a"
  shows "fk_ok (snd (run_act a db))"
proof (cases a)
  case (In_Transaction en cs)
  then show ?thesis
    using assms run_calls_fk [of db cs] by (auto simp: Transaction_def split: prod.split sum.split)
next
  case (Create_Snapshot en h c)
  have "db_files (snd (CreateSnapshot en h c db)) = db_files db \<and> db_file_chunks (snd (CreateSnapshot en h c db)) = db_file_chunks db"
    by (cases rule: create_snapshot_cases [of en h c db]) simp_all
  then show ?thesis using assms Create_Snapshot by (simp add: fk_ok_def)
qed (use assms run_call_fk in \<open>simp_all del: run_call.simps\<close>)

lemma run_acts_fk: "fk_ok db \<Longrightarrow> list_all act_fk acts \<Longrightarrow> fk_ok (run_acts acts db)"
  unfolding run_acts_def by (induction acts arbitrary: db) (simp_all add: run_act_fk)

text \<open>What \<open>SetFileChunks\<close> leaves in the table.\<close>

definition chunk_rows :: "int \<Rightarrow> nat \<Rightarrow> bytes list \<Rightarrow> int list \<Rightarrow> chunk_row list" where
  "chunk_rows i k chunks sizes =
     map (\<lambda>(j, h). \<lparr>ck_file_id = i, ck_chunk_index = int j, ck_chunk_hash = h,
                     ck_size = (if j < length sizes then sizes ! j else 4096)\<rparr>) (enumerate k chunks)"

lemma insert_chunks_rows:
  "insert_chunks en i k chunks sizes db = (Inr u, db') \<Longrightarrow>
   db' = db\<lparr>db_file_chunks := db_file_chunks db @ chunk_rows i k chunks sizes\<rparr>"
proof (induction chunks arbitrary: k db)
  case (Cons h hs)
  obtain db1 where db1: "insert_chunk en (4 + k) \<lparr>ck_file_id = i, ck_chunk_index = int k, ck_chunk_hash = h,
      ck_size = (if k < length sizes then sizes ! k else 4096)\<rparr> db = Some db1"
      "insert_chunks en i (Suc k) hs sizes db1 = (Inr u, db')"
    using Cons.prems by (auto simp: Let_def split: option.splits)
  from Cons.IH [OF db1(2)] insert_chunk_Some [OF db1(1)] show ?case by (simp add: chunk_rows_def)
qed (simp add: chunk_rows_def)

lemma sort_key_map: "sort_key f (map g xs) = map g (sort_key (f \<circ> g) xs)"
proof -
  have "insort_key f (g x) (map g ys) = map g (insort_key (f \<circ> g) x ys)" for x ys
    by (induction ys) simp_all
  then show ?thesis by (induction xs) simp_all
qed

lemma GetFile_update:
  assumes "\<And>x. fl_path (h x) = fl_path x"
  shows "find (\<lambda>x. fl_path x = p) (map (\<lambda>x. if fl_path x = q then h x else x) xs) =
    (if p = q then map_option h else id) (find (\<lambda>x. fl_path x = p) xs)"
  using assms by (induction xs) auto


section \<open>Properties\<close>


definition engine1 :: engine where
  "engine1 = \<lparr>en_fail = (\<lambda>_. False), en_now = 7, en_gap = 0, en_fk = True\<rparr>"

definition file1 :: FileRecord where
  "file1 = \<lparr>fr_ID = 0, fr_Path = ''a'', fr_MerkleRoot = [1], fr_Size = 3, fr_ModTime = 5000000001,
     fr_ChunkCount = 1, fr_CreatedAt = 0, fr_UpdatedAt = 0\<rparr>"


text \<open>
  C14. A snapshot is a faithful and permanent record. Whatever is done to the store later, reading it by
  its ID gives what \<open>CreateSnapshot\<close> returned, its files are those that \<open>ListFiles\<close> gave when it was
  taken, in the same order, and its totals are their number and the sum of their sizes.
\<close>

theorem snapshot_permanent:
  assumes "db_ok db" "CreateSnapshot en h c db = (Inr snap, db1)"
    and "\<not> en_fail en' 0" "\<not> en_fail en' 1" "ListFiles en' db = Inr files"
  shows "GetSnapshot en' (sn_ID snap) (run_acts acts db1) = Inr (Some snap) \<and>
    GetSnapshotFiles en' (sn_ID snap) (run_acts acts db1) =
      Inr (map (\<lambda>f. \<lparr>sf_SnapshotID = sn_ID snap, sf_FilePath = fr_Path f, sf_MerkleRoot = fr_MerkleRoot f,
                      sf_Size = fr_Size f\<rparr>) files) \<and>
    sn_RootHash snap = h \<and> sn_FileCount snap = int (length files) \<and> sn_TotalSize snap = (\<Sum>f \<leftarrow> files. fr_Size f)"
proof (cases rule: create_snapshot_cases [of en h c db])
  case (taken row)
  have db1: "db_ok db1" using create_snapshot_ok [OF assms(1), of en h c] assms(2) by simp
  have ids: "sp_id row \<in> snapshot_ids db1" "snap = scan_snapshot row" using taken assms(2) by (auto simp: snapshot_ids_def)
  have less: "\<forall>r \<in> set (db_snapshots db). sp_id r \<noteq> sp_id row"
    using fresh_snapshot_id [OF assms(1), of _ en] by (force simp: taken(1))
  then have "\<forall>r \<in> set (db_snapshot_files db). sf_SnapshotID r \<noteq> sp_id row"
    using db_okD(7) [OF assms(1)] by (metis image_iff image_subset_iff)
  moreover have "find (\<lambda>r. sp_id r = sp_id row) (db_snapshots db @ [row]) = Some row"
    using less by (simp add: find_append find_None_notin [THEN iffD2])
  ultimately have view: "snapshot_view (sp_id row) db1 = (Some row, map (\<lambda>r. \<lparr>sf_SnapshotID = sp_id row,
      sf_FilePath = fl_path r, sf_MerkleRoot = fl_merkle_root r, sf_Size = fl_size r\<rparr>) (db_files db))"
    using taken(2) assms(2) by (auto simp: snapshot_view_def filter_map comp_def)
  have files: "files = map scan_file (sort_key fl_path (db_files db))"
    using assms(3-5) by (simp add: ListFiles_def)
  have "mset (map fl_size (sort_key fl_path (db_files db))) = mset (map fl_size (db_files db))" by simp
  then have "(\<Sum>r \<leftarrow> sort_key fl_path (db_files db). fl_size r) = (\<Sum>r \<leftarrow> db_files db. fl_size r)"
    by (metis sum_mset_sum_list)
  then show ?thesis
    using run_acts_history [OF db1 ids(1), of acts] view assms(3,4) ids(2)
    by (simp add: GetSnapshot_def GetSnapshotFiles_def snapshot_view_def files scan_snapshot_def taken(1)
        sort_key_map comp_def scan_file_def)
qed (use assms(2) in simp)

lemma snapshot_permanent_witness:
  "\<exists>snap db1. CreateSnapshot engine1 [2] ''c'' (run_acts [Direct_Upsert engine1 file1] schema) = (Inr snap, db1) \<and>
    GetSnapshotFiles engine1 (sn_ID snap) (run_acts [Direct_Delete engine1 ''a''] db1) =
      Inr [\<lparr>sf_SnapshotID = sn_ID snap, sf_FilePath = ''a'', sf_MerkleRoot = [1], sf_Size = 3\<rparr>]"
proof -
  let ?db = "run_acts [Direct_Upsert engine1 file1] schema"
  have "db_ok ?db" by (rule run_acts_ok) (simp add: schema_def db_ok_def)
  moreover obtain snap db1 where "CreateSnapshot engine1 [2] ''c'' ?db = (Inr snap, db1)"
    by (simp add: run_acts_def UpsertFile_def schema_def engine1_def file1_def CreateSnapshot_def Transaction_def
        snapshot_body_def Let_def Unix_def next_id_def)
  moreover have "ListFiles engine1 ?db = Inr [\<lparr>fr_ID = 1, fr_Path = ''a'', fr_MerkleRoot = [1], fr_Size = 3,
      fr_ModTime = time_Unix 5, fr_ChunkCount = 1, fr_CreatedAt = time_Unix 7, fr_UpdatedAt = time_Unix 7\<rparr>]"
    by (simp add: run_acts_def UpsertFile_def schema_def engine1_def file1_def ListFiles_def Let_def Unix_def
        next_id_def scan_file_def)
  ultimately show ?thesis
    using snapshot_permanent [of ?db engine1 "[2]" "''c''" snap db1 engine1 _ "[Direct_Delete engine1 ''a'']"]
    by (simp add: engine1_def)
qed

text \<open>
  A stored record can be read back: \<open>UpsertFile\<close> succeeds when its statement does, and \<open>GetFile\<close> then
  returns the record with the ID it was given, its time in whole seconds; records of other paths are
  unchanged, and a path that had a record keeps its ID and creation time. \<open>NeedsUpdate\<close> then asks for
  work just when the size or the second of the modification differs.
\<close>

theorem upsert_then_get:
  assumes "\<not> en_fail en 3" "\<not> en_fail en' 0"
  shows "\<exists>rec' db' created. UpsertFile en r db = (Inr rec', db') \<and>
    GetFile en' (fr_Path r) db' = Inr (Some (rec'\<lparr>fr_ModTime := time_Unix (Unix (fr_ModTime r)),
      fr_CreatedAt := created, fr_UpdatedAt := time_Unix (en_now en)\<rparr>)) \<and>
    (\<forall>p. p \<noteq> fr_Path r \<longrightarrow> GetFile en' p db' = GetFile en' p db) \<and>
    (\<forall>old. GetFile en' (fr_Path r) db = Inr (Some old) \<longrightarrow> fr_ID rec' = fr_ID old \<and> created = fr_CreatedAt old) \<and>
    (\<forall>t n. NeedsUpdate en' (fr_Path r) t n db' = Inr (n \<noteq> fr_Size r \<or> Unix t \<noteq> Unix (fr_ModTime r)))"
proof (cases rule: UpsertFile_cases [of en r db])
  case fails
  then show ?thesis using assms by simp
next
  case (update row fs)
  have "fl_path row = fr_Path r" using update(1) by (auto simp: find_Some_iff)
  with update(1,3) assms(2) show ?thesis
    by (auto simp: GetFile_def NeedsUpdate_def update(4) GetFile_update scan_file_def
        intro!: exI [of _ "time_Unix (fl_created_at row)"])
next
  case (fresh row)
  then have "find (\<lambda>x. fl_path x = fr_Path r) (db_files db @ [row]) = Some row"
    by (simp add: find_append)
  moreover have "find (\<lambda>x. fl_path x = p) (db_files db @ [row]) = find (\<lambda>x. fl_path x = p) (db_files db)"
    if "p \<noteq> fr_Path r" for p
    using that fresh(4) by (simp add: find_append split: option.split)
  ultimately show ?thesis
    using fresh assms(2)
    by (auto simp: GetFile_def NeedsUpdate_def scan_file_def intro!: exI [of _ "time_Unix (en_now en)"])
qed

lemma upsert_then_get_witness:
  "\<exists>rec' db'. UpsertFile engine1 file1 schema = (Inr rec', db') \<and>
    NeedsUpdate engine1 ''a'' 5999999999 3 db' = Inr False"
proof -
  have "\<not> en_fail engine1 3" "\<not> en_fail engine1 0" "fr_Path file1 = ''a''" "fr_Size file1 = 3"
    "Unix 5999999999 = Unix (fr_ModTime file1)"
    by (simp_all add: engine1_def file1_def Unix_def)
  then show ?thesis using upsert_then_get [of engine1 engine1 file1 schema] by auto
qed

text \<open>
  The chunks of a file are replaced as a whole: a transaction that sets them either fails and changes
  nothing, or the rows of this file become exactly its chunks, numbered from 0 in order, with 4096
  for sizes that are not given, while all other rows and tables stay.
\<close>

theorem file_chunks_replaced:
  "case Transaction en (SetFileChunks en' i chunks sizes) db of
     (Inl e, db') \<Rightarrow> db' = db
   | (Inr u, db') \<Rightarrow> db' = db\<lparr>db_file_chunks := filter (\<lambda>c. ck_file_id c \<noteq> i) (db_file_chunks db) @ chunk_rows i 0 chunks sizes\<rparr>"
  by (auto simp: Transaction_def SetFileChunks_def dest!: insert_chunks_rows split: prod.splits sum.splits)

end
