(* ===== verification/Watcher.thy ===== *)
theory Watcher
  imports Chunker Db Filepath
begin

text \<open>
  Model of \<open>internal/watcher/watcher.go\<close>: the watcher queues the paths of file events and, at each tick of
  its timer, brings the database up to date for the queued files. The file system is what \<open>os.Stat\<close> and
  \<open>os.Open\<close> report when a file is processed (argument \<open>world\<close>), or the tree that \<open>filepath.WalkDir\<close>
  walks. Callbacks are the list of notices passed to them. \<open>fsnotify\<close> is outside the model: its events
  are arguments and \<open>Add\<close> is a function that says whether it succeeds.
\<close>

section \<open>Definitions\<close>

record Watcher =
  wa_rootPath :: path
  wa_pending :: "path list"
  wa_debounce :: int
  wa_watched :: "path list"

text \<open>
  \<open>New\<close> takes whether a store is given and whether \<open>fsnotify.NewWatcher\<close> succeeds; the empty string is
  \<open>None\<close>. Durations are in nanoseconds.
\<close>

definition New :: "path option \<Rightarrow> bool \<Rightarrow> bool \<Rightarrow> int \<Rightarrow> Watcher res" where
  "New rootPath store created debounce =
     (case rootPath of
        None \<Rightarrow> Inl (Err ''root path is required'')
      | Some root \<Rightarrow>
          if \<not> store then Inl (Err ''store is required'')
          else if \<not> created then Inl (Err ''creating fsnotify watcher'')
          else Inr \<lparr>wa_rootPath = root, wa_pending = [],
                    wa_debounce = (if debounce = 0 then 100000000 else debounce), wa_watched = []\<rparr>)"

datatype notice = OnUpdate string FileRecord | OnDelete string | OnError go_error

text \<open>What \<open>os.Stat\<close> reports of a path, with the reader that \<open>os.Open\<close> gives for a file, if it does.\<close>

datatype stat = Missing | StatFail | StatDir | StatFile int int "reader option"

record fs_event =
  fe_Name :: path
  fe_Create :: bool

definition handleEvent :: "(path \<Rightarrow> stat) \<Rightarrow> (path \<Rightarrow> bool) \<Rightarrow> fs_event \<Rightarrow> Watcher \<Rightarrow> notice list \<times> Watcher" where
  "handleEvent world add event w =
     (if hidden_name (Base (fe_Name event)) then ([], w)
      else case Rel (wa_rootPath w) (fe_Name event) of
             None \<Rightarrow> ([OnError (Err ''getting relative path'')], w)
           | Some relPath \<Rightarrow>
               if fe_Create event \<and> world (fe_Name event) = StatDir
               then ([], if add (fe_Name event) then w\<lparr>wa_watched := wa_watched w @ [fe_Name event]\<rparr> else w)
               else ([], w\<lparr>wa_pending := List.insert relPath (wa_pending w)\<rparr>))"

definition computeMerkleRoot :: "(bytes \<Rightarrow> bytes) \<Rightarrow> bytes list \<Rightarrow> bytes" where
  "computeMerkleRoot H hashes =
     (if hashes = [] then replicate 32 0
      else hs_Sum H (foldl (\<lambda>hasher h. snd (hs_Write hasher h)) NewHasher hashes) [])"

text \<open>
  The engine of each database call: 0 for the query, 1 for the transaction, 2 and 3 for its two calls.
  \<open>update_tx\<close> is the function of the transaction.
\<close>

definition update_tx :: "(nat \<Rightarrow> engine) \<Rightarrow> FileRecord \<Rightarrow> bytes list \<Rightarrow> int list \<Rightarrow> database \<Rightarrow> FileRecord res \<times> database" where
  "update_tx eng record chunkHashes chunkSizes db =
     (case UpsertFile (eng 2) record db of
        (Inl e, db1) \<Rightarrow> (Inl e, db1)
      | (Inr record', db1) \<Rightarrow>
          (case SetFileChunks (eng 3) (fr_ID record') chunkHashes chunkSizes db1 of
             (Inl e, db2) \<Rightarrow> (Inl e, db2)
           | (Inr u, db2) \<Rightarrow> (Inr record', db2)))"

definition handleUpdate :: "(bytes \<Rightarrow> bytes) \<Rightarrow> (nat \<Rightarrow> engine) \<Rightarrow> string \<Rightarrow> int \<Rightarrow> int \<Rightarrow> reader option \<Rightarrow> database \<Rightarrow>
    unit res \<times> notice list \<times> database" where
  "handleUpdate H eng relPath modTime sz f db =
     (case f of
        None \<Rightarrow> (Inl (Err ''opening file''), [], db)
      | Some r \<Rightarrow>
          (case ChunkAll H r of
             Inl e \<Rightarrow> (Inl (Err ''chunking file''), [], db)
           | Inr chunks \<Rightarrow>
               let chunkHashes = map ch_Hash chunks;
                   chunkSizes = map (\<lambda>c. int (unat (ch_Size c))) chunks;
                   record = \<lparr>fr_ID = 0, fr_Path = relPath, fr_MerkleRoot = computeMerkleRoot H chunkHashes,
                     fr_Size = sz, fr_ModTime = modTime, fr_ChunkCount = int (length chunks),
                     fr_CreatedAt = 0, fr_UpdatedAt = 0\<rparr>
               in case Transaction (eng 1) (update_tx eng record chunkHashes chunkSizes) db of
                    (Inl e, db') \<Rightarrow> (Inl (Err ''updating database''), [], db')
                  | (Inr record', db') \<Rightarrow> (Inr (), [OnUpdate relPath record'], db')))"

definition handleDelete :: "(nat \<Rightarrow> engine) \<Rightarrow> string \<Rightarrow> database \<Rightarrow> unit res \<times> notice list \<times> database" where
  "handleDelete eng relPath db =
     (case Transaction (eng 1) (DeleteFile (eng 2) relPath) db of
        (Inl e, db') \<Rightarrow> (Inl (Err ''deleting from database''), [], db')
      | (Inr u, db') \<Rightarrow> (Inr (), [OnDelete relPath], db'))"

text \<open>The common part of \<open>processFile\<close> and \<open>ScanAll\<close>: the check and the update, with the failure of each.\<close>

definition check_update :: "(bytes \<Rightarrow> bytes) \<Rightarrow> (nat \<Rightarrow> engine) \<Rightarrow> string \<Rightarrow> int \<Rightarrow> int \<Rightarrow> reader option \<Rightarrow> database \<Rightarrow>
    bool res \<times> unit res \<times> notice list \<times> database" where
  "check_update H eng relPath modTime sz f db =
     (case NeedsUpdate (eng 0) relPath modTime sz db of
        Inl e \<Rightarrow> (Inl (Err ''checking needs update''), Inr (), [], db)
      | Inr False \<Rightarrow> (Inr False, Inr (), [], db)
      | Inr True \<Rightarrow> (Inr True, handleUpdate H eng relPath modTime sz f db))"

definition processFile :: "(bytes \<Rightarrow> bytes) \<Rightarrow> (nat \<Rightarrow> engine) \<Rightarrow> (path \<Rightarrow> stat) \<Rightarrow> Watcher \<Rightarrow> path \<Rightarrow> database \<Rightarrow>
    unit res \<times> notice list \<times> database" where
  "processFile H eng world w relPath db =
     (case world (Join_rel (wa_rootPath w) relPath) of
        Missing \<Rightarrow> handleDelete eng (rel_string relPath) db
      | StatFail \<Rightarrow> (Inl (Err ''stat file''), [], db)
      | StatDir \<Rightarrow> (Inr (), [], db)
      | StatFile modTime sz f \<Rightarrow>
          (case check_update H eng (rel_string relPath) modTime sz f db of
             (Inl e, _, ns, db') \<Rightarrow> (Inl e, ns, db')
           | (Inr b, res, ns, db') \<Rightarrow> (res, ns, db')))"

fun process_all :: "(bytes \<Rightarrow> bytes) \<Rightarrow> (path \<Rightarrow> nat \<Rightarrow> engine) \<Rightarrow> (path \<Rightarrow> stat) \<Rightarrow> Watcher \<Rightarrow> path list \<Rightarrow> database \<Rightarrow>
    notice list \<times> database" where
  "process_all H engs world w [] db = ([], db)"
| "process_all H engs world w (p # ps) db =
     (case processFile H (engs p) world w p db of
        (res, ns, db') \<Rightarrow>
          apfst (\<lambda>ms. ns @ (case res of Inl e \<Rightarrow> [OnError e] | Inr _ \<Rightarrow> []) @ ms) (process_all H engs world w ps db'))"

text \<open>The queue is swapped for an empty one; \<open>ord\<close> is the order in which Go visits the old one.\<close>

definition flushPending :: "(bytes \<Rightarrow> bytes) \<Rightarrow> (path \<Rightarrow> nat \<Rightarrow> engine) \<Rightarrow> (path \<Rightarrow> stat) \<Rightarrow> (path list \<Rightarrow> path list) \<Rightarrow>
    Watcher \<Rightarrow> database \<Rightarrow> notice list \<times> Watcher \<times> database" where
  "flushPending H engs world ord w db =
     (if wa_pending w = [] then ([], w, db)
      else case process_all H engs world w (ord (wa_pending w)) db of
             (ns, db') \<Rightarrow> (ns, w\<lparr>wa_pending := []\<rparr>, db'))"

text \<open>
  The tree that \<open>filepath.WalkDir\<close> walks, in its order: directories with whether they can be read,
  files with whether \<open>Info\<close> succeeds, their modification time, size and reader.
\<close>

datatype wentry = WDir string bool "wentry list" | WFile string bool int int "reader option"

fun start_walk :: "(path \<Rightarrow> bool) \<Rightarrow> bool \<Rightarrow> path \<Rightarrow> wentry \<Rightarrow> path list \<Rightarrow> go_error option \<times> path list"
and start_walks :: "(path \<Rightarrow> bool) \<Rightarrow> path \<Rightarrow> wentry list \<Rightarrow> path list \<Rightarrow> go_error option \<times> path list" where
  "start_walk add isRoot path (WFile name ok t sz f) watched = (None, watched)"
| "start_walk add isRoot path (WDir name ok entries) watched =
     (if hidden_name name \<and> \<not> isRoot then (None, watched)
      else if \<not> add path then (Some (Err ''watching''), watched)
      else if \<not> ok then (Some (Err ''reading directory''), watched @ [path])
      else start_walks add path entries (watched @ [path]))"
| "start_walks add path [] watched = (None, watched)"
| "start_walks add path (e # es) watched =
     (case start_walk add False (path @ [case e of WDir n _ _ \<Rightarrow> n | WFile n _ _ _ _ \<Rightarrow> n]) e watched of
        (Some err, watched') \<Rightarrow> (Some err, watched')
      | (None, watched') \<Rightarrow> start_walks add path es watched')"

text \<open>The tree is \<open>None\<close> when the root cannot be read at all.\<close>

definition Start :: "(path \<Rightarrow> bool) \<Rightarrow> wentry option \<Rightarrow> Watcher \<Rightarrow> unit res \<times> Watcher" where
  "Start add tree w =
     (case tree of
        None \<Rightarrow> (Inl (Err ''walking directory tree''), w)
      | Some e \<Rightarrow>
          (case start_walk add True (wa_rootPath w) e (wa_watched w) of
             (Some err, watched) \<Rightarrow> (Inl (Err ''walking directory tree''), w\<lparr>wa_watched := watched\<rparr>)
           | (None, watched) \<Rightarrow> (Inr (), w\<lparr>wa_watched := watched\<rparr>)))"

fun scan_walk :: "(bytes \<Rightarrow> bytes) \<Rightarrow> (path \<Rightarrow> nat \<Rightarrow> engine) \<Rightarrow> path \<Rightarrow> wentry \<Rightarrow> database \<Rightarrow>
    go_error option \<times> notice list \<times> database"
and scan_walks :: "(bytes \<Rightarrow> bytes) \<Rightarrow> (path \<Rightarrow> nat \<Rightarrow> engine) \<Rightarrow> path \<Rightarrow> wentry list \<Rightarrow> database \<Rightarrow>
    go_error option \<times> notice list \<times> database" where
  "scan_walk H engs rel (WFile name ok modTime sz f) db =
     (if hidden_name name then (None, [], db)
      else if \<not> ok then (Some (Err ''getting file info''), [], db)
      else case check_update H (engs rel) (rel_string rel) modTime sz f db of
             (Inl e, _, ns, db') \<Rightarrow> (Some e, ns, db')
           | (Inr b, res, ns, db') \<Rightarrow> (None, ns @ (case res of Inl e \<Rightarrow> [OnError e] | Inr _ \<Rightarrow> []), db'))"
| "scan_walk H engs rel (WDir name ok entries) db =
     (if hidden_name name then (None, [], db)
      else if \<not> ok then (Some (Err ''reading directory''), [], db)
      else scan_walks H engs rel entries db)"
| "scan_walks H engs rel [] db = (None, [], db)"
| "scan_walks H engs rel (e # es) db =
     (case scan_walk H engs (rel @ [case e of WDir n _ _ \<Rightarrow> n | WFile n _ _ _ _ \<Rightarrow> n]) e db of
        (Some err, ns, db') \<Rightarrow> (Some err, ns, db')
      | (None, ns, db') \<Rightarrow>
          (case scan_walks H engs rel es db' of (err, ms, db'') \<Rightarrow> (err, ns @ ms, db'')))"

text \<open>The paths below the root are relative to it from the start.\<close>

definition ScanAll :: "(bytes \<Rightarrow> bytes) \<Rightarrow> (path \<Rightarrow> nat \<Rightarrow> engine) \<Rightarrow> wentry option \<Rightarrow> database \<Rightarrow>
    go_error option \<times> notice list \<times> database" where
  "ScanAll H engs tree db =
     (case tree of
        None \<Rightarrow> (Some (Err ''lstat''), [], db)
      | Some e \<Rightarrow> scan_walk H engs [] e db)"

section \<open>Lemmas\<close>

text \<open>What the database holds of a path: its row and the chunk rows of its ID.\<close>

definition file_view :: "string \<Rightarrow> database \<Rightarrow> (file_row \<times> chunk_row list) option" where
  "file_view path db =
     map_option (\<lambda>r. (r, filter (\<lambda>c. ck_file_id c = fl_id r) (db_file_chunks db)))
       (find (\<lambda>r. fl_path r = path) (db_files db))"

definition no_fail :: "(nat \<Rightarrow> engine) \<Rightarrow> bool" where
  "no_fail eng \<longleftrightarrow> (\<forall>k n. \<not> en_fail (eng k) n)"

lemma chunk_rows_id: "c \<in> set (chunk_rows i k chunks sizes) \<Longrightarrow> ck_file_id c = i"
  by (auto simp: chunk_rows_def)

lemma insert_chunks_succeed:
  assumes "\<And>n. \<not> en_fail en n" "en_fk en \<longrightarrow> i \<in> fl_id ` set (db_files db)"
    and "\<forall>c \<in> set (db_file_chunks db). ck_file_id c = i \<longrightarrow> ck_chunk_index c < int k"
  shows "insert_chunks en i k chunks sizes db =
    (Inr (), db\<lparr>db_file_chunks := db_file_chunks db @ chunk_rows i k chunks sizes\<rparr>)"
  using assms(2,3)
proof (induction chunks arbitrary: k db)
  case (Cons h hs)
  let ?c = "\<lparr>ck_file_id = i, ck_chunk_index = int k, ck_chunk_hash = h,
    ck_size = (if k < length sizes then sizes ! k else 4096)\<rparr>"
  have "insert_chunk en (4 + k) ?c db = Some (db\<lparr>db_file_chunks := db_file_chunks db @ [?c]\<rparr>)"
    using Cons.prems assms(1) by (force simp: insert_chunk_def)
  with Cons.IH [of "db\<lparr>db_file_chunks := db_file_chunks db @ [?c]\<rparr>" "Suc k"] Cons.prems show ?case
    by (force simp: Let_def chunk_rows_def)
qed (simp add: chunk_rows_def)

lemma set_chunks_succeed:
  assumes "\<And>n. \<not> en_fail en n" "i \<in> fl_id ` set (db_files db)"
  shows "SetFileChunks en i chunks sizes db =
    (Inr (), db\<lparr>db_file_chunks := filter (\<lambda>c. ck_file_id c \<noteq> i) (db_file_chunks db) @ chunk_rows i 0 chunks sizes\<rparr>)"
  using assms insert_chunks_succeed [of en i "db\<lparr>db_file_chunks := filter (\<lambda>c. ck_file_id c \<noteq> i) (db_file_chunks db)\<rparr>" 0 chunks sizes]
  by (simp add: SetFileChunks_def)

text \<open>Rows of different paths have different IDs.\<close>

lemma row_ids:
  assumes "db_ok db" "find (\<lambda>r. fl_path r = p) (db_files db) = Some x" "find (\<lambda>r. fl_path r = q) (db_files db) = Some y" "p \<noteq> q"
  shows "fl_id x \<noteq> fl_id y"
proof -
  have "x \<in> set (db_files db)" "y \<in> set (db_files db)" "fl_path x = p" "fl_path y = q"
    using assms(2,3) by (auto simp: find_Some_iff)
  then show ?thesis using db_okD(2) [OF assms(1)] assms(4) by (auto simp: distinct_map inj_on_def)
qed

lemma upsert_row:
  assumes "\<not> en_fail en 3"
  obtains row db1 where "UpsertFile en r db = (Inr (r\<lparr>fr_ID := fl_id row\<rparr>), db1)"
    "find (\<lambda>x. fl_path x = fr_Path r) (db_files db1) = Some row" "db_file_chunks db1 = db_file_chunks db"
    "fl_merkle_root row = fr_MerkleRoot r" "fl_size row = fr_Size r" "fl_mod_time row = Unix (fr_ModTime r)"
    "fl_chunk_count row = fr_ChunkCount r"
    "\<And>q. q \<noteq> fr_Path r \<Longrightarrow> find (\<lambda>x. fl_path x = q) (db_files db1) = find (\<lambda>x. fl_path x = q) (db_files db)"
proof (cases rule: UpsertFile_cases [of en r db])
  case (update row fs)
  then show ?thesis
    by (intro that [of "row\<lparr>fl_merkle_root := fr_MerkleRoot r, fl_size := fr_Size r,
                       fl_mod_time := Unix (fr_ModTime r), fl_chunk_count := fr_ChunkCount r,
                       fl_updated_at := en_now en\<rparr>" "db\<lparr>db_files := fs\<rparr>"]) (simp_all add: GetFile_update)
next
  case (fresh row)
  then show ?thesis
    by (intro that [of row "db\<lparr>db_files := db_files db @ [row], db_seq_files := fl_id row\<rparr>"])
       (simp_all add: find_append split: option.split)
qed (use assms in simp)

text \<open>A view that is up to date with the content \<open>d\<close> of a file, its size and modification time.\<close>

definition indexed :: "(bytes \<Rightarrow> bytes) \<Rightarrow> bytes \<Rightarrow> int \<Rightarrow> int \<Rightarrow> (file_row \<times> chunk_row list) option \<Rightarrow> bool" where
  "indexed H d modTime sz v \<longleftrightarrow>
     (\<exists>row. v = Some (row, chunk_rows (fl_id row) 0 (map H (blocks ChunkSize d)) (map (\<lambda>b. int (length b)) (blocks ChunkSize d))) \<and>
       fl_merkle_root row = computeMerkleRoot H (map H (blocks ChunkSize d)) \<and> fl_size row = sz \<and>
       fl_mod_time row = Unix modTime \<and> fl_chunk_count row = int (length (blocks ChunkSize d)))"

lemma chunk_sizes:
  "map (\<lambda>c. int (unat (ch_Size c))) (map (chunk_of H) (blocks ChunkSize d)) = map (\<lambda>b. int (length b)) (blocks ChunkSize d)"
proof -
  have "int (unat (ch_Size (chunk_of H b))) = int (length b)" if "b \<in> set (blocks ChunkSize d)" for b
    using chunk_of_valid [OF that, of H] unfolding chunk_valid_def by (simp only: chunk_of_simps)
  then show ?thesis by (simp only: map_map comp_def cong: map_cong)
qed

lemma filter_absorb: "(\<And>c. c \<in> set xs \<Longrightarrow> P c \<Longrightarrow> Q c) \<Longrightarrow> filter P (filter Q xs) = filter P xs"
  by (induction xs) auto

lemma handleUpdate_spec:
  assumes "db_ok db" "no_fail eng"
  shows "\<exists>ns db'. handleUpdate H eng p modTime sz (Some (reader_of d)) db = (Inr (), ns, db') \<and>
    db_ok db' \<and> indexed H d modTime sz (file_view p db') \<and> (\<forall>q. q \<noteq> p \<longrightarrow> file_view q db' = file_view q db) \<and>
    (\<forall>e. OnError e \<notin> set ns)"
proof -
  let ?hashes = "map H (blocks ChunkSize d)" and ?sizes = "map (\<lambda>b. int (length b)) (blocks ChunkSize d)"
  let ?r = "\<lparr>fr_ID = 0, fr_Path = p, fr_MerkleRoot = computeMerkleRoot H ?hashes, fr_Size = sz, fr_ModTime = modTime,
    fr_ChunkCount = int (length (blocks ChunkSize d)), fr_CreatedAt = 0, fr_UpdatedAt = 0\<rparr>"
  have nf: "\<And>k n. \<not> en_fail (eng k) n" using assms(2) by (simp add: no_fail_def)
  obtain row db1 where up: "UpsertFile (eng 2) ?r db = (Inr (?r\<lparr>fr_ID := fl_id row\<rparr>), db1)"
    "find (\<lambda>x. fl_path x = p) (db_files db1) = Some row" "db_file_chunks db1 = db_file_chunks db"
    "fl_merkle_root row = computeMerkleRoot H ?hashes" "fl_size row = sz" "fl_mod_time row = Unix modTime"
    "fl_chunk_count row = int (length (blocks ChunkSize d))"
    "\<And>q. q \<noteq> p \<Longrightarrow> find (\<lambda>x. fl_path x = q) (db_files db1) = find (\<lambda>x. fl_path x = q) (db_files db)"
    using upsert_row [OF nf, of 2 ?r db] by auto
  let ?db' = "db1\<lparr>db_file_chunks := filter (\<lambda>c. ck_file_id c \<noteq> fl_id row) (db_file_chunks db1) @
    chunk_rows (fl_id row) 0 ?hashes ?sizes\<rparr>"
  have ok1: "db_ok db1" using upsert_ok [OF assms(1), of "eng 2" ?r] up(1) by simp
  have "fl_id row \<in> fl_id ` set (db_files db1)" using up(2) by (auto simp: find_Some_iff)
  then have sc: "SetFileChunks (eng 3) (fl_id row) ?hashes ?sizes db1 = (Inr (), ?db')"
    using set_chunks_succeed [of "eng 3" "fl_id row" db1 ?hashes ?sizes] nf by simp
  then have ok: "db_ok ?db'" using set_chunks_ok [OF ok1, of "eng 3" "fl_id row" ?hashes ?sizes] by simp
  have "update_tx eng ?r ?hashes ?sizes db = (Inr (?r\<lparr>fr_ID := fl_id row\<rparr>), ?db')"
    using up(1) sc by (simp add: update_tx_def)
  then have tx: "Transaction (eng 1) (update_tx eng ?r ?hashes ?sizes) db = (Inr (?r\<lparr>fr_ID := fl_id row\<rparr>), ?db')"
    using nf by (simp add: Transaction_def)
  have hs: "map ch_Hash (map (chunk_of H) (blocks ChunkSize d)) = ?hashes" by simp
  have run: "handleUpdate H eng p modTime sz (Some (reader_of d)) db = (Inr (), [OnUpdate p (?r\<lparr>fr_ID := fl_id row\<rparr>)], ?db')"
    unfolding handleUpdate_def option.case ChunkAll_reader_of sum.case Let_def hs chunk_sizes length_map tx prod.case ..
  have "indexed H d modTime sz (file_view p ?db')"
    using up(2,4-7) chunk_rows_id [of _ "fl_id row" 0 ?hashes ?sizes]
    by (simp add: indexed_def file_view_def filter_id_conv)
  moreover have "file_view q ?db' = file_view q db" if "q \<noteq> p" for q
  proof (cases "find (\<lambda>x. fl_path x = q) (db_files db1)")
    case (Some y)
    have "fl_id row \<noteq> fl_id y" using row_ids [OF ok1 up(2) Some] that by blast
    then have "filter (\<lambda>c. ck_file_id c = fl_id y) (chunk_rows (fl_id row) 0 ?hashes ?sizes) = []"
      using chunk_rows_id [of _ "fl_id row" 0 ?hashes ?sizes] by (auto simp: filter_empty_conv)
    moreover have "filter (\<lambda>c. ck_file_id c = fl_id y) (filter (\<lambda>c. ck_file_id c \<noteq> fl_id row) (db_file_chunks db)) =
        filter (\<lambda>c. ck_file_id c = fl_id y) (db_file_chunks db)"
      using \<open>fl_id row \<noteq> fl_id y\<close> by (intro filter_absorb) auto
    ultimately show ?thesis using Some up(3) up(8) [OF that] by (simp add: file_view_def)
  qed (use up(8) [OF that] in \<open>simp add: file_view_def\<close>)
  ultimately show ?thesis using run ok by auto
qed

lemma handleDelete_spec:
  assumes "db_ok db" "no_fail eng"
  shows "\<exists>ns db'. handleDelete eng p db = (Inr (), ns, db') \<and> db_ok db' \<and> file_view p db' = None \<and>
    (\<forall>q. q \<noteq> p \<longrightarrow> file_view q db' = file_view q db) \<and> (\<forall>e. OnError e \<notin> set ns)"
proof -
  obtain db' where db': "DeleteFile (eng 2) p db = (Inr (), db')"
    using assms(2) by (auto simp: DeleteFile_def no_fail_def)
  have ok: "db_ok db'" using delete_ok [OF assms(1), of "eng 2" p] db' by simp
  have files: "db_files db' = filter (\<lambda>r. fl_path r \<noteq> p) (db_files db)"
    using db' by (auto simp: DeleteFile_def split: if_splits)
  have find: "find (\<lambda>r. fl_path r = q) (filter (\<lambda>r. fl_path r \<noteq> p) xs) =
      (if q = p then None else find (\<lambda>r. fl_path r = q) xs)" for q and xs :: "file_row list"
    by (induction xs) auto
  have "file_view q db' = file_view q db" if "q \<noteq> p" for q
  proof (cases "find (\<lambda>x. fl_path x = q) (db_files db)")
    case (Some y)
    then have y: "y \<in> set (db_files db)" "fl_path y = q" by (auto simp: find_Some_iff)
    have "\<not> (\<exists>r \<in> set (db_files db). fl_path r = p \<and> fl_id r = fl_id y)"
      using db_okD(2) [OF assms(1)] y that by (auto simp: distinct_map inj_on_def)
    then have "filter (\<lambda>c. ck_file_id c = fl_id y) (db_file_chunks db') = filter (\<lambda>c. ck_file_id c = fl_id y) (db_file_chunks db)"
      using db' by (auto simp: DeleteFile_def simp del: filter_filter split: if_splits intro!: filter_absorb)
    then show ?thesis using Some that by (simp add: file_view_def files find)
  qed (use that in \<open>simp add: file_view_def files find\<close>)
  then show ?thesis
    using assms(2) db' ok by (simp add: handleDelete_def Transaction_def no_fail_def file_view_def files find)
qed

text \<open>
  Both drivers process a list of items one by one, an item being a path with what \<open>Stat\<close> reports of
  it. \<open>settled\<close> is what processing an item does to the view of its path.
\<close>

definition index_one :: "(bytes \<Rightarrow> bytes) \<Rightarrow> (nat \<Rightarrow> engine) \<Rightarrow> string \<Rightarrow> stat \<Rightarrow> database \<Rightarrow> unit res \<times> notice list \<times> database" where
  "index_one H eng p st db =
     (case st of
        Missing \<Rightarrow> handleDelete eng p db
      | StatFail \<Rightarrow> (Inl (Err ''stat file''), [], db)
      | StatDir \<Rightarrow> (Inr (), [], db)
      | StatFile modTime sz f \<Rightarrow>
          (case check_update H eng p modTime sz f db of
             (Inl e, _, ns, db') \<Rightarrow> (Inl e, ns, db')
           | (Inr b, res, ns, db') \<Rightarrow> (res, ns, db')))"

fun index_all :: "(bytes \<Rightarrow> bytes) \<Rightarrow> (path \<Rightarrow> nat \<Rightarrow> engine) \<Rightarrow> (path \<times> stat) list \<Rightarrow> database \<Rightarrow> notice list \<times> database" where
  "index_all H engs [] db = ([], db)"
| "index_all H engs ((p, st) # items) db =
     (case index_one H (engs p) (rel_string p) st db of
        (res, ns, db') \<Rightarrow>
          apfst (\<lambda>ms. ns @ (case res of Inl e \<Rightarrow> [OnError e] | Inr _ \<Rightarrow> []) @ ms) (index_all H engs items db'))"

definition needs :: "int \<Rightarrow> int \<Rightarrow> (file_row \<times> chunk_row list) option \<Rightarrow> bool" where
  "needs modTime sz v = (case v of None \<Rightarrow> True | Some (row, _) \<Rightarrow> fl_size row \<noteq> sz \<or> fl_mod_time row \<noteq> Unix modTime)"

fun settled :: "(bytes \<Rightarrow> bytes) \<Rightarrow> stat \<Rightarrow> (file_row \<times> chunk_row list) option \<Rightarrow> (file_row \<times> chunk_row list) option \<Rightarrow> bool" where
  "settled H Missing v v' = (v' = None)"
| "settled H (StatFile modTime sz (Some r)) v v' = (if needs modTime sz v then indexed H (rd_bytes r) modTime sz v' else v' = v)"
| "settled H st v v' = (v' = v)"

text \<open>Items whose processing meets no error: files can be read to their end.\<close>

fun readable :: "stat \<Rightarrow> bool" where
  "readable StatFail = False"
| "readable (StatFile modTime sz f) = (case f of None \<Rightarrow> False | Some r \<Rightarrow> rd_fail r = None)"
| "readable st = True"

lemma NeedsUpdate_view: "\<not> en_fail en 0 \<Longrightarrow> NeedsUpdate en p modTime sz db = Inr (needs modTime sz (file_view p db))"
  by (auto simp: NeedsUpdate_def GetFile_def needs_def file_view_def scan_file_def
      split: option.split)

lemma index_one_spec:
  assumes "db_ok db" "no_fail eng" "readable st"
  shows "\<exists>ns db'. index_one H eng p st db = (Inr (), ns, db') \<and> db_ok db' \<and>
    settled H st (file_view p db) (file_view p db') \<and> (\<forall>q. q \<noteq> p \<longrightarrow> file_view q db' = file_view q db) \<and>
    (\<forall>e. OnError e \<notin> set ns)"
proof (cases st)
  case Missing
  then show ?thesis using handleDelete_spec [OF assms(1,2), of p] by (auto simp: index_one_def)
next
  case (StatFile modTime sz f)
  then obtain r where r: "f = Some r" "rd_fail r = None" using assms(3) by (auto split: option.splits)
  then have f: "f = Some (reader_of (rd_bytes r))" by simp
  have "NeedsUpdate (eng 0) p modTime sz db = Inr (needs modTime sz (file_view p db))"
    using assms(2) by (intro NeedsUpdate_view) (simp add: no_fail_def)
  then show ?thesis
    using StatFile assms(1) f handleUpdate_spec [OF assms(1,2), of H p modTime sz "rd_bytes r"]
    by (cases "needs modTime sz (file_view p db)") (auto simp: index_one_def check_update_def)
qed (use assms in \<open>auto simp: index_one_def\<close>)

lemma index_all_spec:
  assumes "db_ok db" "\<And>p. no_fail (engs p)" "\<forall>(p, st) \<in> set items. readable st \<and> list_all comp_ok p" "distinct (map fst items)"
  shows "\<exists>ns db'. index_all H engs items db = (ns, db') \<and> db_ok db' \<and>
    (\<forall>(p, st) \<in> set items. settled H st (file_view (rel_string p) db) (file_view (rel_string p) db')) \<and>
    (\<forall>q. q \<notin> (\<lambda>(p, st). rel_string p) ` set items \<longrightarrow> file_view q db' = file_view q db) \<and> (\<forall>e. OnError e \<notin> set ns)"
  using assms(1,3,4)
proof (induction items arbitrary: db)
  case (Cons item items)
  obtain p st where item: "item = (p, st)" by (cases item)
  have ps: "readable st" "list_all comp_ok p" using Cons.prems(2) by (simp_all add: item)
  obtain ns1 db1 where one: "index_one H (engs p) (rel_string p) st db = (Inr (), ns1, db1)" "db_ok db1"
      "settled H st (file_view (rel_string p) db) (file_view (rel_string p) db1)"
      "\<And>q. q \<noteq> rel_string p \<Longrightarrow> file_view q db1 = file_view q db" "\<And>e. OnError e \<notin> set ns1"
    using index_one_spec [OF Cons.prems(1) assms(2) ps(1), of H p "rel_string p"] by blast
  obtain ns db' where rest: "index_all H engs items db1 = (ns, db')" "db_ok db'"
      "\<And>q sq. (q, sq) \<in> set items \<Longrightarrow> settled H sq (file_view (rel_string q) db1) (file_view (rel_string q) db')"
      "\<And>q. q \<notin> (\<lambda>(p, st). rel_string p) ` set items \<Longrightarrow> file_view q db' = file_view q db1" "\<And>e. OnError e \<notin> set ns"
    using Cons.IH [OF one(2)] Cons.prems(2,3) by force
  have ne: "rel_string q \<noteq> rel_string p" if "(q, sq) \<in> set items" for q sq
  proof -
    have "q \<noteq> p" using Cons.prems(3) that by (auto simp: item rev_image_eqI)
    moreover have "list_all comp_ok q" using Cons.prems(2) that by auto
    ultimately show ?thesis using rel_string_inj [of q p] ps(2) by blast
  qed
  then have "rel_string p \<notin> (\<lambda>(p, st). rel_string p) ` set items" by force
  then have "settled H st (file_view (rel_string p) db) (file_view (rel_string p) db')" using one(3) rest(4) by simp
  moreover have "settled H sq (file_view (rel_string q) db) (file_view (rel_string q) db')" if "(q, sq) \<in> set items" for q sq
    using rest(3) [OF that] one(4) [OF ne [OF that]] by simp
  ultimately have "\<forall>(q, sq) \<in> set (item # items). settled H sq (file_view (rel_string q) db) (file_view (rel_string q) db')"
    by (auto simp: item)
  moreover have "\<forall>q. q \<notin> (\<lambda>(p, st). rel_string p) ` set (item # items) \<longrightarrow> file_view q db' = file_view q db"
    using rest(4) one(4) by (simp add: item)
  ultimately show ?case using one(1,5) rest(1,2,5) by (auto simp: item)
qed simp

lemma process_all_index:
  "process_all H engs world w ps db = index_all H engs (map (\<lambda>p. (p, world (Join_rel (wa_rootPath w) p))) ps) db"
  by (induction ps arbitrary: db) (simp_all add: processFile_def index_one_def)

text \<open>The files a scan visits.\<close>

fun visible_files :: "path \<Rightarrow> wentry \<Rightarrow> (path \<times> stat) list" where
  "visible_files rel (WFile name ok modTime sz f) = (if hidden_name name then [] else [(rel, StatFile modTime sz f)])"
| "visible_files rel (WDir name ok entries) =
     (if hidden_name name then []
      else concat (map (\<lambda>e. visible_files (rel @ [case e of WDir n _ _ \<Rightarrow> n | WFile n _ _ _ _ \<Rightarrow> n]) e) entries))"

fun walk_ok :: "wentry \<Rightarrow> bool" where
  "walk_ok (WFile name ok modTime sz f) = (ok \<and> readable (StatFile modTime sz f))"
| "walk_ok (WDir name ok entries) =
     (ok \<and> distinct (map (\<lambda>e. case e of WDir n _ _ \<Rightarrow> n | WFile n _ _ _ _ \<Rightarrow> n) entries) \<and>
      list_all (\<lambda>e. comp_ok (case e of WDir n _ _ \<Rightarrow> n | WFile n _ _ _ _ \<Rightarrow> n)) entries \<and> list_all walk_ok entries)"

abbreviation wname :: "wentry \<Rightarrow> string" where
  "wname e \<equiv> (case e of WDir n _ _ \<Rightarrow> n | WFile n _ _ _ _ \<Rightarrow> n)"

lemma visible_prefix: "(p, st) \<in> set (visible_files rel e) \<Longrightarrow> \<exists>q. p = rel @ q"
proof (induction rel e arbitrary: p st rule: visible_files.induct)
  case (2 rel name ok entries)
  then obtain e where "e \<in> set entries" "\<not> hidden_name name" "(p, st) \<in> set (visible_files (rel @ [wname e]) e)"
    by (auto split: if_splits)
  then show ?case using "2.IH" by fastforce
qed (auto split: if_splits)

lemma visible_ok:
  assumes "walk_ok e" "list_all comp_ok rel" "(p, st) \<in> set (visible_files rel e)"
  shows "readable st \<and> list_all comp_ok p"
  using assms
proof (induction rel e arbitrary: p st rule: visible_files.induct)
  case (2 rel name ok entries)
  then obtain e where e: "e \<in> set entries" "\<not> hidden_name name" "(p, st) \<in> set (visible_files (rel @ [wname e]) e)"
    by (auto split: if_splits)
  moreover have "walk_ok e" "comp_ok (wname e)" using "2.prems"(1) e(1) by (auto simp: list_all_iff)
  ultimately show ?case using "2.IH" [OF e(2,1)] "2.prems"(2) by simp
qed (auto split: if_splits)

lemma visible_distinct: "walk_ok e \<Longrightarrow> distinct (map fst (visible_files rel e))"
proof (induction rel e rule: visible_files.induct)
  case (2 rel name ok entries)
  have "distinct (map fst (concat (map (\<lambda>e. visible_files (rel @ [wname e]) e) es)))"
    if "set es \<subseteq> set entries" "distinct (map wname es)" "\<not> hidden_name name" for es
    using that
  proof (induction es)
    case (Cons e es)
    have "distinct (map fst (visible_files (rel @ [wname e]) e))"
      using "2.IH" [of e] "2.prems" Cons.prems by (auto simp: list_all_iff)
    moreover have "p \<noteq> p'" if "(p, st) \<in> set (visible_files (rel @ [wname e]) e)"
        "e' \<in> set es" "(p', st') \<in> set (visible_files (rel @ [wname e']) e')" for p st e' p' st'
    proof -
      have "wname e \<noteq> wname e'" using Cons.prems(2) that(2) by (auto simp: rev_image_eqI)
      then show ?thesis using visible_prefix [OF that(1)] visible_prefix [OF that(3)] by auto
    qed
    ultimately show ?case using Cons by force
  qed simp
  then show ?case using "2.prems" by simp
qed simp

lemma index_all_append:
  "index_all H engs (xs @ ys) db =
    (case index_all H engs xs db of (ns, db1) \<Rightarrow> apfst ((@) ns) (index_all H engs ys db1))"
  by (induction xs arbitrary: db) (auto simp: apfst_def map_prod_def split: prod.split)

lemma check_update_Inr:
  assumes "no_fail eng"
  obtains b res ns db' where "check_update H eng p modTime sz f db = (Inr b, res, ns, db')"
proof -
  have "NeedsUpdate (eng 0) p modTime sz db = Inr (needs modTime sz (file_view p db))"
    using assms by (intro NeedsUpdate_view) (simp add: no_fail_def)
  then have "fst (check_update H eng p modTime sz f db) = Inr (needs modTime sz (file_view p db))"
    by (cases "needs modTime sz (file_view p db)") (simp_all add: check_update_def)
  then show ?thesis by (intro that) (auto simp: prod_eq_iff)
qed

lemma scan_walk_index:
  "\<forall>p. no_fail (engs p) \<Longrightarrow> walk_ok e \<Longrightarrow>
    scan_walk H engs rel e db = (None, index_all H engs (visible_files rel e) db)"
  "\<forall>p. no_fail (engs p) \<Longrightarrow> list_all walk_ok es \<Longrightarrow> scan_walks H engs rel es db =
      (None, index_all H engs (concat (map (\<lambda>e. visible_files (rel @ [wname e]) e) es)) db)"
proof (induction H engs rel e db and H engs rel es db rule: scan_walk_scan_walks.induct)
  case (1 H engs rel name ok modTime sz f db)
  obtain b res ns db' where "check_update H (engs rel) (rel_string rel) modTime sz f db = (Inr b, res, ns, db')"
    using check_update_Inr [of "engs rel"] "1.prems"(1) by blast
  then show ?case using "1.prems"(2) by (simp add: index_one_def split: sum.split)
next
  case (4 H engs rel e es db)
  then show ?case by (cases "index_all H engs (visible_files (rel @ [wname e]) e) db") (auto simp: index_all_append apfst_def map_prod_def split: prod.split)
qed auto


section \<open>Properties\<close>

text \<open>
  C9. A tick of the timer brings the database up to date with the queued files. When no statement fails
  and the files can be read, the queue is emptied, no error is reported, and for each queued path: a
  missing file has no record left; a file whose size or second of modification differs from its
  record, or which has none, gets a record with its size, time and Merkle root, and exactly the
  chunk rows of its content; a file that is unchanged by that test keeps its record. Records of
  all other paths stay as they were.
\<close>

theorem flush_indexes_pending:
  assumes "db_ok db" "\<forall>p. no_fail (engs p)" "distinct (wa_pending w)" "\<forall>p \<in> set (wa_pending w). list_all comp_ok p"
    and "\<forall>p \<in> set (wa_pending w). readable (world (Join_rel (wa_rootPath w) p))"
    and "mset (ord (wa_pending w)) = mset (wa_pending w)"
  shows "\<exists>ns db'. flushPending H engs world ord w db = (ns, w\<lparr>wa_pending := []\<rparr>, db') \<and> db_ok db' \<and>
    (\<forall>p \<in> set (wa_pending w). settled H (world (Join_rel (wa_rootPath w) p))
       (file_view (rel_string p) db) (file_view (rel_string p) db')) \<and>
    (\<forall>q. q \<notin> rel_string ` set (wa_pending w) \<longrightarrow> file_view q db' = file_view q db) \<and> (\<forall>e. OnError e \<notin> set ns)"
proof (cases "wa_pending w = []")
  case False
  let ?items = "map (\<lambda>p. (p, world (Join_rel (wa_rootPath w) p))) (ord (wa_pending w))"
  have sets: "set (ord (wa_pending w)) = set (wa_pending w)" using assms(6) by (metis set_mset_mset)
  have "distinct (ord (wa_pending w))" using assms(3,6) by (metis mset_eq_imp_distinct_iff)
  then have "distinct (map fst ?items)" by (simp add: comp_def)
  moreover have "\<forall>(p, st) \<in> set ?items. readable st \<and> list_all comp_ok p" using assms(4,5) sets by auto
  ultimately obtain ns db' where "index_all H engs ?items db = (ns, db')" "db_ok db'"
    "\<forall>(p, st) \<in> set ?items. settled H st (file_view (rel_string p) db) (file_view (rel_string p) db')"
    "\<forall>q. q \<notin> (\<lambda>(p, st). rel_string p) ` set ?items \<longrightarrow> file_view q db' = file_view q db" "\<forall>e. OnError e \<notin> set ns"
    using index_all_spec [OF assms(1), of engs ?items H] assms(2) by auto
  then show ?thesis using False sets by (simp add: flushPending_def process_all_index image_image)
qed (simp add: flushPending_def assms(1))

definition watcher1 :: Watcher where
  "watcher1 = \<lparr>wa_rootPath = [''r''], wa_pending = [[''a''], [''d'', ''b'']], wa_debounce = 100, wa_watched = [[''r'']]\<rparr>"

definition world1 :: "path \<Rightarrow> stat" where
  "world1 p = (if p = [''r'', ''a''] then StatFile 5000000000 3 (Some (reader_of [1, 2, 3])) else Missing)"

lemma schema_ok: "db_ok schema"
  by (simp add: schema_def db_ok_def)

lemma schema_view: "file_view q schema = None"
  by (simp add: file_view_def schema_def)

lemma flush_indexes_pending_witness:
  "\<exists>ns db'. flushPending pad_hash (\<lambda>p k. engine1) world1 rev watcher1 schema = (ns, watcher1\<lparr>wa_pending := []\<rparr>, db') \<and>
    indexed pad_hash [1, 2, 3] 5000000000 3 (file_view ''a'' db') \<and> file_view ''d/b'' db' = None"
proof -
  have "\<forall>p. no_fail ((\<lambda>p k. engine1) p)" by (simp add: no_fail_def engine1_def)
  from flush_indexes_pending [OF schema_ok this, of watcher1 world1 rev pad_hash]
  obtain ns db' where run: "flushPending pad_hash (\<lambda>p k. engine1) world1 rev watcher1 schema = (ns, watcher1\<lparr>wa_pending := []\<rparr>, db')"
    "\<forall>p \<in> set (wa_pending watcher1). settled pad_hash (world1 (Join_rel (wa_rootPath watcher1) p))
       (file_view (rel_string p) schema) (file_view (rel_string p) db')"
    by (auto simp: watcher1_def world1_def comp_ok_def Join_rel_def)
  then show ?thesis
    by (simp add: watcher1_def world1_def Join_rel_def needs_def schema_view)
qed

text \<open>
  C22. The initial scan indexes every visible file. When no statement fails and everything can be read,
  \<open>ScanAll\<close> returns no error and reports none, each file outside hidden directories whose size or
  second of modification differs from its record gets an exact new one, and nothing else changes.
\<close>

theorem scan_all_indexes:
  assumes "db_ok db" "\<forall>p. no_fail (engs p)" "walk_ok tree"
  shows "\<exists>ns db'. ScanAll H engs (Some tree) db = (None, ns, db') \<and> db_ok db' \<and>
    (\<forall>(p, st) \<in> set (visible_files [] tree). settled H st (file_view (rel_string p) db) (file_view (rel_string p) db')) \<and>
    (\<forall>q. q \<notin> (\<lambda>(p, st). rel_string p) ` set (visible_files [] tree) \<longrightarrow> file_view q db' = file_view q db) \<and>
    (\<forall>e. OnError e \<notin> set ns)"
proof -
  have "\<forall>(p, st) \<in> set (visible_files [] tree). readable st \<and> list_all comp_ok p"
    using visible_ok [OF assms(3), of "[]"] by auto
  from index_all_spec [OF assms(1) _ this visible_distinct [OF assms(3)], of engs H] assms(2)
  show ?thesis by (auto simp: ScanAll_def scan_walk_index(1) [OF assms(2,3)])
qed

lemma scan_all_indexes_witness:
  "\<exists>ns db'. ScanAll pad_hash (\<lambda>p k. engine1)
      (Some (WDir ''r'' True [WFile ''.h'' True 0 1 (Some (reader_of [9])), WFile ''a'' True 5000000000 3 (Some (reader_of [1, 2, 3]))])) schema =
      (None, ns, db') \<and> indexed pad_hash [1, 2, 3] 5000000000 3 (file_view ''a'' db') \<and> file_view ''.h'' db' = None"
proof -
  have nf: "\<forall>p. no_fail ((\<lambda>p k. engine1) p)" by (simp add: no_fail_def engine1_def)
  let ?tree = "WDir ''r'' True [WFile ''.h'' True 0 1 (Some (reader_of [9])),
    WFile ''a'' True 5000000000 3 (Some (reader_of [1, 2, 3]))]"
  have vis: "visible_files [] ?tree = [([''a''], StatFile 5000000000 3 (Some (reader_of [1, 2, 3])))]"
    by (simp add: hidden_name_def)
  have "walk_ok ?tree" by (simp add: comp_ok_def)
  from scan_all_indexes [OF schema_ok nf this, of pad_hash] obtain ns db' where
    run: "ScanAll pad_hash (\<lambda>p k. engine1) (Some ?tree) schema = (None, ns, db')"
    "settled pad_hash (StatFile 5000000000 3 (Some (reader_of [1, 2, 3]))) (file_view ''a'' schema) (file_view ''a'' db')"
    "\<forall>q. q \<notin> {''a''} \<longrightarrow> file_view q db' = file_view q schema"
    unfolding vis by auto
  then have "file_view ''.h'' db' = None" by (simp add: schema_view)
  then show ?thesis using run(1,2) by (auto simp: needs_def schema_view)
qed

text \<open>
  A root whose name starts with a dot is never scanned: \<open>ScanAll\<close> on it succeeds and does nothing. This
  includes the current directory, whose name is a single dot. \<open>Start\<close> exempts the root from this test.
\<close>

theorem scan_all_skips_dot_root:
  "hidden_name name \<Longrightarrow> ScanAll H engs (Some (WDir name ok entries)) db = (None, [], db)"
  by (simp add: ScanAll_def)

lemma scan_all_skips_dot_root_witness:
  "ScanAll pad_hash (\<lambda>p k. engine1) (Some (WDir ''.'' True [WFile ''a'' True 5 3 (Some (reader_of [1, 2, 3]))])) schema =
    (None, [], schema)"
  by (rule scan_all_skips_dot_root) (simp add: hidden_name_def)

end
