(* ===== verification/WatchLoop.thy ===== *)
theory WatchLoop
  imports Watcher
begin

text \<open>
  The two goroutines of a watcher in \<open>internal/watcher/watcher.go\<close>, \<open>processEvents\<close> and
  \<open>processPending\<close>, and \<open>Stop\<close>, as interleaved steps. A step of \<open>processEvents\<close> is one round of its
  loop; a step of \<open>processPending\<close> is one round up to the swap of the queue in \<open>flushPending\<close>, or the
  processing of one file of the batch it took, so that events arrive while a batch is processed.
  A label says what the step receives: what \<open>select\<close> chose, and what the file system and the database
  engine answer.
\<close>

section \<open>Definitions\<close>

datatype event_choice =
    EventsCancelled
  | EventReceived "path \<Rightarrow> stat" "path \<Rightarrow> bool" fs_event
  | EventsClosed
  | ErrorReceived go_error
  | ErrorsClosed

datatype pending_choice =
    PendingCancelled
  | Ticked "path list \<Rightarrow> path list"
  | NextFile "nat \<Rightarrow> engine" "path \<Rightarrow> stat"

datatype label = ByEvents event_choice | ByPending pending_choice | StopCancels | StopReturns

text \<open>
  \<open>ws_batch\<close> is what \<open>flushPending\<close> has still to process. \<open>ws_seen\<close> records each file processed with what
  \<open>os.Stat\<close> reported of it; no step depends on it.
\<close>

record watch_state =
  ws_watcher :: Watcher
  ws_db :: database
  ws_batch :: "path list"
  ws_cancelled :: bool
  ws_events_done :: bool
  ws_pending_done :: bool
  ws_closed :: bool
  ws_notices :: "notice list"
  ws_seen :: "(path \<times> stat) list"

definition started :: "Watcher \<Rightarrow> database \<Rightarrow> watch_state" where
  "started w db = \<lparr>ws_watcher = w, ws_db = db, ws_batch = [], ws_cancelled = False, ws_events_done = False,
     ws_pending_done = False, ws_closed = False, ws_notices = [], ws_seen = []\<rparr>"

text \<open>A result of None says that the step is not possible in this state.\<close>

fun processEvents :: "event_choice \<Rightarrow> watch_state \<Rightarrow> watch_state option" where
  "processEvents EventsCancelled s = (if ws_cancelled s then Some (s\<lparr>ws_events_done := True\<rparr>) else None)"
| "processEvents (EventReceived world add event) s =
     (case handleEvent world add event (ws_watcher s) of
        (ns, w) \<Rightarrow> Some (s\<lparr>ws_watcher := w, ws_notices := ws_notices s @ ns\<rparr>))"
| "processEvents EventsClosed s = Some (s\<lparr>ws_events_done := True\<rparr>)"
| "processEvents (ErrorReceived e) s = Some (s\<lparr>ws_notices := ws_notices s @ [OnError e]\<rparr>)"
| "processEvents ErrorsClosed s = Some (s\<lparr>ws_events_done := True\<rparr>)"

fun processPending :: "(bytes \<Rightarrow> bytes) \<Rightarrow> pending_choice \<Rightarrow> watch_state \<Rightarrow> watch_state option" where
  "processPending H PendingCancelled s =
     (if ws_cancelled s \<and> ws_batch s = [] then Some (s\<lparr>ws_pending_done := True\<rparr>) else None)"
| "processPending H (Ticked ord) s =
     (if ws_batch s = [] \<and> mset (ord (wa_pending (ws_watcher s))) = mset (wa_pending (ws_watcher s))
      then Some (s\<lparr>ws_watcher := (ws_watcher s)\<lparr>wa_pending := []\<rparr>, ws_batch := ord (wa_pending (ws_watcher s))\<rparr>)
      else None)"
| "processPending H (NextFile eng world) s =
     (case ws_batch s of
        [] \<Rightarrow> None
      | p # ps \<Rightarrow>
          (case processFile H eng world (ws_watcher s) p (ws_db s) of
             (res, ns, db) \<Rightarrow>
               Some (s\<lparr>ws_db := db, ws_batch := ps,
                       ws_notices := ws_notices s @ ns @ (case res of Inl e \<Rightarrow> [OnError e] | Inr _ \<Rightarrow> []),
                       ws_seen := ws_seen s @ [(p, world (Join_rel (wa_rootPath (ws_watcher s)) p))]\<rparr>)))"

text \<open>\<open>Stop\<close> cancels the context, waits for both goroutines, and closes the file system watcher.\<close>

fun watch_step :: "(bytes \<Rightarrow> bytes) \<Rightarrow> label \<Rightarrow> watch_state \<Rightarrow> watch_state option" where
  "watch_step H (ByEvents c) s = (if ws_events_done s then None else processEvents c s)"
| "watch_step H (ByPending c) s = (if ws_pending_done s then None else processPending H c s)"
| "watch_step H StopCancels s = Some (s\<lparr>ws_cancelled := True\<rparr>)"
| "watch_step H StopReturns s =
     (if ws_cancelled s \<and> ws_events_done s \<and> ws_pending_done s then Some (s\<lparr>ws_closed := True\<rparr>) else None)"

fun watch_run :: "(bytes \<Rightarrow> bytes) \<Rightarrow> label list \<Rightarrow> watch_state \<Rightarrow> watch_state option" where
  "watch_run H [] s = Some s"
| "watch_run H (l # ls) s = Option.bind (watch_step H l s) (watch_run H ls)"


section \<open>Lemmas\<close>

lemma watch_run_append: "watch_run H (ls @ ms) s = Option.bind (watch_run H ls s) (watch_run H ms)"
  by (induction ls arbitrary: s) (auto split: bind_split)

lemma watch_run_snoc:
  assumes "watch_run H (ls @ [l]) s = Some s'"
  obtains t where "watch_run H ls s = Some t" "watch_step H l t = Some s'"
  using assms by (auto simp: watch_run_append bind_eq_Some_conv)

text \<open>
  A tick followed by the processing of every file of the batch, with nothing in between, is
  \<open>flushPending\<close>.
\<close>

lemma batch_is_process_all:
  assumes "ws_batch s = ps" "\<not> ws_pending_done s"
  shows "\<exists>s'. watch_run H (map (\<lambda>p. ByPending (NextFile (engs p) world)) ps) s = Some s' \<and> ws_watcher s' = ws_watcher s \<and>
     ws_batch s' = [] \<and>
     (ws_notices s', ws_db s') = apfst (append (ws_notices s)) (process_all H engs world (ws_watcher s) ps (ws_db s))"
  using assms
proof (induction ps arbitrary: s)
  case (Cons p ps)
  obtain res ns db where pf: "processFile H (engs p) world (ws_watcher s) p (ws_db s) = (res, ns, db)" by (metis prod_cases3)
  let ?t = "s\<lparr>ws_db := db, ws_batch := ps, ws_notices := ws_notices s @ ns @ (case res of Inl e \<Rightarrow> [OnError e] | Inr _ \<Rightarrow> []),
    ws_seen := ws_seen s @ [(p, world (Join_rel (wa_rootPath (ws_watcher s)) p))]\<rparr>"
  have "watch_step H (ByPending (NextFile (engs p) world)) s = Some ?t" using Cons.prems pf by simp
  moreover obtain s' where "watch_run H (map (\<lambda>p. ByPending (NextFile (engs p) world)) ps) ?t = Some s'"
      "ws_watcher s' = ws_watcher s" "ws_batch s' = []"
      "(ws_notices s', ws_db s') = apfst (append (ws_notices ?t)) (process_all H engs world (ws_watcher s) ps db)"
    using Cons.IH [of ?t] Cons.prems(2) by auto
  ultimately show ?case using pf by (auto simp: apfst_def map_prod_def split: prod.splits)
qed (auto simp: apfst_def)

lemma tick_is_flushPending:
  assumes "ws_batch s = []" "\<not> ws_pending_done s" "mset (ord (wa_pending (ws_watcher s))) = mset (wa_pending (ws_watcher s))"
    and "flushPending H engs world ord (ws_watcher s) (ws_db s) = (ns, w, db)"
  shows "\<exists>s'. watch_run H (ByPending (Ticked ord) # map (\<lambda>p. ByPending (NextFile (engs p) world)) (ord (wa_pending (ws_watcher s)))) s = Some s' \<and>
     ws_watcher s' = w \<and> ws_db s' = db \<and> ws_notices s' = ws_notices s @ ns \<and> ws_batch s' = []"
proof -
  let ?w = "(ws_watcher s)\<lparr>wa_pending := []\<rparr>" and ?ps = "ord (wa_pending (ws_watcher s))"
  let ?t = "s\<lparr>ws_watcher := ?w, ws_batch := ?ps\<rparr>"
  obtain s' where s': "watch_run H (map (\<lambda>p. ByPending (NextFile (engs p) world)) ?ps) ?t = Some s'" "ws_watcher s' = ?w" "ws_batch s' = []"
      "(ws_notices s', ws_db s') = apfst (append (ws_notices s)) (process_all H engs world ?w ?ps (ws_db s))"
    using batch_is_process_all [of ?t ?ps H engs world] assms(2) by auto
  have "process_all H engs world ?w ?ps (ws_db s) = process_all H engs world (ws_watcher s) ?ps (ws_db s)"
    by (simp add: process_all_index)
  moreover have "?w = ws_watcher s" "?ps = []" if "wa_pending (ws_watcher s) = []"
    using that assms(3) by (cases "ws_watcher s", auto)
  ultimately have "ws_watcher s' = w \<and> ws_db s' = db \<and> ws_notices s' = ws_notices s @ ns"
    using s'(2,4) assms(4) by (auto simp: flushPending_def split: if_splits prod.splits)
  then show ?thesis using s'(1,3) assms by simp
qed

text \<open>
  What the database holds of a path after it has been processed with a given answer of \<open>os.Stat\<close>:
  nothing if the path is missing; the chunks of the file if it is a file, unless size and modification
  time were those of the record already.
\<close>

fun up_to_date :: "(bytes \<Rightarrow> bytes) \<Rightarrow> stat \<Rightarrow> (file_row \<times> chunk_row list) option \<Rightarrow> bool" where
  "up_to_date H Missing v = (v = None)"
| "up_to_date H (StatFile modTime sz (Some r)) v = (indexed H (rd_bytes r) modTime sz v \<or> \<not> needs modTime sz v)"
| "up_to_date H st v = True"

lemma settled_up_to_date: "settled H st v v' \<Longrightarrow> up_to_date H st v'"
  by (induction H st v v' rule: settled.induct) (auto split: if_splits)

text \<open>Labels in which the system makes no error, and events are for paths as the kernel reports them.\<close>

fun label_ok :: "label \<Rightarrow> bool" where
  "label_ok (ByEvents (EventReceived world add event)) = list_all comp_ok (fe_Name event)"
| "label_ok (ByPending (NextFile eng world)) = (no_fail eng \<and> (\<forall>q. readable (world q)))"
| "label_ok l = True"

definition loop_ok :: "watch_state \<Rightarrow> bool" where
  "loop_ok s \<longleftrightarrow> db_ok (ws_db s) \<and> (\<forall>p \<in> set (ws_batch s @ wa_pending (ws_watcher s)). list_all comp_ok p)"

lemma dots_ok: "list_all comp_ok (replicate n ''..'')"
  by (induction n) (simp_all add: comp_ok_def)

lemma Rel_ok: "Rel base target = Some p \<Longrightarrow> list_all comp_ok target \<Longrightarrow> list_all comp_ok p"
proof (induction base target rule: Rel.induct, goal_cases)
  case (1 b bs t ts)
  show ?case
  proof (cases "b = t")
    case False
    then have "p = replicate (length (b # bs)) ''..'' @ t # ts" using 1(2) by (simp only: Rel.simps if_False option.inject option.distinct split: if_splits)
    then show ?thesis using 1(3) dots_ok by (simp only: list_all_append)
  qed (use 1 in simp)
next
  case (2 ts)
  then show ?case by simp
next
  case (3 bs)
  then have "p = replicate (length bs) ''..''" by (simp only: Rel.simps append_Nil2 option.inject option.distinct split: if_splits)
  then show ?case using dots_ok by (simp only:)
qed

lemma processFile_spec:
  assumes "db_ok db" "no_fail eng" "readable (world (Join_rel (wa_rootPath w) p))"
  shows "\<exists>ns db'. processFile H eng world w p db = (Inr (), ns, db') \<and> db_ok db' \<and>
    settled H (world (Join_rel (wa_rootPath w) p)) (file_view (rel_string p) db) (file_view (rel_string p) db') \<and>
    (\<forall>q. q \<noteq> rel_string p \<longrightarrow> file_view q db' = file_view q db)"
  using index_one_spec [OF assms, of H "rel_string p"] by (auto simp: processFile_def index_one_def)

lemma handleEvent_pending:
  assumes "handleEvent world add event w = (ns, w')"
  shows "wa_rootPath w' = wa_rootPath w"
    "wa_pending w' = wa_pending w \<or> (\<exists>p. Rel (wa_rootPath w) (fe_Name event) = Some p \<and> wa_pending w' = List.insert p (wa_pending w))"
proof -
  have "wa_rootPath w' = wa_rootPath w \<and>
    (wa_pending w' = wa_pending w \<or> (\<exists>p. Rel (wa_rootPath w) (fe_Name event) = Some p \<and> wa_pending w' = List.insert p (wa_pending w)))"
  proof (cases "hidden_name (Base (fe_Name event)) \<or> Rel (wa_rootPath w) (fe_Name event) = None")
    case False
    then obtain p where "Rel (wa_rootPath w) (fe_Name event) = Some p" by auto
    then show ?thesis using False assms
      by (cases "fe_Create event \<and> world (fe_Name event) = StatDir") (auto simp: handleEvent_def)
  qed (use assms in \<open>auto simp: handleEvent_def split: if_splits\<close>)
  then show "wa_rootPath w' = wa_rootPath w"
    "wa_pending w' = wa_pending w \<or> (\<exists>p. Rel (wa_rootPath w) (fe_Name event) = Some p \<and> wa_pending w' = List.insert p (wa_pending w))"
    by simp_all
qed

text \<open>
  A path is accounted for when it is queued, or in the batch, or has been processed since the log was
  \<open>seen\<close>, with the database up to date with its last processing.
\<close>

definition processed_since :: "(bytes \<Rightarrow> bytes) \<Rightarrow> (path \<times> stat) list \<Rightarrow> path \<Rightarrow> watch_state \<Rightarrow> bool" where
  "processed_since H seen p s \<longleftrightarrow>
     (\<exists>log1 st log2. ws_seen s = seen @ log1 @ (p, st) # log2 \<and> p \<notin> fst ` set log2 \<and>
        up_to_date H st (file_view (rel_string p) (ws_db s)))"

definition accounted :: "(bytes \<Rightarrow> bytes) \<Rightarrow> (path \<times> stat) list \<Rightarrow> path \<Rightarrow> watch_state \<Rightarrow> bool" where
  "accounted H seen p s \<longleftrightarrow>
     list_all comp_ok p \<and> (\<exists>log. ws_seen s = seen @ log) \<and>
     (p \<in> set (wa_pending (ws_watcher s)) \<or> p \<in> set (ws_batch s) \<or> processed_since H seen p s)"

lemma processed_now:
  assumes "ws_seen s' = seen @ log @ [(p, st)]" "up_to_date H st (file_view (rel_string p) (ws_db s'))"
  shows "processed_since H seen p s'"
  using assms unfolding processed_since_def by (intro exI [of _ log] exI [of _ st] exI [of _ "[]"]) simp

lemma processed_other:
  assumes "processed_since H seen p s" "ws_seen s' = ws_seen s @ [(q, st)]" "q \<noteq> p"
    "file_view (rel_string p) (ws_db s') = file_view (rel_string p) (ws_db s)"
  shows "processed_since H seen p s'"
proof -
  obtain log1 st1 log2 where "ws_seen s = seen @ log1 @ (p, st1) # log2" "p \<notin> fst ` set log2"
      "up_to_date H st1 (file_view (rel_string p) (ws_db s))"
    using assms(1) unfolding processed_since_def by (elim exE conjE)
  then show ?thesis unfolding processed_since_def using assms(2-4)
    by (intro exI [of _ log1] exI [of _ st1] exI [of _ "log2 @ [(q, st)]"]) auto
qed

lemma next_file_accounted:
  assumes "processPending H (NextFile eng world) s = Some s'" "label_ok (ByPending (NextFile eng world))" "loop_ok s"
  shows "loop_ok s'" "accounted H seen p s \<Longrightarrow> accounted H seen p s'"
proof -
  obtain q qs where b: "ws_batch s = q # qs" using assms(1) by (auto split: list.splits)
  let ?st = "world (Join_rel (wa_rootPath (ws_watcher s)) q)"
  have ok: "list_all comp_ok q" "db_ok (ws_db s)" using assms(3) b by (auto simp: loop_ok_def)
  have lab: "no_fail eng" "readable ?st" using assms(2) by simp_all
  obtain ns db' where pf: "processFile H eng world (ws_watcher s) q (ws_db s) = (Inr (), ns, db')" "db_ok db'"
      "settled H ?st (file_view (rel_string q) (ws_db s)) (file_view (rel_string q) db')"
      "\<forall>x. x \<noteq> rel_string q \<longrightarrow> file_view x db' = file_view x (ws_db s)"
    using processFile_spec [where world = world and w = "ws_watcher s" and p = q and H = H, OF ok(2) lab] by (elim exE conjE)
  have s': "s' = s\<lparr>ws_db := db', ws_batch := qs, ws_notices := ws_notices s @ ns, ws_seen := ws_seen s @ [(q, ?st)]\<rparr>"
    using assms(1) b pf(1) by simp
  show "loop_ok s'" using assms(3) pf(2) b by (auto simp: loop_ok_def s')
  assume acc: "accounted H seen p s"
  then obtain log where log: "ws_seen s = seen @ log" and p: "list_all comp_ok p" unfolding accounted_def by (elim exE conjE)
  have logs: "\<exists>log. ws_seen s' = seen @ log" using log by (simp add: s')
  show "accounted H seen p s'"
  proof (cases "q = p")
    case True
    then have "processed_since H seen p s'"
      using log settled_up_to_date [OF pf(3)] by (intro processed_now [of s' seen log p ?st]) (simp_all add: s')
    then show ?thesis using logs p by (simp add: accounted_def)
  next
    case False
    then have "file_view (rel_string p) (ws_db s') = file_view (rel_string p) (ws_db s)"
      using rel_string_inj [OF p ok(1)] pf(4) by (auto simp: s')
    then have "processed_since H seen p s'" if "processed_since H seen p s"
      using processed_other [OF that _ False] by (simp add: s')
    then show ?thesis using acc logs False b by (auto simp: accounted_def s')
  qed
qed

lemma step_accounted:
  assumes "watch_step H l s = Some s'" "label_ok l" "loop_ok s"
  shows "loop_ok s' \<and> (accounted H seen p s \<longrightarrow> accounted H seen p s')"
proof (cases "\<exists>eng world. l = ByPending (NextFile eng world)")
  case True
  then obtain eng world where l: "l = ByPending (NextFile eng world)" by (elim exE)
  then have "processPending H (NextFile eng world) s = Some s'" using assms(1) by (simp del: processPending.simps split: if_splits)
  then show ?thesis using next_file_accounted [of H eng world s s'] assms(2,3) unfolding l by blast
next
  case False
  consider (ev) world add event where "l = ByEvents (EventReceived world add event)" | (tick) ord where "l = ByPending (Ticked ord)"
    | (other) "ws_watcher s' = ws_watcher s" "ws_db s' = ws_db s" "ws_batch s' = ws_batch s" "ws_seen s' = ws_seen s"
  proof (cases l)
    case (ByEvents c)
    then show ?thesis using that assms(1) by (cases c) (auto split: if_splits)
  next
    case (ByPending c)
    then show ?thesis using that assms(1) False by (cases c) (auto split: if_splits)
  qed (use that assms(1) in \<open>auto split: if_splits\<close>)
  then show ?thesis
  proof cases
    case ev
    obtain ns w where he: "handleEvent world add event (ws_watcher s) = (ns, w)" by (cases "handleEvent world add event (ws_watcher s)")
    then have s': "s' = s\<lparr>ws_watcher := w, ws_notices := ws_notices s @ ns\<rparr>" using assms(1) ev by (auto split: if_splits)
    have pend: "q \<in> set (wa_pending w) \<Longrightarrow> q \<in> set (wa_pending (ws_watcher s)) \<or> list_all comp_ok q"
      "set (wa_pending (ws_watcher s)) \<subseteq> set (wa_pending w)" for q
      using handleEvent_pending(2) [OF he] assms(2) ev by (auto dest: Rel_ok)
    have "loop_ok s'" using pend(1) assms(3) by (auto simp: s' loop_ok_def)
    moreover have "processed_since H seen p s' = processed_since H seen p s" by (simp add: s' processed_since_def)
    ultimately show ?thesis using pend(2) by (auto simp: s' accounted_def)
  next
    case tick
    then have "ws_batch s = []" and s': "s' = s\<lparr>ws_watcher := (ws_watcher s)\<lparr>wa_pending := []\<rparr>, ws_batch := ord (wa_pending (ws_watcher s))\<rparr>"
      and "mset (ord (wa_pending (ws_watcher s))) = mset (wa_pending (ws_watcher s))"
      using assms(1) by (auto split: if_splits)
    then have "set (ord (wa_pending (ws_watcher s))) = set (wa_pending (ws_watcher s))" by (intro mset_eq_setD)
    moreover have "processed_since H seen p s' = processed_since H seen p s" by (simp add: s' processed_since_def)
    ultimately show ?thesis using assms(3) \<open>ws_batch s = []\<close> by (simp add: s' loop_ok_def accounted_def)
  next
    case other
    then show ?thesis using assms(3) by (simp add: loop_ok_def accounted_def processed_since_def)
  qed
qed

lemma run_accounted:
  "watch_run H ls s = Some s' \<Longrightarrow> list_all label_ok ls \<Longrightarrow> loop_ok s \<Longrightarrow> accounted H seen p s \<Longrightarrow> accounted H seen p s'"
proof (induction ls arbitrary: s)
  case (Cons l ls)
  then obtain t where "watch_step H l s = Some t" "watch_run H ls t = Some s'" by (auto simp: bind_eq_Some_conv)
  then show ?case using Cons.IH [of t] Cons.prems step_accounted [of H l s t seen p] by auto
qed simp


section \<open>Properties\<close>

text \<open>
  C10. The watcher loses no event. Let an event for a file that is not hidden be received by
  \<open>processEvents\<close>, and let any steps of the two goroutines follow, more events and \<open>Stop\<close> included, in
  any order, at the end of which nothing is queued or left of a batch. Then the file has been processed
  after the event, and the database is up to date with what \<open>os.Stat\<close> reported the last time: no later
  step on another file has changed its record.
\<close>

theorem watcher_loses_no_event:
  assumes "loop_ok s" "\<not> hidden_name (Base (fe_Name event))" "Rel (wa_rootPath (ws_watcher s)) (fe_Name event) = Some p"
    and "\<not> (fe_Create event \<and> world (fe_Name event) = StatDir)"
    and "watch_run H (ByEvents (EventReceived world add event) # ls) s = Some s'"
    and "list_all label_ok (ByEvents (EventReceived world add event) # ls)"
    and "wa_pending (ws_watcher s') = []" "ws_batch s' = []"
  shows "\<exists>log1 st log2. ws_seen s' = ws_seen s @ log1 @ (p, st) # log2 \<and> p \<notin> fst ` set log2 \<and>
     up_to_date H st (file_view (rel_string p) (ws_db s'))"
proof -
  obtain t where t: "watch_step H (ByEvents (EventReceived world add event)) s = Some t" "watch_run H ls t = Some s'"
    using assms(5) by (auto simp: bind_eq_Some_conv simp del: watch_step.simps)
  have "t = s\<lparr>ws_watcher := (ws_watcher s)\<lparr>wa_pending := List.insert p (wa_pending (ws_watcher s))\<rparr>\<rparr>"
    using t(1) assms(2-4) by (auto simp: handleEvent_def split: if_splits)
  then have "accounted H (ws_seen s) p t" using assms(3,6) by (auto simp: accounted_def dest: Rel_ok)
  moreover have "loop_ok t" using step_accounted [OF t(1) _ assms(1), of "[]" p] assms(6) by simp
  ultimately have "accounted H (ws_seen s) p s'" using run_accounted [OF t(2)] assms(6) by simp
  then show ?thesis using assms(7,8) by (simp add: accounted_def processed_since_def)
qed

definition watcher2 :: Watcher where
  "watcher2 = \<lparr>wa_rootPath = [''r''], wa_pending = [], wa_debounce = 100, wa_watched = [[''r'']]\<rparr>"

lemma watcher_loses_no_event_witness:
  "\<exists>s'. watch_run pad_hash [ByEvents (EventReceived world1 (\<lambda>p. True) \<lparr>fe_Name = [''r'', ''a''], fe_Create = True\<rparr>),
       ByPending (Ticked id), ByPending (NextFile (\<lambda>k. engine1) world1)] (started watcher2 schema) = Some s' \<and>
     ws_seen s' = [([''a''], world1 [''r'', ''a''])] \<and> up_to_date pad_hash (world1 [''r'', ''a'']) (file_view ''a'' (ws_db s'))"
proof -
  let ?ev = "\<lparr>fe_Name = [''r'', ''a''], fe_Create = True\<rparr>" and ?add = "\<lambda>p. True"
  let ?ls = "[ByPending (Ticked id), ByPending (NextFile (\<lambda>k. engine1) world1)]"
  obtain res ns db where pf: "processFile pad_hash (\<lambda>k. engine1) world1 watcher2 [''a''] schema = (res, ns, db)" by (metis prod_cases3)
  obtain s' where run: "watch_run pad_hash (ByEvents (EventReceived world1 ?add ?ev) # ?ls) (started watcher2 schema) = Some s'"
    and s': "wa_pending (ws_watcher s') = []" "ws_batch s' = []" "ws_seen s' = [([''a''], world1 [''r'', ''a''])]"
    using pf by (simp add: started_def watcher2_def handleEvent_def world1_def hidden_name_def Base_def Join_rel_def)
  have ok: "loop_ok (started watcher2 schema)" by (simp add: loop_ok_def started_def watcher2_def schema_ok)
  have "list_all label_ok (ByEvents (EventReceived world1 ?add ?ev) # ?ls)"
    by (simp add: comp_ok_def no_fail_def engine1_def world1_def)
  from watcher_loses_no_event [OF ok _ _ _ run this s'(1,2), of "[''a'']"]
  obtain log1 st log2 where "ws_seen s' = log1 @ ([''a''], st) # log2" "up_to_date pad_hash st (file_view (rel_string [''a'']) (ws_db s'))"
    by (auto simp: started_def watcher2_def hidden_name_def Base_def world1_def)
  then show ?thesis using run s'(3) by (auto simp: Cons_eq_append_conv)
qed

end
