(* ===== verification/Stun.thy ===== *)
theory Stun
  imports Netaddr
begin

text \<open>
  Model of \<open>internal/nat/stun.go\<close>: the binding request, the parser of its response and the client that
  queries servers over a UDP socket. The socket and the network are arguments: a record \<open>stun_net\<close>
  gives, for one query, what each call returns, the datagram received as a function of the one sent.
  Deadlines only decide whether a call fails. Slices are checked, so that a panic of the parser would
  be a result.
\<close>

section \<open>Messages\<close>

definition StunBindingRequest :: u16 where "StunBindingRequest = 0x0001"
definition StunBindingResponse :: u16 where "StunBindingResponse = 0x0101"
definition StunBindingError :: u16 where "StunBindingError = 0x0111"
definition StunAttrMappedAddress :: u16 where "StunAttrMappedAddress = 0x0001"
definition StunAttrXorMappedAddress :: u16 where "StunAttrXorMappedAddress = 0x0020"
definition StunMagicCookie :: u32 where "StunMagicCookie = 0x2112A442"

lemmas stun_constants = StunBindingRequest_def StunBindingResponse_def StunBindingError_def
  StunAttrMappedAddress_def StunAttrXorMappedAddress_def

record MappedAddress =
  ma_IP :: bytes
  ma_Port :: int

definition MappedAddress_String :: "MappedAddress \<Rightarrow> string" where
  "MappedAddress_String m = IP_String (ma_IP m) @ '':'' @ dec_int (ma_Port m)"

definition buildStunRequest :: "bytes \<Rightarrow> bytes" where
  "buildStunRequest transactionID =
     PutUint16 StunBindingRequest @ PutUint16 0 @ PutUint32 StunMagicCookie @ go_copy (replicate 12 0) transactionID"

definition parseXorMappedAddress :: "bytes \<Rightarrow> bytes \<Rightarrow> MappedAddress res" where
  "parseXorMappedAddress data magicCookie =
     (if length data < 8 then Inl (Err ''XOR-MAPPED-ADDRESS too short'')
      else
        bind_r (go_index data 1) (\<lambda>family.
        bind_r (go_slice 2 4 data) (\<lambda>xorPort.
        bind_r (go_slice 0 4 magicCookie) (\<lambda>cookie.
          let port = Uint16 xorPort XOR ucast (drop_bit 16 (Uint32 cookie)) in
          if family = 0x01 then
            bind_r (go_slice 4 8 data) (\<lambda>xorIP.
              Inr \<lparr>ma_IP = PutUint32 (Uint32 xorIP XOR StunMagicCookie), ma_Port = uint port\<rparr>)
          else if family = 0x02 then
            (if length data < 20 then Inl (Err ''IPv6 XOR-MAPPED-ADDRESS too short'') else Inl (Err ''IPv6 not supported''))
          else Inl (Err ''unknown address family'')))))"

definition parseMappedAddress :: "bytes \<Rightarrow> MappedAddress res" where
  "parseMappedAddress data =
     (if length data < 8 then Inl (Err ''MAPPED-ADDRESS too short'')
      else
        bind_r (go_index data 1) (\<lambda>family.
        bind_r (go_slice 2 4 data) (\<lambda>port.
          if family = 0x01 then bind_r (go_slice 4 8 data) (\<lambda>ip. Inr \<lparr>ma_IP = ip, ma_Port = uint (Uint16 port)\<rparr>)
          else if family = 0x02 then
            (if length data < 20 then Inl (Err ''IPv6 MAPPED-ADDRESS too short'')
             else bind_r (go_slice 4 20 data) (\<lambda>ip. Inr \<lparr>ma_IP = ip, ma_Port = uint (Uint16 port)\<rparr>))
          else Inl (Err ''unknown address family''))))"

text \<open>The loop over the attributes, and the position of the one after \<open>attrLen\<close> bytes at \<open>pos\<close>.\<close>

definition next_attr :: "nat \<Rightarrow> nat \<Rightarrow> nat" where
  "next_attr pos attrLen = pos + attrLen + (if attrLen mod 4 \<noteq> 0 then 4 - attrLen mod 4 else 0)"

function parse_attrs :: "bytes \<Rightarrow> nat \<Rightarrow> nat \<Rightarrow> MappedAddress res" where
  "parse_attrs data pos stop =
     (if \<not> pos < stop \<or> pos + 4 > stop then Inl (Err ''no mapped address in response'')
      else
        bind_r (go_slice (int pos) (int (pos + 2)) data) (\<lambda>ty.
        bind_r (go_slice (int (pos + 2)) (int (pos + 4)) data) (\<lambda>len.
          let attrType = Uint16 ty; attrLen = unat (Uint16 len) in
          if pos + 4 + attrLen > stop then Inl (Err ''no mapped address in response'')
          else
            bind_r (go_slice (int (pos + 4)) (int (pos + 4 + attrLen)) data) (\<lambda>attrData.
              if attrType = StunAttrXorMappedAddress then
                bind_r (go_slice 4 8 data) (\<lambda>cookie. parseXorMappedAddress attrData cookie)
              else if attrType = StunAttrMappedAddress then parseMappedAddress attrData
              else parse_attrs data (next_attr (pos + 4) attrLen) stop))))"
  by pat_completeness auto
termination
  by (relation "measure (\<lambda>(data, pos, stop). stop - pos)") (auto simp: next_attr_def)

declare parse_attrs.simps [simp del]

definition parseStunResponse :: "bytes \<Rightarrow> bytes \<Rightarrow> MappedAddress res" where
  "parseStunResponse data expectedTxID =
     (if length data < 20 then Inl (Err ''invalid STUN response'')
      else
        bind_r (go_slice 0 2 data) (\<lambda>ty.
          let msgType = Uint16 ty in
          if msgType \<noteq> StunBindingResponse then
            (if msgType = StunBindingError then Inl (Err ''STUN binding error response'')
             else Inl (Err ''unexpected STUN message type''))
          else
            bind_r (go_slice 4 8 data) (\<lambda>cookie.
              if Uint32 cookie \<noteq> StunMagicCookie then Inl (Err ''invalid magic cookie'')
              else
                bind_r (go_slice 8 20 data) (\<lambda>txID.
                  if length expectedTxID = 12 \<and> txID \<noteq> expectedTxID then Inl (Err ''transaction ID mismatch'')
                  else
                    bind_r (go_slice 2 4 data) (\<lambda>len.
                      let msgLen = unat (Uint16 len) in
                      if length data < 20 + msgLen then Inl (Err ''invalid STUN response'')
                      else parse_attrs data 20 (20 + msgLen))))))"


section \<open>The client\<close>

record StunClient =
  sc_servers :: "string list"
  sc_timeout :: int

definition second :: int where "second = 1000000000"

definition NewStunClient :: StunClient where
  "NewStunClient =
     \<lparr>sc_servers = [''stun.l.google.com:19302'', ''stun1.l.google.com:19302''], sc_timeout = 3 * second\<rparr>"

definition NewStunClientWithServers :: "string list \<Rightarrow> int \<Rightarrow> StunClient" where
  "NewStunClientWithServers servers timeout =
     \<lparr>sc_servers = servers, sc_timeout = (if timeout \<le> 0 then 3 * second else timeout)\<rparr>"

datatype read_err = Timeout | ReadFail

record stun_net =
  sn_resolver :: "string \<Rightarrow> UDPAddr option"
  sn_random :: "bytes option"
  sn_set_deadline :: bool
  sn_send :: "UDPAddr \<Rightarrow> bool"
  sn_recv :: "UDPAddr \<Rightarrow> bytes \<Rightarrow> read_err + bytes"
  sn_reset :: bool

text \<open>Of a datagram only the first 576 bytes fit into the buffer.\<close>

definition queryServer :: "stun_net \<Rightarrow> string \<Rightarrow> MappedAddress res" where
  "queryServer net server =
     (case ResolveUDPAddr (sn_resolver net) server of
        None \<Rightarrow> Inl (ErrMsg ''resolving STUN server'' server)
      | Some serverAddr \<Rightarrow>
          (case sn_random net of
             None \<Rightarrow> Inl (Err ''generating transaction ID'')
           | Some transactionID \<Rightarrow>
               let request = buildStunRequest transactionID in
               if \<not> sn_set_deadline net then Inl (Err ''setting deadline'')
               else if \<not> sn_send net serverAddr then Inl (Err ''sending STUN request'')
               else case sn_recv net serverAddr request of
                      Inl Timeout \<Rightarrow> Inl (Err ''STUN request timed out'')
                    | Inl ReadFail \<Rightarrow> Inl (Err ''reading STUN response'')
                    | Inr datagram \<Rightarrow>
                        if \<not> sn_reset net then Inl (Err ''resetting deadline'')
                        else parseStunResponse (take 576 datagram) transactionID))"

text \<open>\<open>nets k\<close> is the network during the \<open>k\<close>-th query of a call.\<close>

fun discover_loop :: "(nat \<Rightarrow> stun_net) \<Rightarrow> nat \<Rightarrow> string list \<Rightarrow> go_error option \<Rightarrow> MappedAddress res" where
  "discover_loop nets k [] lastErr =
     (case lastErr of Some e \<Rightarrow> Inl (Err ''all STUN servers failed'') | None \<Rightarrow> Inl (Err ''no STUN servers configured''))"
| "discover_loop nets k (server # servers) lastErr =
     (case queryServer (nets k) server of
        Inr addr \<Rightarrow> Inr addr
      | Inl e \<Rightarrow> discover_loop nets (Suc k) servers (Some e))"

definition Discover :: "(nat \<Rightarrow> stun_net) \<Rightarrow> StunClient \<Rightarrow> MappedAddress res" where
  "Discover nets c = discover_loop nets 0 (sc_servers c) None"

text \<open>\<open>socket\<close> is the local address of the new socket, if the system gives one.\<close>

definition DiscoverWithNewConn :: "(nat \<Rightarrow> stun_net) \<Rightarrow> UDPAddr option \<Rightarrow> StunClient \<Rightarrow> (MappedAddress \<times> UDPAddr) res" where
  "DiscoverWithNewConn nets socket c =
     (case socket of
        None \<Rightarrow> Inl (Err ''creating UDP socket'')
      | Some conn \<Rightarrow> bind_r (Discover nets c) (\<lambda>addr. Inr (addr, conn)))"

definition DetectNATType :: "(nat \<Rightarrow> stun_net) \<Rightarrow> stun_net \<Rightarrow> UDPAddr option \<Rightarrow> StunClient \<Rightarrow> string \<times> go_error option" where
  "DetectNATType nets net2 socket c =
     (if length (sc_servers c) < 2 then (''Unknown'', Some (Err ''need at least 2 STUN servers for NAT detection''))
      else case DiscoverWithNewConn nets socket c of
             Inl e \<Rightarrow> (''Unknown'', Some (Err ''first STUN query failed''))
           | Inr (addr1, conn1) \<Rightarrow>
               (case queryServer net2 (sc_servers c ! 1) of
                  Inl e \<Rightarrow> (''Unknown'', Some (Err ''second STUN query failed''))
                | Inr addr2 \<Rightarrow>
                    if IP_Equal (ma_IP addr1) (ma_IP addr2) \<and> ma_Port addr1 = ma_Port addr2
                    then (''Cone NAT'', None) else (''Symmetric NAT'', None)))"

section \<open>The parser never panics\<close>

text \<open>An outcome that is an error of the code, or an address of 4 or 16 bytes with a port of 16 bits.\<close>

fun addr_ok :: "MappedAddress res \<Rightarrow> bool" where
  "addr_ok (Inl e) \<longleftrightarrow> \<not> panics (Inl e :: unit res)"
| "addr_ok (Inr a) \<longleftrightarrow> length (ma_IP a) \<in> {4, 16} \<and> 0 \<le> ma_Port a \<and> ma_Port a < 65536"

lemma uint_u16: "0 \<le> uint (w :: u16)" "uint (w :: u16) < 65536"
  using uint_bounded [of w] by simp_all

lemma go_slice_len: "0 \<le> i \<Longrightarrow> i \<le> j \<Longrightarrow> j \<le> int (length xs) \<Longrightarrow> \<exists>ys. go_slice i j xs = Inr ys \<and> int (length ys) = j - i"
  by (auto simp: go_slice_def)

lemma parse_xor_ok: "length cookie = 4 \<Longrightarrow> addr_ok (parseXorMappedAddress data cookie)"
  by (simp add: parseXorMappedAddress_def go_index_def go_slice_def Let_def uint_u16)

lemma parse_mapped_ok: "addr_ok (parseMappedAddress data)"
  by (simp add: parseMappedAddress_def go_index_def go_slice_def uint_u16)

lemma parse_attrs_ok: "stop \<le> length data \<Longrightarrow> 20 \<le> length data \<Longrightarrow> addr_ok (parse_attrs data pos stop)"
proof (induction data pos stop rule: parse_attrs.induct)
  case (1 data pos stop)
  show ?case
  proof (cases "pos < stop \<and> pos + 4 \<le> stop")
    case False
    then show ?thesis by (subst parse_attrs.simps) auto
  next
    case True
    obtain ty where ty: "go_slice (int pos) (int (pos + 2)) data = Inr ty"
      using go_slice_nat [of pos "pos + 2" data] True 1(2) by force
    obtain len where len: "go_slice (int (pos + 2)) (int (pos + 4)) data = Inr len"
      using go_slice_nat [of "pos + 2" "pos + 4" data] True 1(2) by force
    let ?l = "unat (Uint16 len)"
    show ?thesis
    proof (cases "pos + 4 + ?l \<le> stop")
      case False
      then show ?thesis using True ty len by (subst parse_attrs.simps) (simp add: Let_def)
    next
      case fit: True
      obtain d where d: "go_slice (int (pos + 4)) (int (pos + 4 + ?l)) data = Inr d"
        using go_slice_nat [of "pos + 4" "pos + 4 + ?l" data] fit 1(2) by force
      have ih: "addr_ok (parse_attrs data (next_attr (pos + 4) ?l) stop)"
        if "Uint16 ty \<noteq> StunAttrXorMappedAddress" "Uint16 ty \<noteq> StunAttrMappedAddress"
        by (rule 1(1)) (use True fit that 1(2,3) in simp_all)
      have "go_slice 4 8 data = Inr (subslice 4 8 data)" "length (subslice 4 8 data) = 4"
        using 1(3) by (simp_all add: go_slice_def)
      then show ?thesis
        using True ty len fit d ih
        by (subst parse_attrs.simps) (simp add: Let_def parse_xor_ok parse_mapped_ok)
    qed
  qed
qed

lemma parse_response_ok: "addr_ok (parseStunResponse data tx)"
  by (cases "length data < 20") (simp_all add: parseStunResponse_def go_slice_def Let_def parse_attrs_ok)


section \<open>Responses as the standard encodes them\<close>

text \<open>
  An attribute with its padding, the value of an XOR-mapped address, and a binding response, written
  after RFC 5389.
\<close>

definition rfc_attr :: "u16 \<Rightarrow> bytes \<Rightarrow> bytes \<Rightarrow> bytes" where
  "rfc_attr ty v padding = PutUint16 ty @ PutUint16 (of_nat (length v)) @ v @ padding"

definition rfc_xor_address :: "bytes \<Rightarrow> u16 \<Rightarrow> bytes" where
  "rfc_xor_address ip port =
     [0, 1] @ PutUint16 (port XOR 0x2112) @ map2 (XOR) ip [0x21, 0x12, 0xA4, 0x42]"

definition rfc_response :: "bytes \<Rightarrow> bytes \<Rightarrow> bytes" where
  "rfc_response txID attrs = PutUint16 0x0101 @ PutUint16 (of_nat (length attrs)) @ PutUint32 0x2112A442 @ txID @ attrs"

definition rfc_padded :: "u16 \<times> bytes \<times> bytes \<Rightarrow> bool" where
  "rfc_padded = (\<lambda>(ty, v, padding). ty \<notin> {StunAttrMappedAddress, StunAttrXorMappedAddress} \<and> length v < 65536 \<and>
     length padding < 4 \<and> 4 dvd length v + length padding)"

definition rfc_attrs :: "(u16 \<times> bytes \<times> bytes) list \<Rightarrow> bytes" where
  "rfc_attrs as = concat (map (\<lambda>(ty, v, padding). rfc_attr ty v padding) as)"

text \<open>A server that answers a request with the address it saw it come from, between other attributes.\<close>

definition rfc_server :: "(u16 \<times> bytes \<times> bytes) list \<Rightarrow> bytes \<Rightarrow> bytes \<Rightarrow> u16 \<Rightarrow> bytes \<Rightarrow> bytes" where
  "rfc_server before after ip port request =
     rfc_response (subslice 8 20 request)
       (rfc_attrs before @ rfc_attr StunAttrXorMappedAddress (rfc_xor_address ip port) [] @ after)"

lemma padding_len: "p < 4 \<Longrightarrow> 4 dvd n + p \<Longrightarrow> p = (if n mod 4 \<noteq> 0 then 4 - n mod 4 else 0)" for n p :: nat
  by (simp add: dvd_eq_mod_eq_0) presburger

lemma next_attr_padded:
  "rfc_padded (ty, v, padding) \<Longrightarrow> next_attr (pos + 4) (length v) = pos + length (rfc_attr ty v padding)"
  using padding_len [of "length padding" "length v"]
  by (simp add: rfc_padded_def next_attr_def rfc_attr_def)

lemma parse_attrs_at:
  assumes "data = pre @ rfc_attr ty v padding @ rest" "pos = length pre" "pos + 4 + length v \<le> stop"
    and "length v < 65536"
  shows "parse_attrs data pos stop =
    (if ty = StunAttrXorMappedAddress then bind_r (go_slice 4 8 data) (parseXorMappedAddress v)
     else if ty = StunAttrMappedAddress then parseMappedAddress v
     else parse_attrs data (next_attr (pos + 4) (length v)) stop)"
proof -
  let ?len = "PutUint16 (of_nat (length v))"
  have data: "data = pre @ PutUint16 ty @ (?len @ v @ padding @ rest)"
    "data = (pre @ PutUint16 ty) @ ?len @ (v @ padding @ rest)"
    "data = (pre @ PutUint16 ty @ ?len) @ v @ (padding @ rest)"
    using assms(1) by (simp_all add: rfc_attr_def)
  have "length data = length pre + 4 + length v + length padding + length rest" using data(1) by simp
  then have "go_slice (int pos) (int (pos + 2)) data = Inr (subslice pos (pos + 2) data)"
    "go_slice (int (pos + 2)) (int (pos + 4)) data = Inr (subslice (pos + 2) (pos + 4) data)"
    "go_slice (int (pos + 4)) (int (pos + 4 + length v)) data = Inr (subslice (pos + 4) (pos + 4 + length v) data)"
    using assms(2) by (intro go_slice_nat; simp)+
  moreover have "subslice pos (pos + 2) data = PutUint16 ty"
    unfolding data(1) using assms(2) by (intro subslice_append) simp_all
  moreover have "subslice (pos + 2) (pos + 4) data = ?len"
    unfolding data(2) using assms(2) by (intro subslice_append) simp_all
  moreover have "subslice (pos + 4) (pos + 4 + length v) data = v"
    unfolding data(3) using assms(2) by (intro subslice_append) simp_all
  ultimately show ?thesis
    using assms(3,4) by (subst parse_attrs.simps) (simp add: Let_def)
qed

lemma parse_attrs_skip:
  assumes "\<forall>a \<in> set before. rfc_padded a" "length pre + length (rfc_attrs before) \<le> stop"
  shows "parse_attrs (pre @ rfc_attrs before @ rest) (length pre) stop =
    parse_attrs (pre @ rfc_attrs before @ rest) (length pre + length (rfc_attrs before)) stop"
  using assms
proof (induction before arbitrary: pre)
  case Nil
  show ?case by (simp add: rfc_attrs_def)
next
  case (Cons a before)
  obtain ty v padding where a: "a = (ty, v, padding)" by (cases a)
  let ?a = "rfc_attr ty v padding" and ?data = "pre @ rfc_attrs (a # before) @ rest"
  have p: "rfc_padded (ty, v, padding)" using Cons.prems(1) a by simp
  have eq: "rfc_attrs (a # before) = ?a @ rfc_attrs before" by (simp add: a rfc_attrs_def)
  have len: "length ?a = 4 + length v + length padding" by (simp add: rfc_attr_def)
  have "parse_attrs ?data (length pre) stop = parse_attrs ?data (next_attr (length pre + 4) (length v)) stop"
    using p Cons.prems(2) eq len
    by (subst parse_attrs_at [of _ pre ty v padding "rfc_attrs before @ rest"]) (auto simp: rfc_padded_def)
  also have "\<dots> = parse_attrs ?data (length (pre @ ?a)) stop" using next_attr_padded [OF p] by simp
  also have "\<dots> = parse_attrs ?data (length (pre @ ?a) + length (rfc_attrs before)) stop"
    using Cons.IH [of "pre @ ?a"] Cons.prems eq by simp
  finally show ?case using eq by (simp add: add.assoc)
qed

lemma get_be_xor: "length xs = length ys \<Longrightarrow> get_be (map2 (XOR) xs ys) = (get_be xs XOR get_be ys :: 'a::len word)"
  by (intro bit_word_eqI) (auto simp: bit_xor_iff bit_get_be)

lemma cookie_bytes: "StunMagicCookie = Uint32 [0x21, 0x12, 0xA4, 0x42]"
  by (simp add: StunMagicCookie_def get_be_def)

lemma parse_xor_rfc:
  assumes "length ip = 4"
  shows "parseXorMappedAddress (rfc_xor_address ip port) (PutUint32 StunMagicCookie) = Inr \<lparr>ma_IP = ip, ma_Port = uint port\<rparr>"
proof -
  let ?data = "rfc_xor_address ip port" and ?x = "map2 (XOR) ip [0x21, 0x12, 0xA4, 0x42]"
  have "length ?data = 8" using assms by (simp add: rfc_xor_address_def)
  moreover have "subslice 2 4 ?data = PutUint16 (port XOR 0x2112)"
    unfolding rfc_xor_address_def by (rule subslice_append) simp_all
  moreover have "subslice 4 8 ?data = ?x"
    using assms by (simp add: subslice_def rfc_xor_address_def)
  moreover have "Uint32 ?x XOR StunMagicCookie = Uint32 ip"
    unfolding cookie_bytes using assms by (subst get_be_xor) (simp_all add: xor.assoc)
  moreover have "(port XOR 0x2112) XOR ucast (drop_bit 16 StunMagicCookie) = port"
    by (simp add: StunMagicCookie_def xor.assoc)
  moreover have "?data ! 1 = 1" by (simp add: rfc_xor_address_def)
  ultimately show ?thesis
    using assms by (simp add: parseXorMappedAddress_def go_slice_def go_index_def Let_def)
qed

lemma parse_rfc_response:
  assumes "length tx = 12" "length ip = 4" "\<forall>a \<in> set before. rfc_padded a"
    and "attrs = rfc_attrs before @ rfc_attr StunAttrXorMappedAddress (rfc_xor_address ip port) [] @ after"
    and "length attrs < 65536"
  shows "parseStunResponse (rfc_response tx attrs) tx = Inr \<lparr>ma_IP = ip, ma_Port = uint port\<rparr>"
proof -
  let ?len = "PutUint16 (of_nat (length attrs))"
  let ?pre = "PutUint16 0x0101 @ ?len @ PutUint32 0x2112A442 @ tx"
  let ?data = "rfc_response tx attrs"
  have data: "?data = ?pre @ attrs" by (simp add: rfc_response_def)
  have len: "length ?pre = 20" "length ?data = 20 + length attrs" using assms(1) by (simp_all add: data)
  have "subslice 0 2 ?data = PutUint16 0x0101" by (simp add: rfc_response_def)
  moreover have "subslice 2 4 ?data = ?len"
    unfolding rfc_response_def by (rule subslice_append) simp_all
  moreover have cookie: "subslice 4 8 ?data = PutUint32 StunMagicCookie"
    using subslice_append [of "PutUint16 0x0101 @ ?len" 4 8 "PutUint32 0x2112A442" "tx @ attrs"]
    by (simp add: rfc_response_def StunMagicCookie_def)
  moreover have "subslice 8 20 ?data = tx"
    using subslice_append [of "PutUint16 0x0101 @ ?len @ PutUint32 0x2112A442" 8 20 tx attrs] assms(1)
    by (simp add: rfc_response_def)
  moreover have "parse_attrs ?data 20 (20 + length attrs) = Inr \<lparr>ma_IP = ip, ma_Port = uint port\<rparr>"
  proof -
    let ?rest = "rfc_attr StunAttrXorMappedAddress (rfc_xor_address ip port) [] @ after"
    have x: "length (rfc_xor_address ip port) = 8" using assms(2) by (simp add: rfc_xor_address_def)
    have a: "length attrs = length (rfc_attrs before) + 12 + length after"
      using assms(4) x by (simp add: rfc_attr_def)
    have "parse_attrs ?data 20 (20 + length attrs) = parse_attrs ?data (20 + length (rfc_attrs before)) (20 + length attrs)"
      using parse_attrs_skip [OF assms(3), of ?pre "20 + length attrs" ?rest] len(1) a assms(4) data by simp
    also have "\<dots> = bind_r (go_slice 4 8 ?data) (parseXorMappedAddress (rfc_xor_address ip port))"
      using len(1) x a assms(4) data
      by (subst parse_attrs_at [of _ "?pre @ rfc_attrs before" StunAttrXorMappedAddress "rfc_xor_address ip port" "[]" after]) simp_all
    finally show ?thesis using len(2) cookie assms(2) by (simp add: go_slice_def parse_xor_rfc)
  qed
  ultimately show ?thesis
    using assms(1,5) len(2) by (simp add: parseStunResponse_def go_slice_def Let_def stun_constants)
qed

section \<open>Discovery\<close>

lemma discover_loop_skips:
  assumes "\<forall>i < length failing. \<exists>e. queryServer (nets (k + i)) (failing ! i) = Inl e"
    and "queryServer (nets (k + length failing)) server = Inr a"
  shows "discover_loop nets k (failing @ server # rest) lastErr = Inr a"
  using assms
proof (induction failing arbitrary: k lastErr)
  case Nil
  then show ?case by simp
next
  case (Cons s failing)
  obtain e where "queryServer (nets k) s = Inl e" using Cons.prems(1) by force
  moreover have "\<forall>i < length failing. \<exists>e. queryServer (nets (Suc k + i)) (failing ! i) = Inl e"
    using Cons.prems(1) by (metis Suc_less_eq add_Suc_shift length_Cons nth_Cons_Suc)
  ultimately show ?case using Cons.IH [of "Suc k"] Cons.prems(2) by simp
qed

text \<open>A query that reaches a server following the standard.\<close>

definition answers :: "stun_net \<Rightarrow> string \<Rightarrow> (u16 \<times> bytes \<times> bytes) list \<Rightarrow> bytes \<Rightarrow> bytes \<Rightarrow> u16 \<Rightarrow> bool" where
  "answers net server before after ip port \<longleftrightarrow>
     (\<exists>addr tx. ResolveUDPAddr (sn_resolver net) server = Some addr \<and> sn_random net = Some tx \<and> length tx = 12 \<and>
        sn_send net addr \<and> sn_recv net addr (buildStunRequest tx) = Inr (rfc_server before after ip port (buildStunRequest tx))) \<and>
     sn_set_deadline net \<and> sn_reset net \<and> list_all rfc_padded before \<and> length ip = 4 \<and>
     length (rfc_attrs before) + 12 + length after \<le> 556"

lemma query_answered:
  assumes "answers net server before after ip port"
  shows "queryServer net server = Inr \<lparr>ma_IP = ip, ma_Port = uint port\<rparr>"
proof -
  obtain addr tx where q: "ResolveUDPAddr (sn_resolver net) server = Some addr" "sn_random net = Some tx" "length tx = 12"
      "sn_send net addr" "sn_recv net addr (buildStunRequest tx) = Inr (rfc_server before after ip port (buildStunRequest tx))"
      "sn_set_deadline net" "sn_reset net" "\<forall>a \<in> set before. rfc_padded a" "length ip = 4"
      "length (rfc_attrs before) + 12 + length after \<le> 556"
    using assms by (auto simp: answers_def list_all_iff)
  let ?attrs = "rfc_attrs before @ rfc_attr StunAttrXorMappedAddress (rfc_xor_address ip port) [] @ after"
  have "length (rfc_xor_address ip port) = 8" using q(9) by (simp add: rfc_xor_address_def)
  then have len: "length ?attrs \<le> 556" using q(10) by (simp add: rfc_attr_def)
  have "subslice 8 20 (buildStunRequest tx) = tx"
    using q(3) by (simp add: buildStunRequest_def subslice_def)
  then have "take 576 (rfc_server before after ip port (buildStunRequest tx)) = rfc_response tx ?attrs"
    using len q(3) by (simp add: rfc_server_def rfc_response_def del: append_assoc)
  moreover have "parseStunResponse (rfc_response tx ?attrs) tx = Inr \<lparr>ma_IP = ip, ma_Port = uint port\<rparr>"
    by (rule parse_rfc_response) (use q len in auto)
  ultimately show ?thesis using q by (simp add: queryServer_def Let_def)
qed

text \<open>
  C19. A client learns the address its packets come from: when every server before one of them fails in
  whatever way, and this one answers the request as RFC 5389 says, with the client's address as an
  XOR-mapped address between any other attributes, \<open>Discover\<close> returns this address and port.
\<close>

theorem discover_returns_mapped_address:
  assumes "sc_servers c = failing @ server # rest"
    and "\<forall>i < length failing. \<exists>e. queryServer (nets i) (failing ! i) = Inl e"
    and "answers (nets (length failing)) server before after ip port"
  shows "Discover nets c = Inr \<lparr>ma_IP = ip, ma_Port = uint port\<rparr>"
  unfolding Discover_def assms(1) using assms(2) query_answered [OF assms(3)]
  by (intro discover_loop_skips) simp_all

definition net_down :: stun_net where
  "net_down = \<lparr>sn_resolver = (\<lambda>s. None), sn_random = None, sn_set_deadline = True, sn_send = (\<lambda>a. False),
     sn_recv = (\<lambda>a r. Inl Timeout), sn_reset = True\<rparr>"

definition net_up :: stun_net where
  "net_up = \<lparr>sn_resolver = (\<lambda>s. None), sn_random = Some (replicate 12 7), sn_set_deadline = True, sn_send = (\<lambda>a. True),
     sn_recv = (\<lambda>a r. Inr (rfc_server [(0x8022, [1, 2, 3], [0])] [] [203, 0, 113, 9] 4711 r)), sn_reset = True\<rparr>"

lemmas literal_defs = literal_addr_def split_last_colon_def ParseIPv4_def parse_octet_def parse_dec_def digit_val_def

lemma net_up_answers: "answers net_up ''192.0.2.1:3478'' [(0x8022, [1, 2, 3], [0])] [] [203, 0, 113, 9] 4711"
proof -
  have "literal_addr ''192.0.2.1:3478'' = Some \<lparr>ua_IP = v4InV6Prefix @ [192, 0, 2, 1], ua_Port = 3478\<rparr>"
    by (simp add: literal_defs)
  then show ?thesis
    by (simp add: answers_def ResolveUDPAddr_def net_up_def rfc_padded_def stun_constants rfc_attrs_def rfc_attr_def dvd_eq_mod_eq_0)
qed

lemma net_up_query: "queryServer net_up ''192.0.2.1:3478'' = Inr \<lparr>ma_IP = [203, 0, 113, 9], ma_Port = 4711\<rparr>"
  using query_answered [OF net_up_answers] by simp

lemma discover_returns_mapped_address_witness:
  "Discover (\<lambda>i. if i = 0 then net_down else net_up) \<lparr>sc_servers = [''nowhere:1'', ''192.0.2.1:3478''], sc_timeout = 1\<rparr> =
     Inr \<lparr>ma_IP = [203, 0, 113, 9], ma_Port = 4711\<rparr>"
proof -
  have "literal_addr ''nowhere:1'' = None" by (simp add: literal_defs)
  then have "\<exists>e. queryServer net_down ''nowhere:1'' = Inl e"
    by (simp add: queryServer_def ResolveUDPAddr_def net_down_def)
  then show ?thesis
    using net_up_answers
      discover_returns_mapped_address [of "\<lparr>sc_servers = [''nowhere:1'', ''192.0.2.1:3478''], sc_timeout = 1\<rparr>"
        "[''nowhere:1'']" "''192.0.2.1:3478''" "[]" "\<lambda>i. if i = 0 then net_down else net_up"
        "[(0x8022, [1, 2, 3], [0])]" "[]" "[203, 0, 113, 9]" 4711]
    by simp
qed

text \<open>
  C21. The parser is safe on every datagram: it never indexes or slices out of range, and an address it
  returns has 4 or 16 bytes and a port of 16 bits.
\<close>

theorem parse_stun_response_bounds: "addr_ok (parseStunResponse data expectedTxID)"
  by (rule parse_response_ok)

text \<open>
  The classification of the NAT compares the answers for two servers only when the first one responds.
  With the first server down the address is discovered from the second one, and compared with the
  second one's answer again: the result is a cone NAT although every server would see another address.
\<close>

lemma detect_compares_server_with_itself:
  assumes "sc_servers c = [s1, s2]" "queryServer (nets 0) s1 = Inl e" "queryServer (nets 1) s2 = Inr a"
    and "queryServer net2 s2 = Inr a"
  shows "DetectNATType nets net2 (Some conn) c = (''Cone NAT'', None)"
  using assms by (simp add: DetectNATType_def DiscoverWithNewConn_def Discover_def IP_Equal_def)

end
