(* ===== verification/Signaling.thy ===== *)
theory Signaling
  imports Netaddr Transport
begin

text \<open>
  Model of \<open>internal/nat/signaling.go\<close>: the signaling server with its table of peers, and the client that
  registers and looks up addresses. A connection to the server is what the client sends (a reader) and
  what the server writes; handlers return the outcome, the server and the writer. The client's
  connection is a \<open>stream\<close> of theory \<open>Transport\<close>. Time is an argument, in nanoseconds.
\<close>

section \<open>The server\<close>

definition MsgTypeRegister :: byte where "MsgTypeRegister = 0x01"
definition MsgTypeRegisterAck :: byte where "MsgTypeRegisterAck = 0x02"
definition MsgTypePeerRequest :: byte where "MsgTypePeerRequest = 0x03"
definition MsgTypePeerResponse :: byte where "MsgTypePeerResponse = 0x04"
definition MsgTypeError :: byte where "MsgTypeError = 0xFF"
definition PeerEntryExpiry :: int where "PeerEntryExpiry = 5 * 60 * 1000000000"

lemmas sig_types = MsgTypeRegister_def MsgTypeRegisterAck_def MsgTypePeerRequest_def
  MsgTypePeerResponse_def MsgTypeError_def

record PeerInfo =
  pi_ID :: string
  pi_PublicAddr :: string
  pi_LocalAddr :: string
  pi_LastSeen :: int

record SignalingServer =
  ss_listening :: bool
  ss_peers :: "string \<rightharpoonup> PeerInfo"
  ss_done :: bool

definition NewSignalingServer :: SignalingServer where
  "NewSignalingServer = \<lparr>ss_listening = False, ss_peers = Map.empty, ss_done = False\<rparr>"

definition sig_Listen :: "bool \<Rightarrow> SignalingServer \<Rightarrow> unit res \<times> SignalingServer" where
  "sig_Listen ok s = (if ok then (Inr (), s\<lparr>ss_listening := True\<rparr>) else (Inl (Err ''starting listener''), s))"

text \<open>Closing a channel twice panics.\<close>

definition sig_Close :: "SignalingServer \<Rightarrow> unit res \<times> SignalingServer" where
  "sig_Close s =
     (if ss_done s then (Inl (Panic ''close of closed channel''), s)
      else (Inr (), s\<lparr>ss_done := True, ss_listening := False\<rparr>))"

definition RegisteredPeers :: "SignalingServer \<Rightarrow> nat" where
  "RegisteredPeers s = card (dom (ss_peers s))"

text \<open>Every message has a type, a length and a body. Failing writes are ignored by the server.\<close>

definition sig_message :: "byte \<Rightarrow> bytes \<Rightarrow> bytes" where
  "sig_message ty body = ty # PutUint32 (of_nat (length body)) @ body"

definition sendRegisterAck :: "writer \<Rightarrow> string \<Rightarrow> writer" where
  "sendRegisterAck conn peerID = snd (Write conn (sig_message MsgTypeRegisterAck (bytes_of peerID)))"

definition sig_field :: "string \<Rightarrow> bytes" where
  "sig_field s = PutUint16 (of_nat (length s)) @ bytes_of s"

definition sendPeerResponse :: "writer \<Rightarrow> PeerInfo \<Rightarrow> writer" where
  "sendPeerResponse conn peer =
     snd (Write conn (sig_message MsgTypePeerResponse (sig_field (pi_PublicAddr peer) @ sig_field (pi_LocalAddr peer))))"

definition sig_sendError :: "writer \<Rightarrow> string \<Rightarrow> writer" where
  "sig_sendError conn errMsg = snd (Write conn (sig_message MsgTypeError (bytes_of errMsg)))"

text \<open>
  A field of a body: two bytes of length and the text. An \<open>Err\<close> is the message the server replies with;
  slices are checked, so that a panic would show.
\<close>

definition field_at :: "bytes \<Rightarrow> nat \<Rightarrow> string \<Rightarrow> (string \<times> nat) res" where
  "field_at body pos msg =
     bind_r (go_slice (int pos) (int (pos + 2)) body) (\<lambda>l.
       let n = unat (Uint16 l) in
       if pos + 2 + n > length body then Inl (Err msg)
       else bind_r (go_slice (int (pos + 2)) (int (pos + 2 + n)) body) (\<lambda>d. Inr (string_of d, pos + 2 + n)))"

definition parse_register :: "bytes \<Rightarrow> (string \<times> string \<times> string) res" where
  "parse_register body =
     (if length body < 6 then Inl (Err ''invalid register message'')
      else
        bind_r (field_at body 0 ''invalid peer ID'') (\<lambda>(peerID, pos1).
        if pos1 + 2 > length body then Inl (Err ''invalid public address'')
        else bind_r (field_at body pos1 ''invalid public address'') (\<lambda>(publicAddr, pos2).
        if pos2 + 2 > length body then Inl (Err ''invalid local address'')
        else bind_r (field_at body pos2 ''invalid local address'') (\<lambda>(localAddr, pos3).
        Inr (peerID, publicAddr, localAddr)))))"

definition handleRegister :: "int \<Rightarrow> SignalingServer \<Rightarrow> writer \<Rightarrow> bytes \<Rightarrow> unit res \<times> SignalingServer \<times> writer" where
  "handleRegister now s conn body =
     (case parse_register body of
        Inl (Err msg) \<Rightarrow> (Inr (), s, sig_sendError conn msg)
      | Inl e \<Rightarrow> (Inl e, s, conn)
      | Inr (peerID, publicAddr, localAddr) \<Rightarrow>
          (Inr (),
           s\<lparr>ss_peers := (ss_peers s)(peerID \<mapsto>
               \<lparr>pi_ID = peerID, pi_PublicAddr = publicAddr, pi_LocalAddr = localAddr, pi_LastSeen = now\<rparr>)\<rparr>,
           sendRegisterAck conn peerID))"

definition handlePeerRequest :: "SignalingServer \<Rightarrow> writer \<Rightarrow> bytes \<Rightarrow> unit res \<times> writer" where
  "handlePeerRequest s conn body =
     (if length body < 2 then (Inr (), sig_sendError conn ''invalid peer request'')
      else case field_at body 0 ''invalid peer ID'' of
             Inl (Err msg) \<Rightarrow> (Inr (), sig_sendError conn msg)
           | Inl e \<Rightarrow> (Inl e, conn)
           | Inr (peerID, _) \<Rightarrow>
               (case ss_peers s peerID of
                  None \<Rightarrow> (Inr (), sig_sendError conn ''peer not found'')
                | Some peer \<Rightarrow> (Inr (), sendPeerResponse conn peer)))"

definition sig_handleConnection :: "int \<Rightarrow> SignalingServer \<Rightarrow> reader \<Rightarrow> writer \<Rightarrow> unit res \<times> SignalingServer \<times> writer" where
  "sig_handleConnection now s r conn =
     (case ReadFull 5 r of
        (header, Some e, r1) \<Rightarrow> (Inr (), s, conn)
      | (header, None, r1) \<Rightarrow>
          let msgType = hd header; msgLen = unat (Uint32 (drop 1 header)) in
          if msgLen > 1024 then (Inr (), s, sig_sendError conn ''message too large'')
          else case ReadFull msgLen r1 of
                 (body, Some e, r2) \<Rightarrow> (Inr (), s, conn)
               | (body, None, r2) \<Rightarrow>
                   if msgType = MsgTypeRegister then handleRegister now s conn body
                   else if msgType = MsgTypePeerRequest then
                     (case handlePeerRequest s conn body of (res, conn') \<Rightarrow> (res, s, conn'))
                   else (Inr (), s, sig_sendError conn ''unknown message type''))"

text \<open>One tick of \<open>cleanupExpiredPeers\<close>.\<close>

definition cleanupExpiredPeers :: "int \<Rightarrow> SignalingServer \<Rightarrow> SignalingServer" where
  "cleanupExpiredPeers now s =
     s\<lparr>ss_peers := (\<lambda>i. case ss_peers s i of
         None \<Rightarrow> None
       | Some peer \<Rightarrow> if now - pi_LastSeen peer > PeerEntryExpiry then None else Some peer)\<rparr>"


section \<open>The client\<close>

text \<open>A connection that cannot be established is \<open>None\<close>.\<close>

definition readResponse :: "reader \<Rightarrow> (byte \<times> bytes) res" where
  "readResponse r =
     (case ReadFull 5 r of
        (header, Some e, r1) \<Rightarrow> Inl (Err ''reading response header'')
      | (header, None, r1) \<Rightarrow>
          let msgType = hd header; msgLen = unat (Uint32 (drop 1 header)) in
          if msgLen > 1024 then Inl (Err ''response too large'')
          else case ReadFull msgLen r1 of
                 (body, Some e, r2) \<Rightarrow> Inl (Err ''reading response body'')
               | (body, None, r2) \<Rightarrow> Inr (msgType, body))"

definition parsePeerResponse :: "bytes \<Rightarrow> PeerInfo res" where
  "parsePeerResponse body =
     (if length body < 4 then Inl (Err ''invalid peer response'')
      else
        bind_r (field_at body 0 ''invalid public address in response'') (\<lambda>(publicAddr, pos).
        if pos + 2 > length body then Inl (Err ''invalid local address in response'')
        else bind_r (field_at body pos ''invalid local address in response'') (\<lambda>(localAddr, pos').
        Inr \<lparr>pi_ID = [], pi_PublicAddr = publicAddr, pi_LocalAddr = localAddr, pi_LastSeen = 0\<rparr>)))"

definition Register :: "stream option \<Rightarrow> string \<Rightarrow> string \<Rightarrow> string \<Rightarrow> unit res" where
  "Register conn peerID publicAddr localAddr =
     (case conn of
        None \<Rightarrow> Inl (Err ''connecting to signaling server'')
      | Some st \<Rightarrow>
          (case Write (sm_out st) (sig_message MsgTypeRegister (sig_field peerID @ sig_field publicAddr @ sig_field localAddr)) of
             (False, w) \<Rightarrow> Inl (Err ''sending register message'')
           | (True, w) \<Rightarrow>
               bind_r (readResponse (sm_reply st (wr_bytes w))) (\<lambda>(msgType, body).
                 if msgType = MsgTypeError then Inl (ErrMsg ''registration error'' (string_of body))
                 else if msgType \<noteq> MsgTypeRegisterAck then Inl (Err ''unexpected response type'')
                 else Inr ())))"

definition LookupPeer :: "stream option \<Rightarrow> string \<Rightarrow> PeerInfo res" where
  "LookupPeer conn peerID =
     (case conn of
        None \<Rightarrow> Inl (Err ''connecting to signaling server'')
      | Some st \<Rightarrow>
          (case Write (sm_out st) (sig_message MsgTypePeerRequest (sig_field peerID)) of
             (False, w) \<Rightarrow> Inl (Err ''sending peer request'')
           | (True, w) \<Rightarrow>
               bind_r (readResponse (sm_reply st (wr_bytes w))) (\<lambda>(msgType, body).
                 if msgType = MsgTypeError then
                   (if string_of body = ''peer not found'' then Inl (Err ''peer not found'')
                    else Inl (ErrMsg ''lookup error'' (string_of body)))
                 else if msgType \<noteq> MsgTypePeerResponse then Inl (Err ''unexpected response type'')
                 else parsePeerResponse body)))"

section \<open>Messages and their parsers\<close>

lemma field_at_enc:
  assumes "body = pre @ sig_field s @ rest" "pos = length pre" "length s < 65536"
  shows "field_at body pos msg = Inr (s, pos + 2 + length s)"
proof -
  let ?l = "PutUint16 (of_nat (length s))"
  have "body = pre @ ?l @ (bytes_of s @ rest)" "body = (pre @ ?l) @ bytes_of s @ rest"
    using assms(1) by (simp_all add: sig_field_def)
  then have "subslice pos (pos + 2) body = ?l" "subslice (pos + 2) (pos + 2 + length s) body = bytes_of s"
    "length body = length pre + 2 + length s + length rest"
    using assms(2) subslice_append [of pre pos "pos + 2" ?l] subslice_append [of "pre @ ?l" "pos + 2" "pos + 2 + length s" "bytes_of s"]
    by simp_all
  then show ?thesis
    using assms(2,3) go_slice_nat [of pos "pos + 2" body] go_slice_nat [of "pos + 2" "pos + 2 + length s" body]
    by (simp add: field_at_def Let_def)
qed

lemma length_sig_field [simp]: "length (sig_field s) = 2 + length s"
  by (simp add: sig_field_def)

lemma parse_register_enc:
  assumes "length i < 65536" "length p < 65536" "length l < 65536"
  shows "parse_register (sig_field i @ sig_field p @ sig_field l) = Inr (i, p, l)"
proof -
  let ?b = "sig_field i @ sig_field p @ sig_field l"
  have "field_at ?b 0 m = Inr (i, 2 + length i)" for m
    using field_at_enc [of ?b "[]" i "sig_field p @ sig_field l" 0 m] assms by simp
  moreover have "field_at ?b (2 + length i) m = Inr (p, 2 + length i + 2 + length p)" for m
    using field_at_enc [of ?b "sig_field i" p "sig_field l" "2 + length i" m] assms by simp
  moreover have "field_at ?b (2 + length i + 2 + length p) m = Inr (l, 2 + length i + 2 + length p + 2 + length l)" for m
    using field_at_enc [of ?b "sig_field i @ sig_field p" l "[]" "2 + length i + 2 + length p" m] assms by simp
  ultimately show ?thesis by (simp add: parse_register_def)
qed

lemma parse_response_enc:
  assumes "length p < 65536" "length l < 65536"
  shows "parsePeerResponse (sig_field p @ sig_field l) = Inr \<lparr>pi_ID = [], pi_PublicAddr = p, pi_LocalAddr = l, pi_LastSeen = 0\<rparr>"
proof -
  let ?b = "sig_field p @ sig_field l"
  have "field_at ?b 0 m = Inr (p, 2 + length p)" for m
    using field_at_enc [of ?b "[]" p "sig_field l" 0 m] assms by simp
  moreover have "field_at ?b (2 + length p) m = Inr (l, 2 + length p + 2 + length l)" for m
    using field_at_enc [of ?b "sig_field p" l "[]" "2 + length p" m] assms by simp
  ultimately show ?thesis by (simp add: parsePeerResponse_def)
qed

text \<open>An outcome that is a value or a reply, but no panic.\<close>

definition graceful :: "'a res \<Rightarrow> bool" where
  "graceful r \<longleftrightarrow> (\<exists>x. r = Inr x) \<or> (\<exists>m. r = Inl (Err m))"

lemma graceful_simps [simp]: "graceful (Inr x)" "graceful (Inl e) \<longleftrightarrow> (\<exists>m. e = Err m)"
  by (simp_all add: graceful_def)

lemma graceful_bind: "graceful r \<Longrightarrow> (\<And>x. graceful (f x)) \<Longrightarrow> graceful (bind_r r f)"
  by (cases r) auto

lemma field_at_safe: "pos + 2 \<le> length body \<Longrightarrow> graceful (field_at body pos msg)"
proof -
  assume "pos + 2 \<le> length body"
  then have l: "go_slice (int pos) (int (pos + 2)) body = Inr (subslice pos (pos + 2) body)" (is "_ = Inr ?l")
    by (intro go_slice_nat) simp_all
  let ?n = "unat (Uint16 ?l)"
  show ?thesis
  proof (cases "pos + 2 + ?n > length body")
    case True
    then show ?thesis unfolding field_at_def l by (simp add: Let_def)
  next
    case False
    then have "go_slice (int (pos + 2)) (int (pos + 2 + ?n)) body = Inr (subslice (pos + 2) (pos + 2 + ?n) body)"
      by (intro go_slice_nat) simp_all
    then show ?thesis unfolding field_at_def l by (simp add: Let_def del: of_nat_add)
  qed
qed

lemma parse_register_safe: "graceful (parse_register body)"
  by (auto simp: parse_register_def not_less intro!: graceful_bind field_at_safe)

lemma ReadFull_message:
  assumes "length body \<le> 1024"
  shows "ReadFull 5 (reader_of (sig_message ty body)) = (ty # PutUint32 (of_nat (length body)), None, reader_of body)"
    "ReadFull (length body) (reader_of body) = (body, None, reader_of [])"
    "unat (Uint32 (PutUint32 (of_nat (length body)))) = length body"
  using assms by (simp_all add: ReadFull_def sig_message_def reader_of_def)

lemma readResponse_enc: "length body \<le> 1024 \<Longrightarrow> readResponse (reader_of (sig_message ty body)) = Inr (ty, body)"
  by (simp add: readResponse_def ReadFull_message Let_def)

section \<open>What a connection does to the table\<close>

text \<open>The registration in what a client sends, if there is one.\<close>

definition registration :: "reader \<Rightarrow> (string \<times> string \<times> string) option" where
  "registration r =
     (case ReadFull 5 r of
        (header, None, r1) \<Rightarrow>
          (case ReadFull (unat (Uint32 (drop 1 header))) r1 of
             (body, None, r2) \<Rightarrow>
               if unat (Uint32 (drop 1 header)) \<le> 1024 \<and> hd header = MsgTypeRegister
               then (case parse_register body of Inr x \<Rightarrow> Some x | Inl e \<Rightarrow> None) else None
           | _ \<Rightarrow> None)
      | _ \<Rightarrow> None)"

lemma handlePeerRequest_safe: "fst (handlePeerRequest s conn body) = Inr ()"
  using field_at_safe [of 0 body "''invalid peer ID''"]
  by (auto simp: handlePeerRequest_def graceful_def split: option.split)

lemma handleRegister_cases:
  "(\<exists>m. parse_register body = Inl (Err m) \<and> handleRegister now s conn body = (Inr (), s, sig_sendError conn m)) \<or>
   (\<exists>i p l. parse_register body = Inr (i, p, l) \<and> handleRegister now s conn body =
      (Inr (), s\<lparr>ss_peers := (ss_peers s)(i \<mapsto> \<lparr>pi_ID = i, pi_PublicAddr = p, pi_LocalAddr = l, pi_LastSeen = now\<rparr>)\<rparr>, sendRegisterAck conn i))"
  using parse_register_safe [of body] by (auto simp: handleRegister_def graceful_def)

lemma handleConnection_effect:
  "fst (sig_handleConnection now s r conn) = Inr () \<and>
   fst (snd (sig_handleConnection now s r conn)) =
     (case registration r of
        None \<Rightarrow> s
      | Some (i, p, l) \<Rightarrow>
          s\<lparr>ss_peers := (ss_peers s)(i \<mapsto> \<lparr>pi_ID = i, pi_PublicAddr = p, pi_LocalAddr = l, pi_LastSeen = now\<rparr>)\<rparr>)"
proof -
  obtain header e r1 where h: "ReadFull 5 r = (header, e, r1)" by (cases "ReadFull 5 r")
  show ?thesis
  proof (cases e)
    case None
    let ?n = "unat (Uint32 (drop 1 header))"
    obtain body e2 r2 where b: "ReadFull ?n r1 = (body, e2, r2)" by (cases "ReadFull ?n r1")
    show ?thesis
      using handleRegister_cases [of body now s conn] handlePeerRequest_safe [of s conn body] None h b
      by (cases e2) (auto simp: sig_handleConnection_def registration_def Let_def split: prod.split)
  next
    case (Some x)
    then show ?thesis using h by (simp add: sig_handleConnection_def registration_def)
  qed
qed


section \<open>Registration and lookup\<close>

text \<open>What happens at the server: a client connects, or the table is cleaned.\<close>

datatype sig_event = Connected int reader writer | Tick int

fun sig_event_step :: "SignalingServer \<Rightarrow> sig_event \<Rightarrow> SignalingServer" where
  "sig_event_step s (Connected now r w) = fst (snd (sig_handleConnection now s r w))"
| "sig_event_step s (Tick now) = cleanupExpiredPeers now s"

definition sig_run :: "SignalingServer \<Rightarrow> sig_event list \<Rightarrow> SignalingServer" where
  "sig_run s evs = foldl sig_event_step s evs"

text \<open>An event that leaves an entry alone: no new registration under the same name, no cleaning after its expiry.\<close>

fun keeps :: "string \<Rightarrow> int \<Rightarrow> sig_event \<Rightarrow> bool" where
  "keeps i t (Connected now r w) \<longleftrightarrow> (case registration r of None \<Rightarrow> True | Some (j, _) \<Rightarrow> j \<noteq> i)"
| "keeps i t (Tick now) \<longleftrightarrow> now \<le> t + PeerEntryExpiry"

lemma run_keeps:
  "list_all (keeps i (pi_LastSeen p)) evs \<Longrightarrow> ss_peers s i = Some p \<Longrightarrow> ss_peers (sig_run s evs) i = Some p"
proof (induction evs arbitrary: s)
  case Nil
  then show ?case by (simp add: sig_run_def)
next
  case (Cons ev evs)
  have "ss_peers (sig_event_step s ev) i = Some p"
  proof (cases ev)
    case (Connected now r w)
    then show ?thesis
      using Cons.prems handleConnection_effect [of now s r w] by (auto split: option.splits)
  next
    case (Tick now)
    then show ?thesis using Cons.prems by (simp add: cleanupExpiredPeers_def)
  qed
  then show ?case using Cons.IH [of "sig_event_step s ev"] Cons.prems(1) by (simp add: sig_run_def)
qed

text \<open>The connection of a client to the server in a given state.\<close>

definition to_server :: "int \<Rightarrow> SignalingServer \<Rightarrow> stream" where
  "to_server now s =
     \<lparr>sm_out = \<lparr>wr_bytes = [], wr_room = None\<rparr>,
      sm_reply = (\<lambda>b. reader_of (wr_bytes (snd (snd (sig_handleConnection now s (reader_of b) \<lparr>wr_bytes = [], wr_room = None\<rparr>)))))\<rparr>"

definition register_message :: "string \<Rightarrow> string \<Rightarrow> string \<Rightarrow> bytes" where
  "register_message i p l = sig_message MsgTypeRegister (sig_field i @ sig_field p @ sig_field l)"

lemma register_handled:
  assumes "length i + length p + length l \<le> 1018"
  shows "sig_handleConnection now s (reader_of (register_message i p l)) w =
    (Inr (), s\<lparr>ss_peers := (ss_peers s)(i \<mapsto> \<lparr>pi_ID = i, pi_PublicAddr = p, pi_LocalAddr = l, pi_LastSeen = now\<rparr>)\<rparr>, sendRegisterAck w i)"
proof -
  let ?b = "sig_field i @ sig_field p @ sig_field l"
  have "length ?b \<le> 1024" using assms by simp
  moreover have "parse_register ?b = Inr (i, p, l)" by (rule parse_register_enc) (use assms in simp_all)
  ultimately show ?thesis
    by (simp add: register_message_def sig_handleConnection_def ReadFull_message [of ?b] Let_def handleRegister_def del: length_append)
qed

lemma register_succeeds:
  assumes "length i + length p + length l \<le> 1018"
  shows "Register (Some (to_server now s)) i p l = Inr ()"
  using assms
  by (simp add: Register_def to_server_def io_simps register_handled [unfolded register_message_def] sendRegisterAck_def
      readResponse_enc)
     (simp add: sig_types)

lemma lookup_finds:
  assumes "ss_peers s i = Some p" "length i \<le> 1022" "length (pi_PublicAddr p) + length (pi_LocalAddr p) \<le> 1020"
  shows "LookupPeer (Some (to_server now s)) i =
    Inr \<lparr>pi_ID = [], pi_PublicAddr = pi_PublicAddr p, pi_LocalAddr = pi_LocalAddr p, pi_LastSeen = 0\<rparr>"
proof -
  have f: "field_at (sig_field i) 0 m = Inr (i, 2 + length i)" for m
    using field_at_enc [of "sig_field i" "[]" i "[]" 0 m] assms(2) by simp
  have "length (sig_field i) \<le> 1024" using assms(2) by simp
  then have "snd (snd (sig_handleConnection now s (reader_of (sig_message MsgTypePeerRequest (sig_field i))) w)) = sendPeerResponse w p" for w
    using assms(1) f
    by (simp add: sig_handleConnection_def ReadFull_message [of "sig_field i"] Let_def handlePeerRequest_def sig_types del: length_sig_field)
       (simp add: ReadFull_message [of "sig_field i"])
  moreover have "readResponse (reader_of (sig_message MsgTypePeerResponse (sig_field (pi_PublicAddr p) @ sig_field (pi_LocalAddr p)))) =
    Inr (MsgTypePeerResponse, sig_field (pi_PublicAddr p) @ sig_field (pi_LocalAddr p))"
    by (rule readResponse_enc) (use assms(3) in simp)
  ultimately show ?thesis
    using parse_response_enc [of "pi_PublicAddr p" "pi_LocalAddr p"] assms(3)
    by (simp add: LookupPeer_def to_server_def io_simps sendPeerResponse_def sig_types)
qed

lemma register_then_lookup:
  assumes "length i + length p + length l \<le> 1018"
    and "list_all (keeps i t) evs"
  shows "Register (Some (to_server t s)) i p l = Inr () \<and>
    LookupPeer (Some (to_server now (sig_run s (Connected t (reader_of (register_message i p l)) w # evs)))) i =
      Inr \<lparr>pi_ID = [], pi_PublicAddr = p, pi_LocalAddr = l, pi_LastSeen = 0\<rparr>"
proof -
  let ?p = "\<lparr>pi_ID = i, pi_PublicAddr = p, pi_LocalAddr = l, pi_LastSeen = t\<rparr>"
  let ?s = "s\<lparr>ss_peers := (ss_peers s)(i \<mapsto> ?p)\<rparr>"
  have "sig_run s (Connected t (reader_of (register_message i p l)) w # evs) = sig_run ?s evs"
    using assms(1) by (simp add: sig_run_def register_handled)
  moreover have "ss_peers (sig_run ?s evs) i = Some ?p"
    by (rule run_keeps) (use assms(2) in simp_all)
  ultimately show ?thesis
    using register_succeeds [OF assms(1), of t s] lookup_finds [of "sig_run ?s evs" i ?p now] assms(1) by simp
qed



text \<open>
  C38. The server survives every client: whatever bytes a connection delivers, and whenever it ends, the
  handler returns without a panic, and the table changes just when the client sent a well-formed
  registration, in the entry of the registered name.
\<close>

theorem signaling_server_safe:
  "\<exists>out. sig_handleConnection now s r conn =
     (Inr (), case registration r of
        None \<Rightarrow> s
      | Some (i, p, l) \<Rightarrow>
          s\<lparr>ss_peers := (ss_peers s)(i \<mapsto> \<lparr>pi_ID = i, pi_PublicAddr = p, pi_LocalAddr = l, pi_LastSeen = now\<rparr>)\<rparr>, out)"
  using handleConnection_effect [of now s r conn] by (metis prod.collapse)

text \<open>
  A cleaning tick removes exactly the entries older than five minutes. No message renews an entry but a
  new registration, so a peer that registered once is unknown afterwards.
\<close>

lemma cleanup_exact:
  "ss_peers (cleanupExpiredPeers now s) i = Some p \<longleftrightarrow> ss_peers s i = Some p \<and> now \<le> pi_LastSeen p + PeerEntryExpiry"
  by (auto simp: cleanupExpiredPeers_def split: option.split)

end
