(* ===== verification/HolePunch.thy ===== *)
theory HolePunch
  imports Stun Signaling
begin

text \<open>
  Model of \<open>internal/nat/holepunch.go\<close>. An attempt runs two goroutines, the loop that sends and the listener,
  which share a socket and two channels of capacity one. Their state is one record, and everything that
  can happen next (a tick, a datagram, a channel that is ready, the deadline) is an event; a run is a
  sequence of events, so every interleaving and every choice of \<open>select\<close> is one. The socket is known by
  its local address. A finished context only stops the loop and the listener.
\<close>

section \<open>Packets\<close>

definition HolePunchSyn :: byte where "HolePunchSyn = 0x01"
definition HolePunchSynAck :: byte where "HolePunchSynAck = 0x02"
definition HolePunchAck :: byte where "HolePunchAck = 0x03"
definition MaxPunchAttempts :: int where "MaxPunchAttempts = 5"
definition punch_magic :: u32 where "punch_magic = 0x50554E43"

lemmas punch_types = HolePunchSyn_def HolePunchSynAck_def HolePunchAck_def

definition punch_packet :: "byte \<Rightarrow> bytes \<Rightarrow> bytes" where
  "punch_packet msgType sessionID = msgType # PutUint32 punch_magic @ go_copy (replicate 8 0) sessionID"

record HolePunchResult =
  hr_Success :: bool
  hr_Conn :: UDPAddr
  hr_RemoteAddr :: "UDPAddr option"
  hr_Attempts :: int
  hr_Method :: string

record punch_state =
  ps_result :: HolePunchResult
  ps_returned :: bool
  ps_listening :: bool
  ps_successCh :: "UDPAddr option"
  ps_errCh :: bool
  ps_sent :: "(UDPAddr \<times> bytes) list"

text \<open>A failing write of the socket is not looked at; \<open>ps_sent\<close> holds what was handed to it.\<close>

definition sendPunchPacket :: "UDPAddr \<Rightarrow> byte \<Rightarrow> bytes \<Rightarrow> punch_state \<Rightarrow> punch_state" where
  "sendPunchPacket addr msgType sessionID st = st\<lparr>ps_sent := ps_sent st @ [(addr, punch_packet msgType sessionID)]\<rparr>"


section \<open>Listener and loop\<close>

text \<open>A value is put into the channel unless it is full.\<close>

definition report_success :: "UDPAddr \<Rightarrow> punch_state \<Rightarrow> punch_state" where
  "report_success addr st =
     st\<lparr>ps_successCh := (case ps_successCh st of None \<Rightarrow> Some addr | Some a \<Rightarrow> Some a), ps_listening := False\<rparr>"

text \<open>One datagram at the listener, of which 64 bytes fit into the buffer.\<close>

definition listenForPunch :: "bytes \<Rightarrow> UDPAddr \<Rightarrow> bytes \<Rightarrow> punch_state \<Rightarrow> punch_state" where
  "listenForPunch expectedSessionID remoteAddr datagram st =
     (let buf = take 64 datagram in
      if length buf < 13 then st
      else
        let msgType = hd buf; magic = Uint32 (subslice 1 5 buf); sessionID = subslice 5 13 buf in
        if magic \<noteq> punch_magic then st
        else if sessionID \<noteq> expectedSessionID then st
        else if msgType = HolePunchSyn then sendPunchPacket remoteAddr HolePunchSynAck expectedSessionID st
        else if msgType = HolePunchSynAck then
          report_success remoteAddr (sendPunchPacket remoteAddr HolePunchAck expectedSessionID st)
        else if msgType = HolePunchAck then report_success remoteAddr st
        else st)"

text \<open>What distinguishes the two loops of the file: targets, attempts, the name of the method, and whether errors are drained.\<close>

record punch_cfg =
  pc_targets :: "UDPAddr list"
  pc_max :: int
  pc_method :: string
  pc_errs :: bool
  pc_session :: bytes

datatype punch_event = EvDone | EvSuccess | EvErr | EvTick | EvPacket UDPAddr bytes | EvReadError | EvStop

text \<open>The condition of the loop, looked at after an iteration.\<close>

definition loop_guard :: "punch_cfg \<Rightarrow> punch_state \<Rightarrow> punch_state" where
  "loop_guard cfg st =
     (if hr_Attempts (ps_result st) < pc_max cfg then st
      else st\<lparr>ps_returned := True, ps_result := (ps_result st)\<lparr>hr_Success := False\<rparr>\<rparr>)"

definition punch_tick :: "punch_cfg \<Rightarrow> punch_state \<Rightarrow> punch_state" where
  "punch_tick cfg st =
     foldl (\<lambda>s target. sendPunchPacket target HolePunchSyn (pc_session cfg) s)
       (st\<lparr>ps_result := (ps_result st)\<lparr>hr_Attempts := hr_Attempts (ps_result st) + 1\<rparr>\<rparr>) (pc_targets cfg)"

text \<open>An event that is not possible in a state has no successor.\<close>

fun punch_step :: "punch_cfg \<Rightarrow> punch_state \<Rightarrow> punch_event \<Rightarrow> punch_state option" where
  "punch_step cfg st EvDone =
     (if ps_returned st then None
      else Some (st\<lparr>ps_returned := True, ps_result := (ps_result st)\<lparr>hr_Success := False\<rparr>\<rparr>))"
| "punch_step cfg st EvSuccess =
     (if ps_returned st then None
      else case ps_successCh st of
             None \<Rightarrow> None
           | Some addr \<Rightarrow>
               Some (st\<lparr>ps_returned := True, ps_successCh := None,
                        ps_result := (ps_result st)\<lparr>hr_Success := True, hr_RemoteAddr := Some addr, hr_Method := pc_method cfg\<rparr>\<rparr>))"
| "punch_step cfg st EvErr =
     (if ps_returned st \<or> \<not> ps_errCh st \<or> \<not> pc_errs cfg then None else Some (loop_guard cfg (st\<lparr>ps_errCh := False\<rparr>)))"
| "punch_step cfg st EvTick = (if ps_returned st then None else Some (loop_guard cfg (punch_tick cfg st)))"
| "punch_step cfg st (EvPacket addr datagram) =
     (if \<not> ps_listening st then None else Some (listenForPunch (pc_session cfg) addr datagram st))"
| "punch_step cfg st EvReadError = (if \<not> ps_listening st then None else Some (st\<lparr>ps_errCh := True\<rparr>))"
| "punch_step cfg st EvStop = (if \<not> ps_listening st then None else Some (st\<lparr>ps_listening := False\<rparr>))"

definition punch_start :: "UDPAddr \<Rightarrow> punch_state" where
  "punch_start conn =
     \<lparr>ps_result = \<lparr>hr_Success = False, hr_Conn = conn, hr_RemoteAddr = None, hr_Attempts = 0, hr_Method = []\<rparr>,
      ps_returned = False, ps_listening = True, ps_successCh = None, ps_errCh = False, ps_sent = []\<rparr>"

fun punch_run :: "punch_cfg \<Rightarrow> punch_state \<Rightarrow> punch_event list \<Rightarrow> punch_state option" where
  "punch_run cfg st [] = Some st"
| "punch_run cfg st (ev # evs) = Option.bind (punch_step cfg st ev) (\<lambda>st'. punch_run cfg st' evs)"

text \<open>The outcome of an attempt along a run, \<open>None\<close> while the loop has not returned.\<close>

definition punch_outcome :: "punch_cfg \<Rightarrow> UDPAddr \<Rightarrow> punch_event list \<Rightarrow> HolePunchResult option" where
  "punch_outcome cfg conn evs =
     (case punch_run cfg (punch_start conn) evs of
        Some st \<Rightarrow> if ps_returned st then Some (ps_result st) else None
      | None \<Rightarrow> None)"

definition attempt_cfg :: "UDPAddr \<Rightarrow> UDPAddr option \<Rightarrow> bytes \<Rightarrow> punch_cfg" where
  "attempt_cfg publicAddr localAddr sessionID =
     \<lparr>pc_targets = publicAddr # (case localAddr of
          Some l \<Rightarrow> if \<not> IP_Equal (ua_IP l) (ua_IP publicAddr) then [l] else []
        | None \<Rightarrow> []),
      pc_max = MaxPunchAttempts, pc_method = ''hole_punch'', pc_errs = True, pc_session = sessionID\<rparr>"

definition attemptHolePunch ::
  "UDPAddr \<Rightarrow> UDPAddr \<Rightarrow> UDPAddr option \<Rightarrow> bytes \<Rightarrow> punch_event list \<Rightarrow> HolePunchResult option" where
  "attemptHolePunch conn publicAddr localAddr sessionID evs = punch_outcome (attempt_cfg publicAddr localAddr sessionID) conn evs"


section \<open>The hole puncher\<close>

record HolePuncher =
  hp_stunClient :: StunClient
  hp_serverAddr :: string
  hp_peerID :: string
  hp_localConn :: "UDPAddr option"
  hp_publicAddr :: "MappedAddress option"

definition NewHolePuncher :: "string \<Rightarrow> string \<Rightarrow> HolePuncher" where
  "NewHolePuncher signalingServerAddr peerID =
     \<lparr>hp_stunClient = NewStunClient, hp_serverAddr = signalingServerAddr, hp_peerID = peerID,
      hp_localConn = None, hp_publicAddr = None\<rparr>"

text \<open>The printed form of a socket's local address.\<close>

definition UDPAddr_String :: "UDPAddr \<Rightarrow> string" where
  "UDPAddr_String a =
     (let host = (if ua_IP a = [] then [] else IP_String (ua_IP a)) in
      (if CHR '':'' \<in> set host then ''['' @ host @ '']'' else host) @ '':'' @ dec_int (ua_Port a))"

text \<open>When the registration fails the socket is closed but stays in \<open>localConn\<close>.\<close>

definition Initialize :: "(nat \<Rightarrow> stun_net) \<Rightarrow> UDPAddr option \<Rightarrow> stream option \<Rightarrow> HolePuncher \<Rightarrow> unit res \<times> HolePuncher" where
  "Initialize nets socket server hp =
     (case DiscoverWithNewConn nets socket (hp_stunClient hp) of
        Inl e \<Rightarrow> (Inl (Err ''STUN discovery failed''), hp)
      | Inr (publicAddr, conn) \<Rightarrow>
          let hp' = hp\<lparr>hp_localConn := Some conn, hp_publicAddr := Some publicAddr\<rparr> in
          (case Register server (hp_peerID hp) (MappedAddress_String publicAddr) (UDPAddr_String conn) of
             Inl e \<Rightarrow> (Inl (Err ''signaling registration failed''), hp')
           | Inr u \<Rightarrow> (Inr (), hp')))"

text \<open>\<open>random\<close> are the eight bytes drawn for the session, \<open>evs\<close> the run of the attempt.\<close>

definition hp_Connect :: "(string \<Rightarrow> UDPAddr option) \<Rightarrow> stream option \<Rightarrow> bytes \<Rightarrow> punch_event list \<Rightarrow> HolePuncher \<Rightarrow> string \<Rightarrow>
    HolePunchResult res option" where
  "hp_Connect resolver server random evs hp remotePeerID =
     (case hp_localConn hp of
        None \<Rightarrow> Some (Inl (Err ''not initialized - call Initialize() first''))
      | Some conn \<Rightarrow>
          (case LookupPeer server remotePeerID of
             Inl e \<Rightarrow> Some (Inl (Err ''peer lookup failed''))
           | Inr peerInfo \<Rightarrow>
               (case ResolveUDPAddr resolver (pi_PublicAddr peerInfo) of
                  None \<Rightarrow> Some (Inl (Err ''invalid peer public address''))
                | Some publicAddr \<Rightarrow>
                    map_option Inr
                      (attemptHolePunch conn publicAddr (ResolveUDPAddr resolver (pi_LocalAddr peerInfo)) random evs))))"

definition GetPublicAddress :: "HolePuncher \<Rightarrow> MappedAddress option" where
  "GetPublicAddress hp = hp_publicAddr hp"

definition GetLocalConn :: "HolePuncher \<Rightarrow> UDPAddr option" where
  "GetLocalConn hp = hp_localConn hp"

definition hp_Close :: "HolePuncher \<Rightarrow> HolePuncher" where
  "hp_Close hp = hp\<lparr>hp_localConn := None\<rparr>"

text \<open>A result may come with an error: both are returned.\<close>

definition ConnectWithFallback :: "(string \<Rightarrow> UDPAddr option) \<Rightarrow> stream option \<Rightarrow> bytes \<Rightarrow> punch_event list \<Rightarrow> HolePuncher \<Rightarrow> string \<Rightarrow>
    (HolePunchResult option \<times> go_error option) option" where
  "ConnectWithFallback resolver server random evs hp remotePeerID =
     map_option (\<lambda>r. case r of
         Inl e \<Rightarrow> (None, Some e)
       | Inr result \<Rightarrow>
           if hr_Success result then (Some result, None)
           else (Some (result\<lparr>hr_Method := ''relay_needed''\<rparr>), Some (Err ''UDP hole punching failed after max attempts'')))
       (hp_Connect resolver server random evs hp remotePeerID)"

definition ScheduleAndPunch :: "bytes \<Rightarrow> punch_event list \<Rightarrow> HolePuncher \<Rightarrow> UDPAddr \<Rightarrow> HolePunchResult res option" where
  "ScheduleAndPunch random evs hp targetAddr =
     (case GetLocalConn hp of
        None \<Rightarrow> Some (Inl (Err ''not initialized''))
      | Some conn \<Rightarrow>
          map_option Inr
            (punch_outcome
               \<lparr>pc_targets = [targetAddr], pc_max = MaxPunchAttempts * 2, pc_method = ''simultaneous_open'', pc_errs = False,
                pc_session = random\<rparr> conn evs))"

section \<open>Attempts\<close>

abbreviation attempts :: "punch_state \<Rightarrow> int" where "attempts st \<equiv> hr_Attempts (ps_result st)"

text \<open>A packet of a session, and the opening ones.\<close>

definition carries :: "bytes \<Rightarrow> bytes \<Rightarrow> bool" where
  "carries sid p \<longleftrightarrow> 13 \<le> length p \<and> subslice 5 13 p = sid"

definition is_syn :: "UDPAddr \<times> bytes \<Rightarrow> bool" where
  "is_syn = (\<lambda>(addr, p). hd p = HolePunchSyn)"

lemma length_punch_packet [simp]: "length (punch_packet ty sid) = 13"
  by (simp add: punch_packet_def)

lemma carries_packet: "length sid = 8 \<Longrightarrow> carries sid (punch_packet ty sid)"
  by (simp add: carries_def punch_packet_def subslice_def)

lemma sendPunchPacket_simps [simp]:
  "ps_result (sendPunchPacket addr ty sid st) = ps_result st"
  "ps_returned (sendPunchPacket addr ty sid st) = ps_returned st"
  "ps_listening (sendPunchPacket addr ty sid st) = ps_listening st"
  "ps_successCh (sendPunchPacket addr ty sid st) = ps_successCh st"
  "ps_sent (sendPunchPacket addr ty sid st) = ps_sent st @ [(addr, punch_packet ty sid)]"
  by (simp_all add: sendPunchPacket_def)

lemma punch_tick_simps [simp]:
  "ps_result (punch_tick cfg st) = (ps_result st)\<lparr>hr_Attempts := attempts st + 1\<rparr>"
  "ps_returned (punch_tick cfg st) = ps_returned st"
  "ps_listening (punch_tick cfg st) = ps_listening st"
  "ps_successCh (punch_tick cfg st) = ps_successCh st"
  "ps_sent (punch_tick cfg st) = ps_sent st @ map (\<lambda>t. (t, punch_packet HolePunchSyn (pc_session cfg))) (pc_targets cfg)"
proof -
  let ?f = "\<lambda>s target. sendPunchPacket target HolePunchSyn (pc_session cfg) s"
  have "ps_result (foldl ?f s ts) = ps_result s" "ps_returned (foldl ?f s ts) = ps_returned s"
    "ps_listening (foldl ?f s ts) = ps_listening s" "ps_successCh (foldl ?f s ts) = ps_successCh s"
    "ps_sent (foldl ?f s ts) = ps_sent s @ map (\<lambda>t. (t, punch_packet HolePunchSyn (pc_session cfg))) ts" for s ts
    by (induction ts arbitrary: s) simp_all
  then show "ps_result (punch_tick cfg st) = (ps_result st)\<lparr>hr_Attempts := attempts st + 1\<rparr>"
    "ps_returned (punch_tick cfg st) = ps_returned st" "ps_listening (punch_tick cfg st) = ps_listening st"
    "ps_successCh (punch_tick cfg st) = ps_successCh st"
    "ps_sent (punch_tick cfg st) = ps_sent st @ map (\<lambda>t. (t, punch_packet HolePunchSyn (pc_session cfg))) (pc_targets cfg)"
    by (simp_all add: punch_tick_def)
qed

lemma loop_guard_simps [simp]:
  "attempts (loop_guard cfg st) = attempts st" "ps_sent (loop_guard cfg st) = ps_sent st"
  "ps_listening (loop_guard cfg st) = ps_listening st" "ps_successCh (loop_guard cfg st) = ps_successCh st"
  "ps_returned (loop_guard cfg st) \<longleftrightarrow> ps_returned st \<or> pc_max cfg \<le> attempts st"
  by (auto simp: loop_guard_def)

lemma loop_guard_success [simp]:
  "hr_Success (ps_result (loop_guard cfg st)) \<longleftrightarrow> hr_Success (ps_result st) \<and> attempts st < pc_max cfg"
  by (simp add: loop_guard_def)

lemma listen_cases:
  assumes "listenForPunch sid addr p st = st'"
  shows "st' = st \<or> carries sid p \<and> ps_result st' = ps_result st \<and> ps_returned st' = ps_returned st \<and>
    (\<exists>ty. ps_sent st' = ps_sent st \<or> ps_sent st' = ps_sent st @ [(addr, punch_packet ty sid)] \<and> ty \<noteq> HolePunchSyn)"
proof -
  have "carries sid p" if "13 \<le> length (take 64 p)" "subslice 5 13 (take 64 p) = sid"
    using that by (simp add: carries_def subslice_def min_def drop_take split: if_splits)
  then show ?thesis
    using assms
    by (auto simp: listenForPunch_def Let_def report_success_def punch_types split: if_splits)
qed

text \<open>
  One step of an attempt: how many attempts it has made, that only a returned loop has used them up, and
  the opening packets sent for each of them.
\<close>

definition counted :: "punch_cfg \<Rightarrow> punch_state \<Rightarrow> bool" where
  "counted cfg st \<longleftrightarrow> 0 \<le> attempts st \<and> attempts st \<le> pc_max cfg \<and> (ps_returned st \<or> attempts st < pc_max cfg) \<and>
     int (length (filter is_syn (ps_sent st))) = attempts st * int (length (pc_targets cfg))"

lemma is_syn_packet [simp]: "is_syn (a, punch_packet ty sid) \<longleftrightarrow> ty = HolePunchSyn"
  by (simp add: is_syn_def punch_packet_def)

lemma counted_step: "counted cfg st \<Longrightarrow> punch_step cfg st ev = Some st' \<Longrightarrow> counted cfg st'"
proof (cases ev)
  case (EvPacket addr p)
  assume "counted cfg st" "punch_step cfg st ev = Some st'"
  then show ?thesis
    using EvPacket listen_cases [of "pc_session cfg" addr p st st'] by (auto simp: counted_def split: if_splits)
qed (auto simp: counted_def distrib_right split: if_splits option.splits)

lemma counted_start: "0 < pc_max cfg \<Longrightarrow> counted cfg (punch_start conn)"
  by (simp add: counted_def punch_start_def)

lemma counted_run: "counted cfg st \<Longrightarrow> punch_run cfg st evs = Some st' \<Longrightarrow> counted cfg st'"
  by (induction evs arbitrary: st) (auto simp: bind_eq_Some_conv dest: counted_step)

text \<open>
  An attempt is bounded: along every interleaving of the loop and the listener at most five rounds are
  made, each sends one opening packet to every target, and the loop has returned when the fifth is out.
\<close>

theorem punch_attempts_bounded:
  assumes "punch_run (attempt_cfg publicAddr localAddr sid) (punch_start conn) evs = Some st"
  shows "0 \<le> attempts st \<and> attempts st \<le> 5 \<and> (attempts st = 5 \<longrightarrow> ps_returned st) \<and>
    int (length (filter is_syn (ps_sent st))) = attempts st * int (length (pc_targets (attempt_cfg publicAddr localAddr sid)))"
proof -
  let ?cfg = "attempt_cfg publicAddr localAddr sid"
  have "pc_max ?cfg = 5" by (simp add: attempt_cfg_def MaxPunchAttempts_def)
  moreover have "counted ?cfg st" by (rule counted_run [OF counted_start assms]) (simp add: calculation)
  ultimately show ?thesis by (auto simp: counted_def)
qed

definition addr1 :: UDPAddr where "addr1 = \<lparr>ua_IP = [192, 0, 2, 1], ua_Port = 7000\<rparr>"
definition addr2 :: UDPAddr where "addr2 = \<lparr>ua_IP = [192, 0, 2, 2], ua_Port = 7001\<rparr>"

lemma punch_attempts_bounded_witness:
  "\<exists>st. punch_run (attempt_cfg addr1 None (replicate 8 0)) (punch_start addr2) [EvTick, EvReadError, EvErr, EvTick] = Some st \<and>
     0 \<le> attempts st \<and> length (filter is_syn (ps_sent st)) = 2"
proof -
  let ?cfg = "attempt_cfg addr1 None (replicate 8 0)"
  obtain st where st: "punch_run ?cfg (punch_start addr2) [EvTick, EvReadError, EvErr, EvTick] = Some st" "attempts st = 2"
    by (simp add: loop_guard_def attempt_cfg_def MaxPunchAttempts_def punch_start_def)
  moreover have "length (pc_targets ?cfg) = 1" by (simp add: attempt_cfg_def)
  ultimately show ?thesis using punch_attempts_bounded [OF st(1)] by auto
qed

section \<open>Returning\<close>

text \<open>
  An infinite run in which the loop and the listener take steps or rest, and the ticker keeps firing as
  long as the loop has not returned.
\<close>

definition punch_trace :: "punch_cfg \<Rightarrow> UDPAddr \<Rightarrow> (nat \<Rightarrow> punch_state) \<Rightarrow> bool" where
  "punch_trace cfg conn \<sigma> \<longleftrightarrow> \<sigma> 0 = punch_start conn \<and>
     (\<forall>n. \<sigma> (Suc n) = \<sigma> n \<or> (\<exists>ev. punch_step cfg (\<sigma> n) ev = Some (\<sigma> (Suc n))))"

definition ticker_fair :: "punch_cfg \<Rightarrow> (nat \<Rightarrow> punch_state) \<Rightarrow> bool" where
  "ticker_fair cfg \<sigma> \<longleftrightarrow> (\<forall>n. \<exists>m \<ge> n. ps_returned (\<sigma> m) \<or> punch_step cfg (\<sigma> m) EvTick = Some (\<sigma> (Suc m)))"

lemma attempts_mono: "punch_step cfg st ev = Some st' \<Longrightarrow> attempts st \<le> attempts st'"
proof (cases ev)
  case (EvPacket addr p)
  assume "punch_step cfg st ev = Some st'"
  then show ?thesis
    using EvPacket listen_cases [of "pc_session cfg" addr p st st'] by (auto split: if_splits)
qed (auto split: if_splits option.splits)

lemma trace_counted: "punch_trace cfg conn \<sigma> \<Longrightarrow> 0 < pc_max cfg \<Longrightarrow> counted cfg (\<sigma> n)"
proof (induction n)
  case 0
  then show ?case by (simp add: punch_trace_def counted_start)
next
  case (Suc n)
  then show ?case by (metis counted_step punch_trace_def)
qed

lemma trace_mono: "punch_trace cfg conn \<sigma> \<Longrightarrow> n \<le> m \<Longrightarrow> attempts (\<sigma> n) \<le> attempts (\<sigma> m)"
proof (induction m)
  case 0
  then show ?case by simp
next
  case (Suc m)
  have "attempts (\<sigma> m) \<le> attempts (\<sigma> (Suc m))"
    using Suc.prems(1) attempts_mono unfolding punch_trace_def by (metis order_refl)
  then show ?case using Suc by (cases "n = Suc m") auto
qed

lemma trace_progress:
  assumes "punch_trace cfg conn \<sigma>" "ticker_fair cfg \<sigma>" "\<forall>n. \<not> ps_returned (\<sigma> n)" "0 < pc_max cfg"
  shows "\<exists>n. int k \<le> attempts (\<sigma> n)"
proof (induction k)
  case 0
  show ?case using trace_counted [OF assms(1,4), of 0] by (auto simp: counted_def)
next
  case (Suc k)
  then obtain n where n: "int k \<le> attempts (\<sigma> n)" by blast
  obtain m where m: "n \<le> m" "punch_step cfg (\<sigma> m) EvTick = Some (\<sigma> (Suc m))"
    using assms(2,3) unfolding ticker_fair_def by blast
  then have "\<sigma> (Suc m) = loop_guard cfg (punch_tick cfg (\<sigma> m))" by (auto split: if_splits)
  then have "attempts (\<sigma> (Suc m)) = attempts (\<sigma> m) + 1" by simp
  then show ?case using n trace_mono [OF assms(1) m(1)] by (intro exI [of _ "Suc m"]) simp
qed

text \<open>
  C20. Every attempt returns: on each run of the loop and the listener in which the ticker keeps firing, the
  loop has returned at some point, whatever arrives and however the channels are served.
\<close>

theorem punch_attempt_returns:
  assumes "punch_trace (attempt_cfg publicAddr localAddr sid) conn \<sigma>" "ticker_fair (attempt_cfg publicAddr localAddr sid) \<sigma>"
  shows "\<exists>n. ps_returned (\<sigma> n)"
proof (rule ccontr)
  let ?cfg = "attempt_cfg publicAddr localAddr sid"
  assume never: "\<not> (\<exists>n. ps_returned (\<sigma> n))"
  have max: "pc_max ?cfg = 5" by (simp add: attempt_cfg_def MaxPunchAttempts_def)
  then obtain n where "int 5 \<le> attempts (\<sigma> n)" using trace_progress [OF assms, of 5] never by auto
  then show False using trace_counted [OF assms(1), of n] max never by (auto simp: counted_def)
qed

text \<open>A run whose only events are ticks, which stops with the loop.\<close>

definition ticking :: "punch_cfg \<Rightarrow> UDPAddr \<Rightarrow> nat \<Rightarrow> punch_state" where
  "ticking cfg conn n = ((\<lambda>st. case punch_step cfg st EvTick of Some st' \<Rightarrow> st' | None \<Rightarrow> st) ^^ n) (punch_start conn)"

lemma punch_attempt_returns_witness:
  "\<exists>n. ps_returned (ticking (attempt_cfg addr1 None (replicate 8 0)) addr2 n)"
proof (rule punch_attempt_returns)
  show "punch_trace (attempt_cfg addr1 None (replicate 8 0)) addr2 (ticking (attempt_cfg addr1 None (replicate 8 0)) addr2)"
    by (auto simp: punch_trace_def ticking_def simp del: punch_step.simps split: option.split)
  show "ticker_fair (attempt_cfg addr1 None (replicate 8 0)) (ticking (attempt_cfg addr1 None (replicate 8 0)) addr2)"
    by (auto simp: ticker_fair_def ticking_def)
qed


section \<open>Two peers\<close>

text \<open>
  Two peers that punch towards each other. The network may lose, delay, repeat and reorder packets and
  change their source address; a listener may also get any datagram that does not carry its session.
\<close>

definition arrives :: "bytes \<Rightarrow> punch_state \<Rightarrow> punch_event \<Rightarrow> bool" where
  "arrives sid other ev = (case ev of EvPacket addr p \<Rightarrow> p \<in> snd ` set (ps_sent other) \<or> \<not> carries sid p | _ \<Rightarrow> True)"

inductive duo :: "punch_cfg \<Rightarrow> punch_cfg \<Rightarrow> UDPAddr \<Rightarrow> UDPAddr \<Rightarrow> punch_state \<Rightarrow> punch_state \<Rightarrow> bool"
  for cA cB connA connB where
  duo_start: "duo cA cB connA connB (punch_start connA) (punch_start connB)"
| duo_left: "duo cA cB connA connB a b \<Longrightarrow> punch_step cA a ev = Some a' \<Longrightarrow> arrives (pc_session cA) b ev \<Longrightarrow> duo cA cB connA connB a' b"
| duo_right: "duo cA cB connA connB a b \<Longrightarrow> punch_step cB b ev = Some b' \<Longrightarrow> arrives (pc_session cB) a ev \<Longrightarrow> duo cA cB connA connB a b'"

text \<open>A peer that has heard nothing of its session, and sends packets of it only.\<close>

definition unanswered :: "punch_cfg \<Rightarrow> punch_state \<Rightarrow> bool" where
  "unanswered cfg st \<longleftrightarrow> ps_successCh st = None \<and> \<not> hr_Success (ps_result st) \<and> (\<forall>(a, p) \<in> set (ps_sent st). carries (pc_session cfg) p)"

lemma unanswered_step:
  assumes "unanswered cfg st" "punch_step cfg st ev = Some st'" "length (pc_session cfg) = 8"
    and "\<And>addr p. ev = EvPacket addr p \<Longrightarrow> \<not> carries (pc_session cfg) p"
  shows "unanswered cfg st'"
proof (cases ev)
  case (EvPacket addr p)
  then show ?thesis
    using assms(1,2) assms(4) [OF EvPacket] listen_cases [of "pc_session cfg" addr p st st'] by (auto split: if_splits)
qed (use assms(1,2,3) in \<open>auto simp: unanswered_def carries_packet split: if_splits option.splits\<close>)

lemma arrives_foreign:
  assumes "unanswered cfg other" "pc_session cfg \<noteq> sid" "arrives sid other (EvPacket addr p)"
  shows "\<not> carries sid p"
  using assms by (auto simp: arrives_def unanswered_def carries_def)

lemma duo_unanswered:
  assumes "duo cA cB connA connB a b" "pc_session cA \<noteq> pc_session cB" "length (pc_session cA) = 8" "length (pc_session cB) = 8"
  shows "unanswered cA a \<and> unanswered cB b"
  using assms(1)
proof induction
  case duo_start
  show ?case by (simp add: unanswered_def punch_start_def)
next
  case (duo_left a b ev a')
  then show ?case
    using unanswered_step [of cA a ev a'] arrives_foreign [of cB b "pc_session cA"] assms by (auto dest: not_sym)
next
  case (duo_right a b ev b')
  then show ?case
    using unanswered_step [of cB b ev b'] arrives_foreign [of cA a "pc_session cB"] assms by auto
qed

text \<open>Listeners of one session: what the packets of an exchange do.\<close>

lemma listen_packet:
  assumes "length sid = 8"
  shows "listenForPunch sid addr (punch_packet HolePunchSyn sid) st = sendPunchPacket addr HolePunchSynAck sid st"
    "listenForPunch sid addr (punch_packet HolePunchSynAck sid) st =
       report_success addr (sendPunchPacket addr HolePunchAck sid st)"
proof -
  have "Uint32 (subslice 1 5 (punch_packet ty sid)) = punch_magic" "subslice 5 13 (punch_packet ty sid) = sid"
    "hd (punch_packet ty sid) = ty" for ty
    using assms by (simp_all add: punch_packet_def subslice_def)
  then show "listenForPunch sid addr (punch_packet HolePunchSyn sid) st = sendPunchPacket addr HolePunchSynAck sid st"
    "listenForPunch sid addr (punch_packet HolePunchSynAck sid) st =
       report_success addr (sendPunchPacket addr HolePunchAck sid st)"
    by (simp_all add: listenForPunch_def punch_types)
qed

lemma same_session_succeeds:
  assumes "pc_session cB = pc_session cA" "length (pc_session cA) = 8" "pc_targets cA \<noteq> []" "1 < pc_max cA"
  shows "\<exists>a b. duo cA cB connA connB a b \<and> hr_Success (ps_result a)"
proof -
  let ?sid = "pc_session cA" and ?t = "hd (pc_targets cA)"
  let ?a1 = "punch_tick cA (punch_start connA)"
  have tick: "punch_step cA (punch_start connA) EvTick = Some ?a1"
    using assms(4) by (simp add: punch_start_def loop_guard_def)
  have s1: "duo cA cB connA connB ?a1 (punch_start connB)"
    by (rule duo_left [OF duo_start tick]) (simp add: arrives_def)
  let ?b1 = "sendPunchPacket connA HolePunchSynAck ?sid (punch_start connB)"
  have syn: "punch_step cB (punch_start connB) (EvPacket connA (punch_packet HolePunchSyn ?sid)) = Some ?b1"
    using assms(1,2) by (simp add: listen_packet) (simp add: punch_start_def)
  have "punch_packet HolePunchSyn ?sid \<in> snd ` set (ps_sent ?a1)" using assms(3) by (cases "pc_targets cA") auto
  then have s2: "duo cA cB connA connB ?a1 ?b1"
    by (intro duo_right [OF s1 syn]) (simp add: arrives_def)
  let ?a2 = "report_success ?t (sendPunchPacket ?t HolePunchAck ?sid ?a1)"
  have ack: "punch_step cA ?a1 (EvPacket ?t (punch_packet HolePunchSynAck ?sid)) = Some ?a2"
    using assms(2) by (simp add: listen_packet) (simp add: punch_start_def)
  have s3: "duo cA cB connA connB ?a2 ?b1" by (rule duo_left [OF s2 ack]) (simp add: arrives_def)
  let ?a3 = "?a2\<lparr>ps_returned := True, ps_successCh := None, ps_result :=
      (ps_result ?a2)\<lparr>hr_Success := True, hr_RemoteAddr := Some ?t, hr_Method := pc_method cA\<rparr>\<rparr>"
  have fin: "punch_step cA ?a2 EvSuccess = Some ?a3" by (simp add: report_success_def punch_start_def)
  have "duo cA cB connA connB ?a3 ?b1" by (rule duo_left [OF s3 fin]) (simp add: arrives_def)
  moreover have "hr_Success (ps_result ?a3)" by simp
  ultimately show ?thesis by blast
qed

text \<open>
  C17. Hole punching works only between peers that drew the same session identifier: for identifiers of
  eight bytes some run of two peers ends in success just when the two are equal. Each side draws its
  identifier at random in \<open>Connect\<close> and never tells the other, so packets of the other side are ignored.
\<close>

theorem hole_punch_needs_same_session:
  assumes "length sidA = 8" "length sidB = 8"
  shows "(\<exists>a b. duo (attempt_cfg pubB locB sidA) (attempt_cfg pubA locA sidB) connA connB a b \<and> hr_Success (ps_result a))
    \<longleftrightarrow> sidA = sidB"
proof
  assume "\<exists>a b. duo (attempt_cfg pubB locB sidA) (attempt_cfg pubA locA sidB) connA connB a b \<and> hr_Success (ps_result a)"
  then obtain a b where "duo (attempt_cfg pubB locB sidA) (attempt_cfg pubA locA sidB) connA connB a b" "hr_Success (ps_result a)"
    by blast
  then show "sidA = sidB" using duo_unanswered assms by (fastforce simp: unanswered_def attempt_cfg_def)
next
  assume "sidA = sidB"
  then show "\<exists>a b. duo (attempt_cfg pubB locB sidA) (attempt_cfg pubA locA sidB) connA connB a b \<and> hr_Success (ps_result a)"
    using assms by (intro same_session_succeeds) (simp_all add: attempt_cfg_def MaxPunchAttempts_def)
qed

lemma hole_punch_needs_same_session_witness:
  "\<not> (\<exists>a b. duo (attempt_cfg addr2 None (replicate 8 1)) (attempt_cfg addr1 None (replicate 8 2)) addr1 addr2 a b \<and>
       hr_Success (ps_result a))"
  using hole_punch_needs_same_session [of "replicate 8 1" "replicate 8 2" addr2 None addr1 None addr1 addr2] by simp

section \<open>From discovery to punching\<close>


definition hp1 :: HolePuncher where
  "hp1 = (NewHolePuncher ''signal:1'' ''a'')\<lparr>hp_stunClient := \<lparr>sc_servers = [''192.0.2.1:3478''], sc_timeout = 1\<rparr>\<rparr>"


end
