(* ===== verification/Relay.thy ===== *)
theory Relay
  imports HolePunch
begin

text \<open>
  Model of \<open>internal/nat/relay.go\<close>: the relay server as a transition system, its client, and the strategy
  that falls back from hole punching to the relay. A handler runs in a goroutine of its own, so the
  server is a table under a lock, the connections, and for each connection the phase its handler is in;
  an event is one section of a handler, a copying loop that moves some bytes, or something a client
  does. Deadlines show as events that may happen: a read that fails, a timer that fires.
\<close>

section \<open>The server\<close>

definition RelayMsgConnect :: byte where "RelayMsgConnect = 0x01"
definition RelayMsgConnectAck :: byte where "RelayMsgConnectAck = 0x02"
definition RelayMsgError :: byte where "RelayMsgError = 0xFF"
definition RelayBufferSize :: nat where "RelayBufferSize = 32 * 1024"

lemmas relay_types = RelayMsgConnect_def RelayMsgConnectAck_def RelayMsgError_def

record RelaySession =
  se_ID :: string
  se_PeerA :: nat
  se_PeerB :: nat

record RelayServer =
  rs_sessions :: "string \<rightharpoonup> RelaySession"
  rs_waiting :: "string \<rightharpoonup> nat"
  rs_done :: bool

definition NewRelayServer :: RelayServer where
  "NewRelayServer = \<lparr>rs_sessions = Map.empty, rs_waiting = Map.empty, rs_done = False\<rparr>"

text \<open>
  A connection: what its client has written so far, what of it the server has not read, and what the
  server wrote. Handlers end in \<open>Finished\<close>; \<open>Relaying\<close> keeps the session and which of the loops that copy
  to the own connection and from it still run.
\<close>

record relay_conn =
  rc_sent :: bytes
  rc_unread :: bytes
  rc_received :: bytes
  rc_closed :: bool

datatype relay_phase = Reading | Waiting string | Relaying RelaySession bool bool | Finished

record relay_world =
  rw_server :: RelayServer
  rw_conn :: "nat \<Rightarrow> relay_conn"
  rw_phase :: "nat \<rightharpoonup> relay_phase"

definition relay_message :: "byte \<Rightarrow> bytes \<Rightarrow> bytes" where
  "relay_message ty body = ty # PutUint32 (of_nat (length body)) @ body"

text \<open>A write to a closed connection fails, which nobody looks at.\<close>

definition conn_write :: "nat \<Rightarrow> bytes \<Rightarrow> relay_world \<Rightarrow> relay_world" where
  "conn_write c data w =
     w\<lparr>rw_conn := (rw_conn w)(c := (let k = rw_conn w c in if rc_closed k then k else k\<lparr>rc_received := rc_received k @ data\<rparr>))\<rparr>"

definition conn_close :: "nat \<Rightarrow> relay_world \<Rightarrow> relay_world" where
  "conn_close c w = w\<lparr>rw_conn := (rw_conn w)(c := (rw_conn w c)\<lparr>rc_closed := True\<rparr>)\<rparr>"

definition set_phase :: "nat \<Rightarrow> relay_phase \<Rightarrow> relay_world \<Rightarrow> relay_world" where
  "set_phase c p w = w\<lparr>rw_phase := (rw_phase w)(c \<mapsto> p)\<rparr>"

definition relay_sendConnectAck :: "nat \<Rightarrow> string \<Rightarrow> relay_world \<Rightarrow> relay_world" where
  "relay_sendConnectAck c sessionID = conn_write c (relay_message RelayMsgConnectAck (bytes_of sessionID))"

definition relay_sendError :: "nat \<Rightarrow> string \<Rightarrow> relay_world \<Rightarrow> relay_world" where
  "relay_sendError c errMsg = conn_write c (relay_message RelayMsgError (bytes_of errMsg))"

text \<open>The end of a handler, which closes its connection.\<close>

definition handler_return :: "nat \<Rightarrow> relay_world \<Rightarrow> relay_world" where
  "handler_return c w = set_phase c Finished (conn_close c w)"

text \<open>
  The connect request in what a client has written: \<open>None\<close> while it is incomplete, a refusal, or the
  session with the bytes after the request.
\<close>

definition read_connect :: "bytes \<Rightarrow> (string + string \<times> bytes) option" where
  "read_connect input =
     (if length input < 5 then None
      else if hd input \<noteq> RelayMsgConnect then Some (Inl ''expected connect message'')
      else
        let sessionIDLen = unat (Uint32 (subslice 1 5 input)) in
        if sessionIDLen > 256 then Some (Inl ''session ID too long'')
        else if length input < 5 + sessionIDLen then None
        else Some (Inr (string_of (subslice 5 (5 + sessionIDLen) input), drop (5 + sessionIDLen) input)))"

text \<open>The section of \<open>handleConnection\<close> from the request to the wait or the relay.\<close>

definition join_session :: "nat \<Rightarrow> string \<Rightarrow> relay_world \<Rightarrow> relay_world" where
  "join_session c sessionID w =
     (let rs = rw_server w in
      case rs_waiting rs sessionID of
        Some waitingConn \<Rightarrow>
          let session = \<lparr>se_ID = sessionID, se_PeerA = waitingConn, se_PeerB = c\<rparr>;
              w1 = w\<lparr>rw_server := rs\<lparr>rs_waiting := (rs_waiting rs)(sessionID := None),
                                     rs_sessions := (rs_sessions rs)(sessionID \<mapsto> session)\<rparr>\<rparr>
          in set_phase c (Relaying session True True)
               (relay_sendConnectAck c sessionID (relay_sendConnectAck waitingConn sessionID w1))
      | None \<Rightarrow>
          set_phase c (Waiting sessionID) (w\<lparr>rw_server := rs\<lparr>rs_waiting := (rs_waiting rs)(sessionID \<mapsto> c)\<rparr>\<rparr>))"

definition relay_handleConnection :: "nat \<Rightarrow> relay_world \<Rightarrow> relay_world option" where
  "relay_handleConnection c w =
     (case read_connect (rc_unread (rw_conn w c)) of
        None \<Rightarrow> None
      | Some (Inl errMsg) \<Rightarrow> Some (handler_return c (relay_sendError c errMsg w))
      | Some (Inr (sessionID, rest)) \<Rightarrow>
          Some (join_session c sessionID (w\<lparr>rw_conn := (rw_conn w)(c := (rw_conn w c)\<lparr>rc_unread := rest\<rparr>)\<rparr>)))"

text \<open>The timer of a waiting handler. It is not stopped when the connection is paired.\<close>

definition wait_timeout :: "nat \<Rightarrow> string \<Rightarrow> relay_world \<Rightarrow> relay_world" where
  "wait_timeout c sessionID w =
     handler_return c (relay_sendError c ''timeout waiting for peer''
       (w\<lparr>rw_server := (rw_server w)\<lparr>rs_waiting := (rs_waiting (rw_server w))(sessionID := None)\<rparr>\<rparr>))"

text \<open>One round of a copying loop: a read of at most the buffer, and a write of what was read.\<close>

definition copyWithHeader :: "nat \<Rightarrow> nat \<Rightarrow> nat \<Rightarrow> relay_world \<Rightarrow> relay_world" where
  "copyWithHeader dst src n w =
     (let data = take n (rc_unread (rw_conn w src)) in
      conn_write dst data
        (w\<lparr>rw_conn := (rw_conn w)(src := (rw_conn w src)\<lparr>rc_unread := drop n (rc_unread (rw_conn w src))\<rparr>)\<rparr>))"

definition session_Close :: "RelaySession \<Rightarrow> relay_world \<Rightarrow> relay_world" where
  "session_Close session w = conn_close (se_PeerB session) (conn_close (se_PeerA session) w)"

definition relay_end :: "nat \<Rightarrow> RelaySession \<Rightarrow> relay_world \<Rightarrow> relay_world" where
  "relay_end c session w =
     handler_return c (session_Close session
       (w\<lparr>rw_server := (rw_server w)\<lparr>rs_sessions := (rs_sessions (rw_server w))(se_ID session := None)\<rparr>\<rparr>))"

text \<open>
  After the shutdown \<open>RelayServer.Close\<close> goes over the two tables and closes the connections, here one entry
  at a time.
\<close>

definition close_waiting_entry :: "string \<Rightarrow> relay_world \<Rightarrow> relay_world" where
  "close_waiting_entry sessionID w =
     (case rs_waiting (rw_server w) sessionID of None \<Rightarrow> w | Some conn \<Rightarrow> conn_close conn w)"

definition close_session_entry :: "string \<Rightarrow> relay_world \<Rightarrow> relay_world" where
  "close_session_entry sessionID w =
     (case rs_sessions (rw_server w) sessionID of None \<Rightarrow> w | Some session \<Rightarrow> session_Close session w)"

datatype relay_event =
    Accept nat | ClientSends nat bytes | Request nat | ReadFails nat | TimedOut nat | Shutdown | WaitDone nat
  | CloseEntry string | CopyToB nat nat | CopyToA nat nat | LoopEnds nat bool | RelayEnds nat

definition open_pair :: "RelaySession \<Rightarrow> relay_world \<Rightarrow> bool" where
  "open_pair s w \<longleftrightarrow> \<not> rc_closed (rw_conn w (se_PeerA s)) \<and> \<not> rc_closed (rw_conn w (se_PeerB s))"

fun relay_step :: "relay_world \<Rightarrow> relay_event \<Rightarrow> relay_world option" where
  "relay_step w (Accept c) =
     (if rw_phase w c \<noteq> None \<or> rs_done (rw_server w) then None
      else Some (set_phase c Reading (w\<lparr>rw_conn := (rw_conn w)(c := \<lparr>rc_sent = [], rc_unread = [], rc_received = [], rc_closed = False\<rparr>)\<rparr>)))"
| "relay_step w (ClientSends c data) =
     (if rw_phase w c = None \<or> rc_closed (rw_conn w c) then None
      else Some (w\<lparr>rw_conn := (rw_conn w)(c := (rw_conn w c)\<lparr>rc_sent := rc_sent (rw_conn w c) @ data,
                                               rc_unread := rc_unread (rw_conn w c) @ data\<rparr>)\<rparr>))"
| "relay_step w (Request c) = (if rw_phase w c = Some Reading then relay_handleConnection c w else None)"
| "relay_step w (ReadFails c) = (if rw_phase w c = Some Reading then Some (handler_return c w) else None)"
| "relay_step w (TimedOut c) =
     (case rw_phase w c of Some (Waiting sessionID) \<Rightarrow> Some (wait_timeout c sessionID w) | _ \<Rightarrow> None)"
| "relay_step w Shutdown = (if rs_done (rw_server w) then None else Some (w\<lparr>rw_server := (rw_server w)\<lparr>rs_done := True\<rparr>\<rparr>))"
| "relay_step w (WaitDone c) =
     (case rw_phase w c of
        Some (Waiting sessionID) \<Rightarrow> if rs_done (rw_server w) then Some (handler_return c w) else None
      | _ \<Rightarrow> None)"
| "relay_step w (CloseEntry sessionID) =
     (if \<not> rs_done (rw_server w) then None
      else Some (close_session_entry sessionID (close_waiting_entry sessionID w)))"
| "relay_step w (CopyToB c n) =
     (case rw_phase w c of
        Some (Relaying s True ba) \<Rightarrow>
          if 0 < n \<and> n \<le> RelayBufferSize \<and> n \<le> length (rc_unread (rw_conn w (se_PeerA s))) \<and> open_pair s w
          then Some (copyWithHeader (se_PeerB s) (se_PeerA s) n w) else None
      | _ \<Rightarrow> None)"
| "relay_step w (CopyToA c n) =
     (case rw_phase w c of
        Some (Relaying s ab True) \<Rightarrow>
          if 0 < n \<and> n \<le> RelayBufferSize \<and> n \<le> length (rc_unread (rw_conn w (se_PeerB s))) \<and> open_pair s w
          then Some (copyWithHeader (se_PeerA s) (se_PeerB s) n w) else None
      | _ \<Rightarrow> None)"
| "relay_step w (LoopEnds c toB) =
     (case rw_phase w c of
        Some (Relaying s ab ba) \<Rightarrow> Some (set_phase c (if toB then Relaying s False ba else Relaying s ab False) w)
      | _ \<Rightarrow> None)"
| "relay_step w (RelayEnds c) =
     (case rw_phase w c of Some (Relaying s False False) \<Rightarrow> Some (relay_end c s w) | _ \<Rightarrow> None)"

definition relay_init :: relay_world where
  "relay_init = \<lparr>rw_server = NewRelayServer, rw_conn = (\<lambda>c. \<lparr>rc_sent = [], rc_unread = [], rc_received = [], rc_closed = True\<rparr>),
     rw_phase = Map.empty\<rparr>"

inductive relay_reach :: "relay_world \<Rightarrow> bool" where
  reach_init: "relay_reach relay_init"
| reach_step: "relay_reach w \<Longrightarrow> relay_step w ev = Some w' \<Longrightarrow> relay_reach w'"


section \<open>The client and the strategy\<close>

text \<open>
  \<open>Connect\<close> of the relay client: the session of the acknowledgement and the connection, from which
  the relayed data is read. The text of an error that ends early is filled up with zero bytes.
\<close>

definition relay_Connect :: "stream option \<Rightarrow> string \<Rightarrow> (string \<times> reader) res" where
  "relay_Connect conn sessionID =
     (case conn of
        None \<Rightarrow> Inl (Err ''connecting to relay'')
      | Some st \<Rightarrow>
          (case Write (sm_out st) (relay_message RelayMsgConnect (bytes_of sessionID)) of
             (False, w) \<Rightarrow> Inl (Err ''sending connect request'')
           | (True, w) \<Rightarrow>
               (case ReadFull 5 (sm_reply st (wr_bytes w)) of
                  (header, Some e, r1) \<Rightarrow> Inl (Err ''reading response'')
                | (header, None, r1) \<Rightarrow>
                    let msgType = hd header; msgLen = unat (Uint32 (drop 1 header)) in
                    case ReadFull msgLen r1 of
                      (body, e, r2) \<Rightarrow>
                        if msgType = RelayMsgError then
                          Inl (ErrMsg ''relay error'' (string_of (body @ replicate (msgLen - length body) 0)))
                        else if msgType \<noteq> RelayMsgConnectAck then Inl (Err ''unexpected response'')
                        else if e \<noteq> None then Inl (Err ''reading session ID'')
                        else Inr (string_of body, r2))))"

record ConnectionResult =
  cr_Method :: string
  cr_UDPConn :: "UDPAddr option"
  cr_RelayConn :: "reader option"
  cr_RemoteAddr :: "UDPAddr option"
  cr_Attempts :: int
  cr_HolePunchAttempts :: int

definition new_result :: ConnectionResult where
  "new_result = \<lparr>cr_Method = [], cr_UDPConn = None, cr_RelayConn = None, cr_RemoteAddr = None, cr_Attempts = 0,
     cr_HolePunchAttempts = 0\<rparr>"

record FallbackStrategy =
  fs_holePuncher :: HolePuncher
  fs_relayAddr :: string

definition NewFallbackStrategy :: "string \<Rightarrow> string \<Rightarrow> string \<Rightarrow> FallbackStrategy" where
  "NewFallbackStrategy signalingAddr relayAddr peerID =
     \<lparr>fs_holePuncher = NewHolePuncher signalingAddr peerID, fs_relayAddr = relayAddr\<rparr>"

text \<open>The result is returned together with the error. \<open>relay\<close> is the connection to the relay.\<close>

definition connectViaRelay :: "stream option \<Rightarrow> FallbackStrategy \<Rightarrow> string \<Rightarrow> ConnectionResult \<Rightarrow> ConnectionResult \<times> go_error option" where
  "connectViaRelay relay fs sessionID result =
     (if fs_relayAddr fs = [] then (result, Some (Err ''UDP hole punching failed after max attempts''))
      else case relay_Connect relay sessionID of
             Inl e \<Rightarrow> (result, Some (Err ''relay connection failed''))
           | Inr (sid, conn) \<Rightarrow> (result\<lparr>cr_RelayConn := Some conn\<rparr>, None))"

record fallback_env =
  fe_nets :: "nat \<Rightarrow> stun_net"
  fe_socket :: "UDPAddr option"
  fe_register :: "stream option"
  fe_resolver :: "string \<Rightarrow> UDPAddr option"
  fe_lookup :: "stream option"
  fe_random :: bytes
  fe_events :: "punch_event list"
  fe_relay :: "stream option"

text \<open>
  \<open>FallbackStrategy.Connect\<close>; the outer option is \<open>None\<close> while the attempt runs. After a failed
  \<open>Connect\<close> of the hole puncher its result is nil, and the next line reads a field of it.
\<close>

definition fs_Connect :: "fallback_env \<Rightarrow> FallbackStrategy \<Rightarrow> string \<Rightarrow> string \<Rightarrow> (ConnectionResult \<times> go_error option) res option" where
  "fs_Connect env fs remotePeerID sessionID =
     (case Initialize (fe_nets env) (fe_socket env) (fe_register env) (fs_holePuncher fs) of
        (Inl e, hp) \<Rightarrow> Some (Inr (connectViaRelay (fe_relay env) fs sessionID (new_result\<lparr>cr_Method := ''relay''\<rparr>)))
      | (Inr u, hp) \<Rightarrow>
          (case hp_Connect (fe_resolver env) (fe_lookup env) (fe_random env) (fe_events env) hp remotePeerID of
             None \<Rightarrow> None
           | Some (Inl e) \<Rightarrow> Some (Inl (Panic ''nil pointer dereference''))
           | Some (Inr hpResult) \<Rightarrow>
               if hr_Success hpResult then
                 Some (Inr (new_result\<lparr>cr_Method := ''hole_punch'', cr_UDPConn := Some (hr_Conn hpResult),
                   cr_RemoteAddr := hr_RemoteAddr hpResult, cr_Attempts := hr_Attempts hpResult\<rparr>, None))
               else
                 Some (Inr (connectViaRelay (fe_relay env) fs sessionID
                   (new_result\<lparr>cr_Method := ''relay'', cr_HolePunchAttempts := hr_Attempts hpResult\<rparr>)))))"

text \<open>\<open>ConnectionResult.GetConn\<close>: the relayed connection before the direct one.\<close>

definition cr_GetConn :: "ConnectionResult \<Rightarrow> (reader + UDPAddr) option" where
  "cr_GetConn cr =
     (case cr_RelayConn cr of Some c \<Rightarrow> Some (Inl c) | None \<Rightarrow> map_option Inr (cr_UDPConn cr))"

section \<open>The invariant of the server\<close>

abbreviation connect_msg :: "string \<Rightarrow> bytes" where "connect_msg sid \<equiv> relay_message RelayMsgConnect (bytes_of sid)"
abbreviation ack_msg :: "string \<Rightarrow> bytes" where "ack_msg sid \<equiv> relay_message RelayMsgConnectAck (bytes_of sid)"

lemma world_simps [simp]:
  "rw_server (conn_write c d w) = rw_server w" "rw_phase (conn_write c d w) = rw_phase w"
  "rw_server (conn_close c w) = rw_server w" "rw_phase (conn_close c w) = rw_phase w"
  "rw_server (set_phase c p w) = rw_server w" "rw_conn (set_phase c p w) = rw_conn w"
  "rw_phase (set_phase c p w) = (rw_phase w)(c \<mapsto> p)"
  "rw_conn (conn_close c w) = (rw_conn w)(c := (rw_conn w c)\<lparr>rc_closed := True\<rparr>)"
  "rw_conn (conn_write c d w) = (rw_conn w)(c := if rc_closed (rw_conn w c) then rw_conn w c
     else (rw_conn w c)\<lparr>rc_received := rc_received (rw_conn w c) @ d\<rparr>)"
  by (simp_all add: conn_write_def conn_close_def set_phase_def Let_def)

text \<open>The request that was read is the one a client sends for this session.\<close>

lemma read_connect_Inr:
  assumes "read_connect input = Some (Inr (sid, rest))"
  shows "input = connect_msg sid @ rest" "length sid \<le> 256"
proof -
  let ?n = "unat (Uint32 (subslice 1 5 input))"
  have i: "5 + ?n \<le> length input" "hd input = RelayMsgConnect" "?n \<le> 256"
      "sid = string_of (subslice 5 (5 + ?n) input)" "rest = drop (5 + ?n) input"
    using assms by (auto simp: read_connect_def Let_def not_less split: if_splits)
  have len: "length (subslice 5 (5 + ?n) input) = ?n" "length (subslice 1 5 input) = 4" using i(1) by simp_all
  have "take 1 input = [hd input]" using i(1) by (cases input) simp_all
  moreover have "take 1 input @ subslice 1 5 input = take 5 input"
    using take_add [of 1 4 input] by (simp add: subslice_def)
  moreover have "take 5 input @ subslice 5 (5 + ?n) input @ drop (5 + ?n) input = input"
    using take_add [of 5 ?n input] append_take_drop_id [of "5 + ?n" input] by (simp add: subslice_def)
  ultimately have "input = hd input # subslice 1 5 input @ subslice 5 (5 + ?n) input @ drop (5 + ?n) input"
    by (metis append_Cons append_Nil append_assoc)
  moreover have "subslice 1 5 input = PutUint32 (of_nat (length (bytes_of sid)))"
    using len i(4) by simp
  ultimately show "input = connect_msg sid @ rest" using i(2,4,5) by (simp add: relay_message_def)
  show "length sid \<le> 256" using i(3,4) len by simp
qed

lemma read_connect_msg: "length sid \<le> 256 \<Longrightarrow> read_connect (connect_msg sid @ rest) = Some (Inr (sid, rest))"
  by (simp add: read_connect_def relay_message_def subslice_def Let_def drop_Cons')

text \<open>A connection of which the request is all that was handled.\<close>

definition fresh_conn :: "string \<Rightarrow> relay_conn \<Rightarrow> bool" where
  "fresh_conn sid k \<longleftrightarrow> rc_closed k \<or> rc_sent k = connect_msg sid @ rc_unread k \<and> rc_received k = []"

text \<open>Each side has received the acknowledgement and what the other one sent, up to what is still unread.\<close>

definition forwarded :: "string \<Rightarrow> relay_conn \<Rightarrow> relay_conn \<Rightarrow> bool" where
  "forwarded sid from to \<longleftrightarrow>
     (\<exists>data. rc_sent from = connect_msg sid @ data @ rc_unread from \<and> rc_received to = ack_msg sid @ data)"

definition relay_ok :: "relay_world \<Rightarrow> nat \<Rightarrow> RelaySession \<Rightarrow> bool" where
  "relay_ok w b s \<longleftrightarrow> se_PeerB s = b \<and> rw_phase w (se_PeerA s) \<in> {Some (Waiting (se_ID s)), Some Finished} \<and>
     se_PeerA s \<notin> ran (rs_waiting (rw_server w)) \<and>
     (open_pair s w \<longrightarrow> forwarded (se_ID s) (rw_conn w (se_PeerA s)) (rw_conn w b) \<and>
        forwarded (se_ID s) (rw_conn w b) (rw_conn w (se_PeerA s)))"

definition relays :: "relay_world \<Rightarrow> nat \<Rightarrow> RelaySession \<Rightarrow> bool" where
  "relays w b s \<longleftrightarrow> (\<exists>x y. rw_phase w b = Some (Relaying s x y))"

abbreviation handled :: "relay_world \<Rightarrow> nat \<Rightarrow> bool" where
  "handled w c \<equiv> rw_phase w c \<noteq> None \<and> rw_phase w c \<noteq> Some Reading"

definition relay_inv :: "relay_world \<Rightarrow> bool" where
  "relay_inv w \<longleftrightarrow>
     (\<forall>sid c. rs_waiting (rw_server w) sid = Some c \<longrightarrow>
        rw_phase w c \<in> {Some (Waiting sid), Some Finished} \<and> fresh_conn sid (rw_conn w c) \<and>
        (\<forall>sid'. rs_waiting (rw_server w) sid' = Some c \<longrightarrow> sid' = sid)) \<and>
     (\<forall>c. rw_phase w c = Some Reading \<longrightarrow>
        \<not> rc_closed (rw_conn w c) \<and> rc_sent (rw_conn w c) = rc_unread (rw_conn w c) \<and> rc_received (rw_conn w c) = []) \<and>
     (\<forall>c. rw_phase w c = Some Finished \<longrightarrow> rc_closed (rw_conn w c)) \<and>
     (\<forall>b s. relays w b s \<longrightarrow> relay_ok w b s) \<and>
     (\<forall>b b' s s'. relays w b s \<longrightarrow> relays w b' s' \<longrightarrow> se_PeerA s = se_PeerA s' \<longrightarrow> b = b') \<and>
     (\<forall>sid s. rs_sessions (rw_server w) sid = Some s \<longrightarrow> handled w (se_PeerA s) \<and> handled w (se_PeerB s))"

lemma relay_invD:
  assumes "relay_inv w"
  shows "rs_waiting (rw_server w) sid = Some c \<Longrightarrow> rw_phase w c \<in> {Some (Waiting sid), Some Finished} \<and> fresh_conn sid (rw_conn w c)"
    "rs_waiting (rw_server w) sid = Some c \<Longrightarrow> rs_waiting (rw_server w) sid' = Some c \<Longrightarrow> sid' = sid"
    "rw_phase w c = Some Reading \<Longrightarrow>
      \<not> rc_closed (rw_conn w c) \<and> rc_sent (rw_conn w c) = rc_unread (rw_conn w c) \<and> rc_received (rw_conn w c) = []"
    "rw_phase w c = Some Finished \<Longrightarrow> rc_closed (rw_conn w c)"
    "relays w b s \<Longrightarrow> relay_ok w b s"
    "relays w b s \<Longrightarrow> relays w b' s' \<Longrightarrow> se_PeerA s = se_PeerA s' \<Longrightarrow> b = b'"
    "rs_sessions (rw_server w) sid = Some s \<Longrightarrow> handled w (se_PeerA s) \<and> handled w (se_PeerB s)"
  using assms unfolding relay_inv_def by blast+

lemma relay_invI:
  assumes "\<And>sid c. rs_waiting (rw_server w) sid = Some c \<Longrightarrow> rw_phase w c \<in> {Some (Waiting sid), Some Finished} \<and> fresh_conn sid (rw_conn w c)"
    "\<And>sid sid' c. rs_waiting (rw_server w) sid = Some c \<Longrightarrow> rs_waiting (rw_server w) sid' = Some c \<Longrightarrow> sid' = sid"
    "\<And>c. rw_phase w c = Some Reading \<Longrightarrow>
      \<not> rc_closed (rw_conn w c) \<and> rc_sent (rw_conn w c) = rc_unread (rw_conn w c) \<and> rc_received (rw_conn w c) = []"
    "\<And>c. rw_phase w c = Some Finished \<Longrightarrow> rc_closed (rw_conn w c)"
    "\<And>b s. relays w b s \<Longrightarrow> relay_ok w b s"
    "\<And>b b' s s'. relays w b s \<Longrightarrow> relays w b' s' \<Longrightarrow> se_PeerA s = se_PeerA s' \<Longrightarrow> b = b'"
    "\<And>sid s. rs_sessions (rw_server w) sid = Some s \<Longrightarrow> handled w (se_PeerA s) \<and> handled w (se_PeerB s)"
  shows "relay_inv w"
  unfolding relay_inv_def using assms by blast

lemma relay_okD:
  assumes "relay_ok w b s"
  shows "se_PeerB s = b" "rw_phase w (se_PeerA s) \<in> {Some (Waiting (se_ID s)), Some Finished}"
    "rs_waiting (rw_server w) sid \<noteq> Some (se_PeerA s)"
    "open_pair s w \<Longrightarrow> forwarded (se_ID s) (rw_conn w (se_PeerA s)) (rw_conn w b) \<and>
       forwarded (se_ID s) (rw_conn w b) (rw_conn w (se_PeerA s))"
  using assms unfolding relay_ok_def by (auto simp: ranI)

text \<open>
  Steps that end a handler: its connection is closed, and every other connection and handler stays.
\<close>

lemma inv_return:
  assumes inv: "relay_inv w" and "rw_server w' = rw_server w" "rw_phase w' = (rw_phase w)(c \<mapsto> Finished)"
    and conn: "\<And>x. x \<noteq> c \<Longrightarrow> rw_conn w' x = rw_conn w x" "rc_closed (rw_conn w' c)"
  shows "relay_inv w'"
proof -
  have rel: "relays w' b s \<longleftrightarrow> b \<noteq> c \<and> relays w b s" for b s by (auto simp: relays_def assms)
  have ok: "relay_ok w' b s" if "relays w' b s" for b s
  proof -
    have b: "b \<noteq> c" "relay_ok w b s" using that rel relay_invD(5) [OF inv] by auto
    then have "open_pair s w' \<Longrightarrow> open_pair s w \<and> se_PeerA s \<noteq> c" using conn by (metis open_pair_def relay_okD(1))
    then show ?thesis using relay_okD [OF b(2)] b(1) conn(1) by (auto simp: relay_ok_def assms ran_def)
  qed
  have "fresh_conn sid (rw_conn w' x)" if "rs_waiting (rw_server w) sid = Some x" for sid x
    using relay_invD(1) [OF inv that] conn by (cases "x = c") (auto simp: fresh_conn_def)
  then show ?thesis
    unfolding relay_inv_def
    using relay_invD(1-4,7) [OF inv] relay_invD(6) [OF inv] conn ok rel by (auto simp: assms)
qed

lemma inv_close:
  assumes inv: "relay_inv w" and "rw_phase w c \<noteq> Some Reading"
  shows "relay_inv (conn_close c w)"
proof -
  let ?w = "conn_close c w"
  have rel: "relays ?w b s \<longleftrightarrow> relays w b s" for b s by (simp add: relays_def)
  have ok: "relay_ok ?w b s" if "relays w b s" for b s
  proof -
    have b: "relay_ok w b s" using that relay_invD(5) [OF inv] by auto
    have "open_pair s ?w \<Longrightarrow> open_pair s w \<and> se_PeerA s \<noteq> c \<and> se_PeerB s \<noteq> c" by (auto simp: open_pair_def split: if_splits)
    then show ?thesis using relay_okD [OF b] by (auto simp: relay_ok_def ran_def)
  qed
  have "fresh_conn sid (rw_conn ?w x)" if "rs_waiting (rw_server w) sid = Some x" for sid x
    using relay_invD(1) [OF inv that] by (auto simp: fresh_conn_def)
  then show ?thesis
    unfolding relay_inv_def rel
    using relay_invD(1-4,7) [OF inv] relay_invD(6) [OF inv] assms(2) ok by auto
qed

lemma inv_server:
  assumes inv: "relay_inv w" and "rw_phase w' = rw_phase w" "rw_conn w' = rw_conn w"
    and "\<And>sid c. rs_waiting (rw_server w') sid = Some c \<Longrightarrow> rs_waiting (rw_server w) sid = Some c"
    and "\<And>sid s. rs_sessions (rw_server w') sid = Some s \<Longrightarrow> rs_sessions (rw_server w) sid = Some s"
  shows "relay_inv w'"
proof -
  have rel: "relays w' b s \<longleftrightarrow> relays w b s" for b s by (simp add: relays_def assms)
  have ok: "relay_ok w' b s" if "relays w b s" for b s
    using relay_invD(5) [OF inv that] assms(4) by (auto simp: relay_ok_def open_pair_def assms(2,3) ran_def)
  show ?thesis
    by (rule relay_invI; (unfold rel assms(2,3))?) (blast dest: assms(4,5) relay_invD [OF inv] ok)+
qed

text \<open>A client writes: its connection grows at both ends of what is kept of it.\<close>

lemma forwarded_sends:
  "forwarded sid k t \<Longrightarrow> forwarded sid (k\<lparr>rc_sent := rc_sent k @ d, rc_unread := rc_unread k @ d\<rparr>) t"
  "forwarded sid t k \<Longrightarrow> forwarded sid t (k\<lparr>rc_sent := x, rc_unread := y\<rparr>)"
  by (auto simp: forwarded_def)

lemma inv_sends:
  assumes inv: "relay_inv w" and k: "k = (rw_conn w c)\<lparr>rc_sent := rc_sent (rw_conn w c) @ d, rc_unread := rc_unread (rw_conn w c) @ d\<rparr>"
  shows "relay_inv (w\<lparr>rw_conn := (rw_conn w)(c := k)\<rparr>)" (is "relay_inv ?w")
proof -
  have rel: "relays ?w b s \<longleftrightarrow> relays w b s" for b s by (simp add: relays_def)
  have ok: "relay_ok ?w b s" if r: "relays w b s" for b s
  proof -
    note b = relay_okD [OF relay_invD(5) [OF inv r]]
    have "se_PeerA s \<noteq> b" using b(2) r by (auto simp: relays_def)
    moreover have "open_pair s ?w \<longleftrightarrow> open_pair s w" by (simp add: open_pair_def k)
    ultimately show ?thesis using b by (auto simp: relay_ok_def ran_def k forwarded_sends)
  qed
  show ?thesis
    by (rule relay_invI; (unfold rel)?)
       (use relay_invD [OF inv] ok in \<open>auto simp: fresh_conn_def k\<close>)
qed

text \<open>A round of a copying loop.\<close>

lemma inv_copy:
  assumes inv: "relay_inv w" and r: "relays w b s" "open_pair s w"
    and ends: "(src, dst) = (se_PeerA s, b) \<or> (src, dst) = (b, se_PeerA s)"
  shows "relay_inv (copyWithHeader dst src n w)" (is "relay_inv ?w")
proof -
  note ok = relay_okD [OF relay_invD(5) [OF inv r(1)]]
  have b: "rw_phase w b \<noteq> None" "\<forall>sid. rw_phase w b \<noteq> Some (Waiting sid)" "rw_phase w b \<noteq> Some Finished" "rw_phase w b \<noteq> Some Reading"
    using r(1) by (auto simp: relays_def)
  then have ab: "se_PeerA s \<noteq> b" using ok(2) by auto
  have conn: "rw_conn ?w = (rw_conn w)
      (src := (rw_conn w src)\<lparr>rc_unread := drop n (rc_unread (rw_conn w src))\<rparr>,
       dst := (rw_conn w dst)\<lparr>rc_received := rc_received (rw_conn w dst) @ take n (rc_unread (rw_conn w src))\<rparr>)"
    using r(2) ends ab ok(1) by (auto simp: copyWithHeader_def Let_def open_pair_def)
  have other: "rw_conn ?w x = rw_conn w x" if "x \<noteq> se_PeerA s" "x \<noteq> b" for x using that ends conn by auto
  have same: "rw_server ?w = rw_server w" "rw_phase ?w = rw_phase w" by (simp_all add: copyWithHeader_def Let_def)
  then have rel: "relays ?w b s \<longleftrightarrow> relays w b s" for b s by (simp add: relays_def)
  have fwd: "forwarded (se_ID s) (rw_conn w (se_PeerA s)) (rw_conn w b)" "forwarded (se_ID s) (rw_conn w b) (rw_conn w (se_PeerA s))"
    using ok(4) [OF r(2)] by auto
  then have fwd': "forwarded (se_ID s) (rw_conn ?w (se_PeerA s)) (rw_conn ?w b)" "forwarded (se_ID s) (rw_conn ?w b) (rw_conn ?w (se_PeerA s))"
    using ends ab by (auto simp: conn forwarded_def)
  have "relay_ok ?w b' s'" if r': "relays w b' s'" for b' s'
  proof (cases "b' = b")
    case True
    then have "s' = s" using r' r(1) by (auto simp: relays_def)
    then show ?thesis using ok fwd' True by (auto simp: relay_ok_def same ran_def)
  next
    case False
    note ok' = relay_okD [OF relay_invD(5) [OF inv r']]
    have "se_PeerA s' \<noteq> se_PeerA s" using relay_invD(6) [OF inv r' r(1)] False by auto
    moreover have "se_PeerA s' \<noteq> b" using ok'(2) b by auto
    moreover have "b' \<noteq> se_PeerA s" using ok(2) r' by (auto simp: relays_def)
    ultimately have "rw_conn ?w (se_PeerA s') = rw_conn w (se_PeerA s')" "rw_conn ?w b' = rw_conn w b'"
      using other False by auto
    then show ?thesis using ok' by (auto simp: relay_ok_def same ran_def open_pair_def)
  qed
  moreover have "rw_conn ?w c = rw_conn w c" if "rs_waiting (rw_server w) sid = Some c" for sid c
    by (rule other) (use that ok(3) b relay_invD(1) [OF inv] in auto)
  moreover have "rw_conn ?w c = rw_conn w c" if "rw_phase w c = Some Reading" for c
    by (rule other) (use that ok(2) b in auto)
  moreover have "rc_closed (rw_conn ?w c) = rc_closed (rw_conn w c)" for c using conn by simp
  ultimately show ?thesis
    by (intro relay_invI; (unfold rel same)?) (use relay_invD [OF inv] in auto)
qed

text \<open>A handler that has read its request waits, or is paired with the one that waits.\<close>

lemma inv_wait:
  assumes inv: "relay_inv w" and c: "rw_phase w c = Some Reading" "read_connect (rc_unread (rw_conn w c)) = Some (Inr (sid, rest))"
    and none: "rs_waiting (rw_server w) sid = None"
    and w': "rw_server w' = (rw_server w)\<lparr>rs_waiting := (rs_waiting (rw_server w))(sid \<mapsto> c)\<rparr>"
      "rw_conn w' = (rw_conn w)(c := (rw_conn w c)\<lparr>rc_unread := rest\<rparr>)" "rw_phase w' = (rw_phase w)(c \<mapsto> Waiting sid)"
  shows "relay_inv w'"
proof -
  have rel: "relays w' b s \<longleftrightarrow> relays w b s" for b s using c(1) by (auto simp: relays_def w')
  have notc: "x \<noteq> c" if "rs_waiting (rw_server w) i = Some x" for i x using relay_invD(1) [OF inv that] c(1) by auto
  have ok: "relay_ok w' b s" if r: "relays w b s" for b s
  proof -
    note b = relay_okD [OF relay_invD(5) [OF inv r]]
    have "b \<noteq> c" "se_PeerA s \<noteq> c" using r c(1) b(2) by (auto simp: relays_def)
    then show ?thesis using b by (auto simp: relay_ok_def w' open_pair_def ran_def)
  qed
  have "rc_sent (rw_conn w c) = connect_msg sid @ rest" "rc_received (rw_conn w c) = []"
    using relay_invD(3) [OF inv c(1)] read_connect_Inr(1) [OF c(2)] by auto
  then have "fresh_conn sid (rw_conn w' c)" by (simp add: fresh_conn_def w')
  then show ?thesis
    by (intro relay_invI; (unfold rel)?)
       (use ok notc in \<open>auto simp: w' split: if_splits dest: notc relay_invD [OF inv]\<close>)
qed

lemma inv_pair:
  assumes inv: "relay_inv w" and c: "rw_phase w c = Some Reading" "read_connect (rc_unread (rw_conn w c)) = Some (Inr (sid, rest))"
    and a: "rs_waiting (rw_server w) sid = Some a"
    and w': "rw_server w' = (rw_server w)\<lparr>rs_waiting := (rs_waiting (rw_server w))(sid := None),
        rs_sessions := (rs_sessions (rw_server w))(sid \<mapsto> s)\<rparr>"
      "rw_conn w' = (rw_conn w)(a := if rc_closed (rw_conn w a) then rw_conn w a
          else (rw_conn w a)\<lparr>rc_received := rc_received (rw_conn w a) @ ack_msg sid\<rparr>,
        c := (rw_conn w c)\<lparr>rc_unread := rest, rc_received := rc_received (rw_conn w c) @ ack_msg sid\<rparr>)"
      "rw_phase w' = (rw_phase w)(c \<mapsto> Relaying s True True)" "s = \<lparr>se_ID = sid, se_PeerA = a, se_PeerB = c\<rparr>"
  shows "relay_inv w'"
proof -
  note A = relay_invD(1) [OF inv a]
  have ac: "a \<noteq> c" using A c(1) by auto
  have notc: "x \<noteq> c" if "rs_waiting (rw_server w) i = Some x" for i x using relay_invD(1) [OF inv that] c(1) by auto
  have rel: "relays w' b t \<longleftrightarrow> relays w b t \<or> b = c \<and> t = s" for b t using c(1) by (auto simp: relays_def w'(3))
  have old: "b \<noteq> c \<and> b \<noteq> a \<and> se_PeerA t \<noteq> c \<and> se_PeerA t \<noteq> a" if r: "relays w b t" for b t
    using relay_okD(2,3) [OF relay_invD(5) [OF inv r]] r c(1) A a by (auto simp: relays_def)
  have req: "rc_sent (rw_conn w c) = connect_msg sid @ rest" "rc_received (rw_conn w c) = []"
    using relay_invD(3) [OF inv c(1)] read_connect_Inr(1) [OF c(2)] by auto
  have "relay_ok w' c s"
    using A ac req relay_invD(2) [OF inv a] by (auto simp: relay_ok_def w' open_pair_def ran_def forwarded_def fresh_conn_def)
  moreover have "relay_ok w' b t" if r: "relays w b t" for b t
    using relay_invD(5) [OF inv r] old [OF r] unfolding relay_ok_def
    by (auto simp: w' open_pair_def ran_def)
  moreover have "fresh_conn i (rw_conn w' x)" if "rs_waiting (rw_server w') i = Some x" for i x
    using that relay_invD(1,2) [OF inv] a notc by (auto simp: w' split: if_splits)
  ultimately show ?thesis
    by (intro relay_invI; (unfold rel)?)
       (use A in \<open>auto simp: w' split: if_splits dest: notc old relay_invD [OF inv]\<close>)
qed

lemma inv_accept:
  assumes inv: "relay_inv w" and "rw_phase w c = None"
    and w': "rw_server w' = rw_server w" "rw_phase w' = (rw_phase w)(c \<mapsto> Reading)"
      "rw_conn w' = (rw_conn w)(c := \<lparr>rc_sent = [], rc_unread = [], rc_received = [], rc_closed = False\<rparr>)"
  shows "relay_inv w'"
proof -
  have rel: "relays w' b s \<longleftrightarrow> relays w b s" for b s using assms(2) by (auto simp: relays_def w')
  have ok: "relay_ok w' b s" if r: "relays w b s" for b s
  proof -
    note b = relay_okD [OF relay_invD(5) [OF inv r]]
    have "b \<noteq> c" "se_PeerA s \<noteq> c" using r assms(2) b(2) by (auto simp: relays_def)
    then show ?thesis using b by (auto simp: relay_ok_def w' open_pair_def ran_def)
  qed
  have notc: "x \<noteq> c" if "rs_waiting (rw_server w) i = Some x" for i x using relay_invD(1) [OF inv that] assms(2) by auto
  show ?thesis
    by (intro relay_invI; (unfold rel)?)
       (use ok assms(2) in \<open>auto simp: w' split: if_splits dest: notc relay_invD [OF inv]\<close>)
qed

lemma inv_phase:
  assumes inv: "relay_inv w" and "relays w c s"
  shows "relay_inv (set_phase c (Relaying s x y) w)" (is "relay_inv ?w")
proof -
  have rel: "relays ?w b t \<longleftrightarrow> relays w b t" for b t using assms(2) by (auto simp: relays_def)
  have c: "rw_phase w c \<notin> {None, Some Reading, Some Finished}" "\<forall>sid. rw_phase w c \<noteq> Some (Waiting sid)"
    using assms(2) by (auto simp: relays_def)
  have ok: "relay_ok ?w b t" if r: "relays w b t" for b t
  proof -
    note b = relay_okD [OF relay_invD(5) [OF inv r]]
    have "se_PeerA t \<noteq> c" using b(2) c by auto
    then show ?thesis using b by (auto simp: relay_ok_def open_pair_def ran_def)
  qed
  show ?thesis
    by (intro relay_invI; (unfold rel)?) (use ok c in \<open>auto split: if_splits dest: relay_invD [OF inv]\<close>)
qed

lemma inv_end:
  assumes inv: "relay_inv w" and "relays w c s"
  shows "relay_inv (relay_end c s w)"
proof -
  let ?w1 = "w\<lparr>rw_server := (rw_server w)\<lparr>rs_sessions := (rs_sessions (rw_server w))(se_ID s := None)\<rparr>\<rparr>"
  have "relay_inv ?w1" by (rule inv_server [OF inv]) (auto split: if_splits)
  moreover have "rw_phase w (se_PeerA s) \<noteq> Some Reading" "rw_phase w (se_PeerB s) \<noteq> Some Reading"
    using relay_okD(1,2) [OF relay_invD(5) [OF assms]] assms(2) by (auto simp: relays_def)
  ultimately have "relay_inv (session_Close s ?w1)" unfolding session_Close_def by (intro inv_close) simp_all
  then show ?thesis unfolding relay_end_def by (rule inv_return [of _ _ c]) (simp_all add: handler_return_def)
qed

lemma inv_close_entry:
  assumes inv: "relay_inv w"
  shows "relay_inv (close_session_entry sid (close_waiting_entry sid w))"
proof -
  let ?w1 = "close_waiting_entry sid w"
  have "relay_inv ?w1"
    using inv by (auto simp: close_waiting_entry_def split: option.split intro!: inv_close dest: relay_invD(1) [OF inv])
  then show ?thesis
    by (auto simp: close_session_entry_def session_Close_def split: option.split intro!: inv_close dest: relay_invD(7) [of ?w1])
qed

lemma inv_request:
  assumes inv: "relay_inv w" and "rw_phase w c = Some Reading" "relay_handleConnection c w = Some w'"
  shows "relay_inv w'"
proof -
  have opened: "\<not> rc_closed (rw_conn w c)" using relay_invD(3) [OF inv assms(2)] by simp
  consider (refused) m where "w' = handler_return c (relay_sendError c m w)"
    | (joined) sid rest where "read_connect (rc_unread (rw_conn w c)) = Some (Inr (sid, rest))"
        "w' = join_session c sid (w\<lparr>rw_conn := (rw_conn w)(c := (rw_conn w c)\<lparr>rc_unread := rest\<rparr>)\<rparr>)"
    using assms(3) by (auto simp: relay_handleConnection_def split: option.splits sum.splits prod.splits)
  then show ?thesis
  proof cases
    case refused
    then show ?thesis by (intro inv_return [OF inv, of _ c]) (simp_all add: handler_return_def relay_sendError_def)
  next
    case joined
    show ?thesis
    proof (cases "rs_waiting (rw_server w) sid")
      case None
      show ?thesis
        by (rule inv_wait [OF inv assms(2) joined(1) None]) (use None joined(2) in \<open>simp_all add: join_session_def Let_def\<close>)
    next
      case (Some a)
      have "a \<noteq> c" using relay_invD(1) [OF inv Some] assms(2) by auto
      show ?thesis
        by (rule inv_pair [OF inv assms(2) joined(1) Some])
           (use Some joined(2) opened \<open>a \<noteq> c\<close> in
             \<open>auto simp: join_session_def Let_def relay_sendConnectAck_def fun_upd_twist intro!: ext\<close>)
    qed
  qed
qed

lemma inv_step:
  assumes inv: "relay_inv w" and step: "relay_step w ev = Some w'"
  shows "relay_inv w'"
proof (cases ev)
  case (Accept c)
  then show ?thesis using step by (intro inv_accept [OF inv, of c]) (auto split: if_splits)
next
  case (ClientSends c d)
  then show ?thesis using step inv_sends [OF inv refl, of c d] by (auto split: if_splits)
next
  case (Request c)
  then show ?thesis using step by (intro inv_request [OF inv, of c]) (auto split: if_splits)
next
  case (ReadFails c)
  then show ?thesis using step by (intro inv_return [OF inv, of _ c]) (auto simp: handler_return_def split: if_splits)
next
  case (TimedOut c)
  then obtain sid where w': "w' = wait_timeout c sid w" using step by (auto split: option.splits relay_phase.splits)
  let ?w1 = "w\<lparr>rw_server := (rw_server w)\<lparr>rs_waiting := (rs_waiting (rw_server w))(sid := None)\<rparr>\<rparr>"
  have "relay_inv ?w1" by (rule inv_server [OF inv]) (auto split: if_splits)
  then show ?thesis
    unfolding w' wait_timeout_def by (rule inv_return [of _ _ c]) (simp_all add: handler_return_def relay_sendError_def)
next
  case Shutdown
  then show ?thesis using step by (intro inv_server [OF inv]) (auto split: if_splits)
next
  case (WaitDone c)
  then show ?thesis
    using step by (intro inv_return [OF inv, of _ c]) (auto simp: handler_return_def split: if_splits option.splits relay_phase.splits)
next
  case (CloseEntry sid)
  then show ?thesis using step inv_close_entry [OF inv] by (auto split: if_splits)
next
  case (CopyToB c n)
  then obtain s ba where "rw_phase w c = Some (Relaying s True ba)" "open_pair s w" "w' = copyWithHeader (se_PeerB s) (se_PeerA s) n w"
    using step by (auto split: if_splits option.splits relay_phase.splits bool.splits)
  then show ?thesis
    using inv_copy [OF inv, of c s "se_PeerA s" "se_PeerB s" n] relay_okD(1) [OF relay_invD(5) [OF inv]] by (auto simp: relays_def)
next
  case (CopyToA c n)
  then obtain s ab where "rw_phase w c = Some (Relaying s ab True)" "open_pair s w" "w' = copyWithHeader (se_PeerA s) (se_PeerB s) n w"
    using step by (auto split: if_splits option.splits relay_phase.splits bool.splits)
  then show ?thesis
    using inv_copy [OF inv, of c s "se_PeerB s" "se_PeerA s" n] relay_okD(1) [OF relay_invD(5) [OF inv]] by (auto simp: relays_def)
next
  case (LoopEnds c d)
  then show ?thesis
    using step inv_phase [OF inv, of c] by (auto simp: relays_def split: option.splits relay_phase.splits if_splits)
next
  case (RelayEnds c)
  then show ?thesis
    using step inv_end [OF inv, of c] by (auto simp: relays_def split: option.splits relay_phase.splits bool.splits)
qed

lemma reach_inv: "relay_reach w \<Longrightarrow> relay_inv w"
proof (induction rule: relay_reach.induct)
  case reach_init
  show ?case by (rule relay_invI) (auto simp: relay_init_def NewRelayServer_def relays_def)
next
  case (reach_step w ev w')
  then show ?case using inv_step by blast
qed

section \<open>What the relay guarantees\<close>

fun relay_run :: "relay_world \<Rightarrow> relay_event list \<Rightarrow> relay_world option" where
  "relay_run w [] = Some w"
| "relay_run w (ev # evs) = Option.bind (relay_step w ev) (\<lambda>w'. relay_run w' evs)"

lemma run_reach: "relay_run w evs = Some w' \<Longrightarrow> relay_reach w \<Longrightarrow> relay_reach w'"
  by (induction evs arbitrary: w) (auto simp: bind_eq_Some_conv intro: reach_step)


definition relay_events1 :: "relay_event list" where
  "relay_events1 = [Accept 1, ClientSends 1 (connect_msg ''s'' @ [7, 8]), Request 1, Accept 2, ClientSends 2 (connect_msg ''s''), Request 2]"

lemma relay_example:
  "\<exists>w. relay_run relay_init relay_events1 = Some w \<and> rw_phase w 2 = Some (Relaying \<lparr>se_ID = ''s'', se_PeerA = 1, se_PeerB = 2\<rparr> True True) \<and>
     open_pair \<lparr>se_ID = ''s'', se_PeerA = 1, se_PeerB = 2\<rparr> w \<and> rw_phase w 1 = Some (Waiting ''s'') \<and>
     rc_unread (rw_conn w 1) = [7, 8] \<and> rc_received (rw_conn w 2) = ack_msg ''s''"
  using read_connect_msg [of "''s''" "[7, 8]"] read_connect_msg [of "''s''" "[]"]
  by (simp add: relay_events1_def relay_init_def NewRelayServer_def relay_handleConnection_def join_session_def Let_def
      open_pair_def relay_sendConnectAck_def)


text \<open>
  A paired peer is still timed out: the handler of the peer that came first keeps waiting after the
  pairing, and when its timer fires it writes an error message into the stream of relayed data and
  closes the connection, after which nothing is relayed any more. So no session outlives the thirty
  seconds of this timer.
\<close>

theorem relay_timeout_ends_session:
  assumes "relay_reach w" "rw_phase w b = Some (Relaying s toB toA)" "open_pair s w"
  shows "\<exists>w'. relay_step w (TimedOut (se_PeerA s)) = Some w' \<and>
    rc_received (rw_conn w' (se_PeerA s)) =
      rc_received (rw_conn w (se_PeerA s)) @ relay_message RelayMsgError (bytes_of ''timeout waiting for peer'') \<and>
    rc_closed (rw_conn w' (se_PeerA s)) \<and> relay_step w' (CopyToB b n) = None \<and> relay_step w' (CopyToA b n) = None"
proof -
  have r: "relays w b s" using assms(2) by (auto simp: relays_def)
  note inv = reach_inv [OF assms(1)]
  note ok = relay_okD [OF relay_invD(5) [OF inv r]]
  have a: "\<not> rc_closed (rw_conn w (se_PeerA s))" using assms(3) by (simp add: open_pair_def)
  then have ph: "rw_phase w (se_PeerA s) = Some (Waiting (se_ID s))" using ok(2) relay_invD(4) [OF inv, of "se_PeerA s"] by auto
  then have "se_PeerA s \<noteq> b" using assms(2) by auto
  then show ?thesis
    using ph a assms(2)
    by (auto simp: wait_timeout_def handler_return_def relay_sendError_def open_pair_def split: bool.splits)
qed

lemma relay_timeout_ends_session_witness:
  "\<exists>w w'. relay_run relay_init relay_events1 = Some w \<and> relay_step w (TimedOut 1) = Some w' \<and>
     rc_closed (rw_conn w' 1) \<and> relay_step w' (CopyToB 2 2) = None"
proof -
  obtain w where w: "relay_run relay_init relay_events1 = Some w"
      "rw_phase w 2 = Some (Relaying \<lparr>se_ID = ''s'', se_PeerA = 1, se_PeerB = 2\<rparr> True True)"
      "open_pair \<lparr>se_ID = ''s'', se_PeerA = 1, se_PeerB = 2\<rparr> w"
    using relay_example by blast
  obtain w' where w': "relay_step w (TimedOut 1) = Some w'" "rc_closed (rw_conn w' 1)" "relay_step w' (CopyToB 2 2) = None"
    using relay_timeout_ends_session [OF run_reach [OF w(1) reach_init] w(2,3), of 2]
    by (auto simp del: relay_step.simps)
  show ?thesis by (rule exI [of _ w], rule exI [of _ w']) (use w(1) w' in \<open>simp del: relay_step.simps\<close>)
qed

text \<open>The connection of a client whose messages the server has handled up to a state.\<close>

definition from_relay :: "relay_world \<Rightarrow> nat \<Rightarrow> stream" where
  "from_relay w c = \<lparr>sm_out = \<lparr>wr_bytes = [], wr_room = None\<rparr>, sm_reply = (\<lambda>b. reader_of (rc_received (rw_conn w c)))\<rparr>"

lemma relay_Connect_ack:
  assumes "length sid \<le> 256" "rc_received (rw_conn w c) = ack_msg sid @ data"
  shows "relay_Connect (Some (from_relay w c)) sid = Inr (sid, reader_of data)"
  using assms
  by (simp add: relay_Connect_def from_relay_def io_simps relay_message_def ReadFull_def reader_of_def relay_types Let_def)



text \<open>
  The fallback is lost when the lookup fails: with a working STUN server and registration, a peer that
  the signaling server does not know, or that it cannot be asked about, makes \<open>Connect\<close> panic instead
  of trying the relay, whatever relay is configured.
\<close>

theorem fallback_panics_on_failed_lookup:
  assumes "Initialize (fe_nets env) (fe_socket env) (fe_register env) (fs_holePuncher fs) = (Inr (), hp)"
    and "LookupPeer (fe_lookup env) remotePeerID = Inl e"
  shows "fs_Connect env fs remotePeerID sessionID = Some (Inl (Panic ''nil pointer dereference''))"
proof -
  have "hp_localConn hp \<noteq> None"
    using assms(1) by (auto simp: Initialize_def Let_def split: sum.splits prod.splits)
  then show ?thesis using assms by (auto simp: fs_Connect_def hp_Connect_def)
qed

definition fallback_env1 :: fallback_env where
  "fallback_env1 = \<lparr>fe_nets = (\<lambda>i. net_up), fe_socket = Some addr2,
     fe_register = Some \<lparr>sm_out = \<lparr>wr_bytes = [], wr_room = None\<rparr>, sm_reply = (\<lambda>b. reader_of (sig_message MsgTypeRegisterAck []))\<rparr>,
     fe_resolver = (\<lambda>s. None), fe_lookup = None, fe_random = replicate 8 0, fe_events = [], fe_relay = None\<rparr>"

lemma fallback_panics_on_failed_lookup_witness:
  "fs_Connect fallback_env1 \<lparr>fs_holePuncher = hp1, fs_relayAddr = ''relay:1''\<rparr> ''b'' ''s'' = Some (Inl (Panic ''nil pointer dereference''))"
proof -
  have "readResponse (reader_of (sig_message MsgTypeRegisterAck [])) = Inr (MsgTypeRegisterAck, [])"
    by (rule readResponse_enc) simp
  then obtain hp where "Initialize (\<lambda>i. net_up) (Some addr2) (fe_register fallback_env1) hp1 = (Inr (), hp)"
    by (simp add: Initialize_def DiscoverWithNewConn_def Discover_def hp1_def Register_def fallback_env1_def io_simps sig_types Let_def net_up_query)
  then show ?thesis
    by (intro fallback_panics_on_failed_lookup) (simp_all add: fallback_env1_def LookupPeer_def)
qed

end
