(* ===== verification/NatLife.thy ===== *)
theory NatLife
  imports Relay
begin

text \<open>
  The accept loop of the signaling server and the clients of both servers as objects, from
  \<open>internal/nat/signaling.go\<close> and \<open>internal/nat/relay.go\<close>. Dialling is an argument: the stream that it yields, if
  it succeeds.
\<close>

section \<open>Definitions\<close>

definition SignalingTimeout :: int where "SignalingTimeout = 10 * 1000000000"

record SignalingClient =
  sl_serverAddr :: string
  sl_timeout :: int

definition NewSignalingClient :: "string \<Rightarrow> SignalingClient" where
  "NewSignalingClient serverAddr = \<lparr>sl_serverAddr = serverAddr, sl_timeout = SignalingTimeout\<rparr>"

text \<open>The connection comes with its deadline. \<open>dial\<close> takes the timeout and the address.\<close>

definition sig_connect :: "(int \<Rightarrow> string \<Rightarrow> stream option) \<Rightarrow> int \<Rightarrow> SignalingClient \<Rightarrow> (stream \<times> int) res" where
  "sig_connect dial now c =
     (case dial (sl_timeout c) (sl_serverAddr c) of
        None \<Rightarrow> Inl (Err ''connecting to signaling server'')
      | Some conn \<Rightarrow> Inr (conn, now + sl_timeout c))"

text \<open>
  What \<open>Accept\<close> returns: a connection, at a time, or an error. An error ends the loop when the server is
  being closed and is skipped otherwise. The second result says whether the loop has returned.
\<close>

datatype sig_accept = SigConn int reader writer | SigAcceptError bool

fun sig_acceptLoop :: "sig_accept list \<Rightarrow> SignalingServer \<Rightarrow> SignalingServer \<times> bool" where
  "sig_acceptLoop [] s = (s, False)"
| "sig_acceptLoop (SigAcceptError closing # as) s = (if closing then (s, True) else sig_acceptLoop as s)"
| "sig_acceptLoop (SigConn now r conn # as) s = sig_acceptLoop as (fst (snd (sig_handleConnection now s r conn)))"

record RelayClient =
  rl_serverAddr :: string
  rl_conn :: "reader option"
  rl_sessionID :: string

definition NewRelayClient :: "string \<Rightarrow> RelayClient" where
  "NewRelayClient serverAddr = \<lparr>rl_serverAddr = serverAddr, rl_conn = None, rl_sessionID = []\<rparr>"

definition rl_Connect :: "(string \<Rightarrow> stream option) \<Rightarrow> string \<Rightarrow> RelayClient \<Rightarrow> reader res \<times> RelayClient" where
  "rl_Connect dial sessionID rc =
     (case relay_Connect (dial (rl_serverAddr rc)) sessionID of
        Inl e \<Rightarrow> (Inl e, rc)
      | Inr (ackSessionID, conn) \<Rightarrow> (Inr conn, rc\<lparr>rl_conn := Some conn, rl_sessionID := ackSessionID\<rparr>))"

text \<open>The first result is the connection that is closed, if there is one.\<close>

definition rl_Close :: "RelayClient \<Rightarrow> reader option \<times> RelayClient" where
  "rl_Close rc = (case rl_conn rc of None \<Rightarrow> (None, rc) | Some conn \<Rightarrow> (Some conn, rc\<lparr>rl_conn := None\<rparr>))"

definition rl_GetConn :: "RelayClient \<Rightarrow> reader option" where
  "rl_GetConn rc = rl_conn rc"


section \<open>Lemmas\<close>

text \<open>
  The accept loop is a run of the server: it handles the connections that arrive before the error that
  ends it, in their order, and returns just when there is such an error.
\<close>

definition handled :: "sig_accept list \<Rightarrow> sig_event list" where
  "handled as = concat (map (\<lambda>a. case a of SigConn now r conn \<Rightarrow> [Connected now r conn] | SigAcceptError b \<Rightarrow> [])
     (takeWhile (\<lambda>a. a \<noteq> SigAcceptError True) as))"

lemma sig_acceptLoop_run: "sig_acceptLoop as s = (sig_run s (handled as), SigAcceptError True \<in> set as)"
  by (induction as s rule: sig_acceptLoop.induct) (simp_all add: handled_def sig_run_def)

text \<open>A client hands out the connection that its last \<open>Connect\<close> returned, until it is closed.\<close>

lemma rl_Connect_GetConn:
  assumes "rl_Connect dial sessionID rc = (Inr conn, rc')"
  shows "rl_GetConn rc' = Some conn" "rl_Close rc' = (Some conn, rc'\<lparr>rl_conn := None\<rparr>)"
    "rl_GetConn (snd (rl_Close rc')) = None"
  using assms by (auto simp: rl_Connect_def rl_GetConn_def rl_Close_def split: sum.splits prod.splits)

text \<open>Closing a client twice closes its connection once.\<close>

lemma rl_Close_twice: "rl_Close (snd (rl_Close rc)) = (None, snd (rl_Close rc))"
  by (simp add: rl_Close_def split: option.splits)

end
