(* ===== verification/TreePrint.thy ===== *)
theory TreePrint
  imports Cli
begin

text \<open>
  The printing of a tree in \<open>internal/merkle/tree.go\<close>. The result is the lines printed and the panic, if
  there is one: \<open>printNode\<close> takes the first eight digits of the hash of a node, which a node without a
  hash does not have. Box-drawing characters are their UTF-8 bytes.
\<close>

definition marker :: "bool \<Rightarrow> string" where
  "marker isLast =
     [CHR 0xE2, CHR 0x94, if isLast then CHR 0x94 else CHR 0x9C, CHR 0xE2, CHR 0x94, CHR 0x80,
      CHR 0xE2, CHR 0x94, CHR 0x80, CHR '' '']"

definition indent :: "bool \<Rightarrow> string" where
  "indent isLast = (if isLast then ''    '' else [CHR 0xE2, CHR 0x94, CHR 0x82] @ ''   '')"

fun printNode :: "string \<Rightarrow> bool \<Rightarrow> Node \<Rightarrow> string list \<times> go_error option"
and printNodes :: "string \<Rightarrow> Node list \<Rightarrow> string list \<times> go_error option" where
  "printNode pre isLast (Node name ty hash mode sz children chunks) =
     (if length (EncodeToString hash) < 8 then ([], Some (Panic ''slice bounds out of range''))
      else
        let typeStr = (if ty = NodeTypeDir then ''D'' else ''F'');
            line = pre @ marker isLast @ ''['' @ typeStr @ ''] '' @ name @ '' ('' @ take 8 (EncodeToString hash) @ '')''
        in if ty = NodeTypeDir
           then case printNodes (pre @ indent isLast) children of (ls, e) \<Rightarrow> (line # ls, e)
           else ([line], None))"
| "printNodes pre [] = ([], None)"
| "printNodes pre (child # children) =
     (case printNode pre (children = []) child of
        (ls, Some e) \<Rightarrow> (ls, Some e)
      | (ls, None) \<Rightarrow> (case printNodes pre children of (ms, e) \<Rightarrow> (ls @ ms, e)))"

definition PrintTree :: "Tree \<Rightarrow> string list \<times> go_error option" where
  "PrintTree t = (case tr_Root t of None \<Rightarrow> ([''<empty tree>''], None) | Some root \<Rightarrow> printNode [] True root)"


section \<open>Lemmas\<close>

text \<open>Trees in which every node has a hash and files have no children, as \<open>BuildFromFS\<close> makes them.\<close>

fun hashed :: "Node \<Rightarrow> bool" where
  "hashed (Node name ty hash mode sz children chunks) \<longleftrightarrow>
     4 \<le> length hash \<and> (ty = NodeTypeFile \<longrightarrow> children = []) \<and> (\<forall>c \<in> set children. hashed c)"

lemma foldl_plus: "foldl (+) (x :: int) xs = x + foldl (+) 0 xs"
proof (induction xs arbitrary: x)
  case (Cons y xs)
  show ?case using Cons.IH [of "x + y"] Cons.IH [of y] by simp
qed simp

text \<open>Such a tree prints without a panic, one line for each node.\<close>

lemma printNode_lines:
  "hashed n \<Longrightarrow> \<exists>ls. printNode pre isLast n = (ls, None) \<and> int (length ls) = countNodes n"
  "\<forall>c \<in> set ns. hashed c \<Longrightarrow> \<exists>ls. printNodes pre ns = (ls, None) \<and> int (length ls) = foldl (+) 0 (map countNodes ns)"
proof (induction pre isLast n and pre ns rule: printNode_printNodes.induct)
  case (1 pre isLast name ty hash mode sz children chunks)
  have len: "\<not> length (EncodeToString hash) < 8" using 1(2) by simp
  show ?case
  proof (cases "ty = NodeTypeDir")
    case True
    then obtain ls where "printNodes (pre @ indent isLast) children = (ls, None)" "int (length ls) = foldl (+) 0 (map countNodes children)"
      using 1(1) [OF len refl refl True] 1(2) by auto
    then show ?thesis using True len by (simp add: Let_def foldl_plus [of 1])
  next
    case False
    then show ?thesis using 1(2) len by (cases ty) (simp_all add: Let_def)
  qed
next
  case (3 pre child children)
  obtain ls where ls: "printNode pre (children = []) child = (ls, None)" "int (length ls) = countNodes child" using 3 by auto
  moreover obtain ms where "printNodes pre children = (ms, None)" "int (length ms) = foldl (+) 0 (map countNodes children)"
    using 3(2) [OF ls(1) [symmetric]] 3(3) by auto
  ultimately show ?case by (simp add: foldl_plus [of "countNodes child"])
qed simp

text \<open>A tree whose root has no hash makes \<open>PrintTree\<close> panic.\<close>

lemma PrintTree_unhashed: "tr_Root t = Some n \<Longrightarrow> nd_Hash n = [] \<Longrightarrow> PrintTree t = ([], Some (Panic ''slice bounds out of range''))"
  by (cases n) (simp add: PrintTree_def EncodeToString_def)

end
