(* ===== verification/Spec2Isabelle.thy ===== *)
theory Spec2Isabelle
  imports Delta Daemon WatchLoop NatLife TreePrint
begin

text \<open>
  A verification library for \<open>p2p-file-sync\<close>, a peer-to-peer file synchroniser written in Go. Its
  theories translate the program's packages into definitions, one per function or handler and under
  the names of the source where these are free, and prove what makes each package correct. All paths
  below are relative to \<open>src/\<close>.

  \<^bold>\<open>The program.\<close> The files of a directory are cut into chunks of four kilobytes, which a content-addressed store keeps in
  files named after their SHA-256 digest. A Merkle tree over the directory is exchanged as a manifest;
  comparing two trees tells which files differ, and the chunks that are missing are requested from the
  peer over QUIC. A watcher keeps a database of files and their chunks up to date with the directory.
  Rsync-style deltas describe a file by blocks of an older version. Peers behind a NAT find their public
  address by STUN, each other by a signaling server, and punch holes or fall back to a relay. The command
  line has commands to initialise a directory, to serve it, and to synchronise it with a daemon.

  \<^bold>\<open>Theories and sources.\<close>

  \<^item> \<open>Prelude\<close>: machine integers as words, byte slices as lists of bytes, strings as lists of characters; the
    type \<open>'a res\<close> of fallible operations with errors and panics; checked slices; the encodings of
    \<open>encoding/binary\<close> and \<open>encoding/hex\<close>; readers that deliver their bytes in pieces and may fail, and
    writers with limited room. \<open>Sha256\<close> is the digest; its locale \<open>hash32\<close> states what the rest needs of a digest.
  \<^item> \<open>Rolling\<close>, \<open>Delta\<close>: \<open>internal/delta/rolling.go\<close> and \<open>delta.go\<close>. The rolling checksum keeps the circular
    buffer of the code; the locale \<open>byte_window\<close> states it as the checksum of the last bytes.
  \<^item> \<open>Chunker\<close>, \<open>Fs\<close>, \<open>BlobStore\<close>: \<open>internal/cas/chunk.go\<close> and \<open>store.go\<close> over a file system that maps paths
    to directories and files. The locale \<open>chunk_store\<close> is the store's contract: a map from hashes to data.
  \<^item> \<open>Merkle\<close>, \<open>TreePrint\<close>: \<open>internal/merkle/tree.go\<close> and \<open>build.go\<close>. \<open>TreeDiff\<close>: \<open>internal/diff/diff.go\<close>.
  \<^item> \<open>Proto\<close>, \<open>Transport\<close>, \<open>Endpoint\<close>, \<open>Sync\<close>: \<open>internal/proto/messages.go\<close> and \<open>internal/net/transport.go\<close>
    and \<open>sync.go\<close>. \<open>Transport\<close> has the handshake, the handlers of streams and the table of peers under
    concurrent connections; \<open>Endpoint\<close> has the certificate, listening, dialling, accepting and closing.
  \<^item> \<open>Db\<close>: \<open>internal/db/store.go\<close>, tables as lists of rows. The locale \<open>db_op\<close> collects what every statement
    keeps of the consistency of the tables; it is interpreted on each of them.
  \<^item> \<open>Filepath\<close>, \<open>Watcher\<close>, \<open>WatchLoop\<close>: \<open>internal/watcher/watcher.go\<close> with what it uses of \<open>path/filepath\<close>;
    \<open>WatchLoop\<close> interleaves its two goroutines and \<open>Stop\<close>.
  \<^item> \<open>Netaddr\<close>, \<open>Stun\<close>, \<open>Signaling\<close>, \<open>HolePunch\<close>, \<open>Relay\<close>, \<open>NatLife\<close>: the files of \<open>internal/nat\<close>, with what they use of
    package \<open>net\<close>.
  \<^item> \<open>Logging\<close>, \<open>Metrics\<close>: \<open>internal/logging/logging.go\<close> and \<open>internal/metrics/metrics.go\<close>.
  \<^item> \<open>Cli\<close>, \<open>SyncSteps\<close>, \<open>Clone\<close>, \<open>Daemon\<close>: \<open>cmd/p2p-file-sync/main.go\<close>. \<open>Cli\<close> has the commands and their
    helpers; \<open>SyncSteps\<close> and \<open>Clone\<close> compose them into one run of \<open>syncCmd\<close> against \<open>serveCmd\<close>; \<open>Daemon\<close> has
    the set-up of logging and the life of the daemon.

  \<^bold>\<open>State and operations.\<close> A struct is a record with the same fields under a prefix, an operation takes
  the state and returns it updated, and an early return or a panic is a branch with an \<open>Inl\<close> result. The
  file system, the database and the output of a connection are passed explicitly. What the environment
  decides is an argument: the faults of each system call (\<open>faults\<close>, \<open>recon_faults\<close>), the engine of each
  SQL statement (\<open>engine\<close>, with its clock and row identifiers), the order in which Go visits a map (\<open>ord\<close>),
  the digest (\<open>H\<close>), marshalling (\<open>codec\<close>), what a stream answers (\<open>stream\<close>), and random identifiers.
  Goroutines are steps: \<open>tstep\<close> for connections, \<open>watch_step\<close> for the watcher, \<open>punch_step\<close> for a punching
  attempt, \<open>relay_step\<close> for the relay, and runs are sequences of steps in any order.

  \<^bold>\<open>What is shown.\<close>

  \<^item> Deltas: applying a generated delta gives back the new file; application never returns a file with
    another digest; generation terminates; an unchanged file costs no literal bytes.
  \<^item> Store: the operations refine a map from hashes to data; a failing or interrupted \<open>Put\<close> leaves the old
    content; storing a reader and reading its chunks back gives its bytes; \<open>VerifyAll\<close> reports exactly the
    damaged chunks.
  \<^item> Trees: the comparison reports exactly the paths at which two trees differ, and is empty just for
    equal directories; manifests round-trip and are well-typed.
  \<^item> Synchronisation: a manifest-driven fetch brings exactly the requested chunks; and, over all the
    components together, \<open>syncCmd\<close> makes the local files those of the served directory.
  \<^item> Network: framing round-trips; the handshake completes on both sides; the table of peers is exact for
    one connection per peer, and what goes wrong with two.
  \<^item> Database and watcher: the tables stay consistent under any calls and failures; snapshots are
    permanent; a flush and a scan bring the database up to date; no event is lost in any interleaving.
  \<^item> NAT traversal: the STUN parser stays in bounds on every datagram; discovery, signaling and punching
    fit together; a registration is found for five minutes; the punching loop returns; the relay forwards
    between exactly two peers.
  \<^item> Metrics: every recording is well-typed for the client; the speed is that of the window.

  \<^bold>\<open>Hypotheses.\<close> Digests are assumed free of collisions only on the finite sets of data a statement names
  (\<open>collision_free\<close>, \<open>hash_faithful\<close>). \<open>codec_ok\<close> says that unmarshalling inverts marshalling, \<open>fits\<close> that a
  message is within the sixteen megabytes of an envelope. Statements about success name the absence of
  faults; statements about safety hold under any faults. Where a property has such a hypothesis, its
  witness instantiates the argument by a concrete function.

  \<^bold>\<open>Termination and bounds.\<close> No loop of the model has fuel. The loop of the delta generator is a
  \<open>partial_function\<close>, and that it returns on every input is proved; other loops recurse on their data or
  on a measure: the bytes a reader still has, the length of a datagram, the interval of a binary search.
  The retries of a punching attempt are bounded by the code; that an attempt returns is proved of its runs
  with a ticker that keeps firing. The round trip of deltas is for block sizes up to 65536, the limit to
  which the code clamps its window.

  \<^bold>\<open>Not modelled.\<close>

  \<^item> The generated \<open>internal/proto/sync.pb.go\<close>: its messages are records, its marshalling the argument \<open>codec\<close>.
  \<^item> Third-party code: QUIC and TLS, the SQLite engine beyond its statements, fsnotify, the Prometheus client,
    and cobra with the declaration and parsing of flags. Cryptography is the argument of
    \<open>generateSelfSignedCert\<close>.
  \<^item> What the commands print for their user, the text of log lines, file modes and symbolic links, signals,
    and the start and stop of the metrics server.
  \<^item> Real time: deadlines and timers show as events and failing reads. Speeds are rationals, so rounding of
    floating point is not seen; \<open>CompressionRatio\<close> is left out.
  \<^item> The addresses of the relay and signaling listeners, the wrapper \<open>RelayedConn\<close> and the stream opener of a
    peer, which only read a field or forward a call, and the pools of buffers beyond their contents.
\<close>

end
